(* ===== verification/Kernel_Prelude.thy ===== *)
theory Kernel_Prelude
  imports Main "HOL-Library.Word" "HOL-Library.Multiset" "HOL-Library.Monad_Syntax"
begin

text \<open>
  Shared vocabulary of the development: the types that stand for the C types the drivers use,
  the error numbers of the kernel, C objects as byte lists with bounds-checked access, and the
  generic lemmas on lists and machine integers that the component theories rely on.

  Pointers are integers, \<open>0\<close> being \<open>NULL\<close>. A C object of \<open>n\<close> bytes that starts at address \<open>p\<close>
  is the pair of \<open>p\<close> and a byte list of length \<open>n\<close>; an access that leaves the object has no
  defined result and is \<open>None\<close>. Conversions that can wrap (the cast to \<open>size_t\<close>) are written
  out, so that unsigned underflow is visible in the model.
\<close>

named_theorems kdefs \<open>definitions of the modelled kernel interface\<close>
named_theorems ksimps \<open>equations on the call log and the resources it leaves\<close>

type_synonym addr = int
type_synonym byte = "8 word"

subsection \<open>Error numbers\<close>

abbreviation (input) ENOENT :: int where "ENOENT \<equiv> 2"
abbreviation (input) EIO :: int where "EIO \<equiv> 5"
abbreviation (input) EAGAIN :: int where "EAGAIN \<equiv> 11"
abbreviation (input) ENOMEM :: int where "ENOMEM \<equiv> 12"
abbreviation (input) EFAULT :: int where "EFAULT \<equiv> 14"
abbreviation (input) ENODEV :: int where "ENODEV \<equiv> 19"
abbreviation (input) EINVAL :: int where "EINVAL \<equiv> 22"
abbreviation (input) ENOTTY :: int where "ENOTTY \<equiv> 25"
abbreviation (input) ENOSPC :: int where "ENOSPC \<equiv> 28"
abbreviation (input) EROFS :: int where "EROFS \<equiv> 30"
abbreviation (input) EPIPE :: int where "EPIPE \<equiv> 32"
abbreviation (input) ECONNRESET :: int where "ECONNRESET \<equiv> 104"
abbreviation (input) ESHUTDOWN :: int where "ESHUTDOWN \<equiv> 108"
abbreviation (input) ERESTARTSYS :: int where "ERESTARTSYS \<equiv> 512"

text \<open>A pointer that carries an error number (\<open>ERR_PTR\<close>) is negative.\<close>

definition IS_ERR :: "addr \<Rightarrow> bool" where
  "IS_ERR p = (p < 0)"

subsection \<open>C integers\<close>

text \<open>The conversion to \<open>size_t\<close> (64 bit, unsigned): negative values wrap.\<close>

definition size_t :: "int \<Rightarrow> int" where
  "size_t x = x mod 2 ^ 64"

lemma size_t_id [simp]: "0 \<le> x \<Longrightarrow> x < 2 ^ 64 \<Longrightarrow> size_t x = x"
  by (simp add: size_t_def)

lemma size_t_nonneg [simp]: "0 \<le> size_t x"
  by (simp add: size_t_def)

lemma size_t_le_0 [simp]: "size_t x \<le> 0 \<longleftrightarrow> size_t x = 0"
  by (simp add: order_antisym_conv)

lemma size_t_less [simp]: "size_t x < 2 ^ 64"
  by (simp add: size_t_def)

lemma size_t_neg:
  assumes "- (2 ^ 64) \<le> x" "x < 0"
  shows "size_t x = x + 2 ^ 64"
proof -
  have "size_t x = (x + 2 ^ 64) mod 2 ^ 64"
    unfolding size_t_def by (rule mod_add_self2 [symmetric])
  also have "\<dots> = x + 2 ^ 64"
    using assms by (intro mod_pos_pos_trivial) auto
  finally show ?thesis .
qed

text \<open>The conversion to \<open>loff_t\<close> (64 bit, signed): sums that leave the range wrap.\<close>

definition loff_t :: "int \<Rightarrow> int" where
  "loff_t x = (x + 2 ^ 63) mod 2 ^ 64 - 2 ^ 63"

lemma loff_t_id [simp]: "- (2 ^ 63) \<le> x \<Longrightarrow> x < 2 ^ 63 \<Longrightarrow> loff_t x = x"
  by (simp add: loff_t_def)

lemma loff_t_range: "- (2 ^ 63) \<le> loff_t x" "loff_t x < 2 ^ 63"
  using pos_mod_bound [of "2 ^ 64" "x + 2 ^ 63"] by (simp_all add: loff_t_def)

text \<open>A sum of two \<open>loff_t\<close> that leaves the range wraps to the other sign.\<close>

lemma loff_t_overflow: "2 ^ 63 \<le> x \<Longrightarrow> x < 2 ^ 64 \<Longrightarrow> loff_t x = x - 2 ^ 64"
proof -
  assume "2 ^ 63 \<le> x" "x < 2 ^ 64"
  moreover have "(x + 2 ^ 63) mod 2 ^ 64 = (x - 2 ^ 63) mod 2 ^ 64"
    using mod_add_self2 [of "x - 2 ^ 63" "2 ^ 64"] by (simp add: add.commute)
  ultimately show ?thesis by (simp add: loff_t_def)
qed

text \<open>The conversion to \<open>unsigned int\<close> (32 bit).\<close>

definition u32 :: "int \<Rightarrow> nat" where
  "u32 x = nat (x mod 2 ^ 32)"

lemma u32_id [simp]: "n < 2 ^ 32 \<Longrightarrow> u32 (int n) = n"
  by (simp add: u32_def)

text \<open>Device numbers: a 32-bit word, the major number in the upper 12 bits.\<close>

unbundle bit_operations_syntax

type_synonym dev_t = "32 word"

definition MKDEV :: "32 word \<Rightarrow> 32 word \<Rightarrow> dev_t" where
  "MKDEV ma mi = push_bit 20 ma OR mi"

definition MAJOR :: "dev_t \<Rightarrow> 32 word" where
  "MAJOR d = drop_bit 20 d"

definition MINOR :: "dev_t \<Rightarrow> 32 word" where
  "MINOR d = d AND mask 20"

text \<open>Recomputing a device number from its own major number gives the number back.\<close>

lemma MKDEV_MAJOR [simp]: "MKDEV (MAJOR (MKDEV m 0)) 0 = MKDEV m 0"
  by (rule bit_eqI) (auto simp: MKDEV_def MAJOR_def bit_simps)

subsection \<open>C objects\<close>

definition load :: "addr \<Rightarrow> byte list \<Rightarrow> addr \<Rightarrow> int \<Rightarrow> byte list option" where
  "load base obj p n =
     (if base \<le> p \<and> 0 \<le> n \<and> p + n \<le> base + int (length obj)
      then Some (take (nat n) (drop (nat (p - base)) obj)) else None)"

definition overwrite :: "byte list \<Rightarrow> nat \<Rightarrow> byte list \<Rightarrow> byte list" where
  "overwrite obj i xs = take i obj @ xs @ drop (i + length xs) obj"

definition store :: "addr \<Rightarrow> byte list \<Rightarrow> addr \<Rightarrow> byte list \<Rightarrow> byte list option" where
  "store base obj p xs =
     (if base \<le> p \<and> p + int (length xs) \<le> base + int (length obj)
      then Some (overwrite obj (nat (p - base)) xs) else None)"

lemma length_overwrite [simp]:
  "i + length xs \<le> length obj \<Longrightarrow> length (overwrite obj i xs) = length obj"
  by (simp add: overwrite_def)

lemma take_overwrite [simp]: "k \<le> i \<Longrightarrow> i \<le> length obj \<Longrightarrow> take k (overwrite obj i xs) = take k obj"
  by (simp add: overwrite_def)

lemma take_overwrite_through:
  "i \<le> length obj \<Longrightarrow> take (i + length xs) (overwrite obj i xs) = take i obj @ xs"
  by (simp add: overwrite_def)

lemma nth_overwrite:
  assumes "i + length xs \<le> length obj" "j < length obj"
  shows "overwrite obj i xs ! j = (if i \<le> j \<and> j < i + length xs then xs ! (j - i) else obj ! j)"
  using assms by (auto simp: overwrite_def nth_append min_def)

lemma load_length: "load base obj p n = Some xs \<Longrightarrow> length xs = nat n"
  by (auto simp: load_def split: if_splits)

lemma load_eq_Some:
  "base \<le> p \<Longrightarrow> 0 \<le> n \<Longrightarrow> p + n \<le> base + int (length obj) \<Longrightarrow>
   load base obj p n = Some (take (nat n) (drop (nat (p - base)) obj))"
  by (simp add: load_def)

lemma load_eq_None:
  "load base obj p n = None \<longleftrightarrow> p < base \<or> n < 0 \<or> base + int (length obj) < p + n"
  by (auto simp: load_def)

lemma store_eq_Some:
  "base \<le> p \<Longrightarrow> p + int (length xs) \<le> base + int (length obj) \<Longrightarrow>
   store base obj p xs = Some (overwrite obj (nat (p - base)) xs)"
  by (simp add: store_def)

text \<open>Reading back what was stored at the same place.\<close>

lemma load_store:
  "store base obj p xs = Some obj' \<Longrightarrow> load base obj' p (int (length xs)) = Some xs"
  by (auto simp: load_def store_def overwrite_def split: if_splits)

text \<open>
  Appending at a write pointer: a store at \<open>wp\<close> keeps the bytes between \<open>base\<close> and \<open>wp\<close>, and
  advancing \<open>wp\<close> over it appends the stored bytes.
\<close>

lemma append_store:
  assumes "base \<le> wp" "wp + int (length xs) \<le> base + int (length obj)"
  shows "\<exists>obj'. store base obj wp xs = Some obj' \<and> length obj' = length obj \<and>
    take (nat (wp - base)) obj' = take (nat (wp - base)) obj \<and>
    take (nat (wp + int (length xs) - base)) obj' = take (nat (wp - base)) obj @ xs"
proof -
  have "nat (wp + int (length xs) - base) = nat (wp - base) + length xs"
    "nat (wp - base) + length xs \<le> length obj"
    using assms by auto
  then show ?thesis
    using assms by (simp add: store_eq_Some take_overwrite_through)
qed

subsection \<open>Bounded quantifiers\<close>

lemma ex_less_Suc_shift: "(\<exists>i<Suc n. P i) \<longleftrightarrow> P 0 \<or> (\<exists>i<n. P (Suc i))"
  using less_Suc_eq_0_disj by auto

lemma all_less_Suc2_shift: "(\<forall>j<Suc (Suc n). P j) \<longleftrightarrow> P 0 \<and> P 1 \<and> (\<forall>j<n. P (Suc (Suc j)))"
  by (auto simp: less_Suc_eq_0_disj)

subsection \<open>Lists\<close>

lemma take_drop_append: "i \<le> j \<Longrightarrow> take (j - i) (drop i xs) @ drop j xs = drop i xs"
  by (metis add.commute append_take_drop_id drop_drop le_add_diff_inverse2)

lemma take_take_drop:
  "take m (drop i xs) @ take n (drop (i + m) xs) = take (m + n) (drop i xs)"
  by (metis add.commute drop_drop take_add)

lemma map_nth_take: "n \<le> length xs \<Longrightarrow> map (\<lambda>i. xs ! i) [0..<n] = take n xs"
  by (rule nth_equalityI) auto

subsection \<open>Rings of buffer heads\<close>

text \<open>
  A ring as the kernel builds it for the buffer heads of a page: following \<open>b_this_page\<close> from the
  head visits every element of the list once and comes back.
\<close>

definition bh_ring :: "(addr \<Rightarrow> addr) \<Rightarrow> addr \<Rightarrow> addr list \<Rightarrow> bool" where
  "bh_ring b_this_page head xs \<longleftrightarrow>
     xs \<noteq> [] \<and> hd xs = head \<and> distinct xs \<and> map b_this_page xs = tl xs @ [head]"

lemma bh_ring_head: "bh_ring nx head xs \<Longrightarrow> xs = head # tl xs"
  by (cases xs) (auto simp: bh_ring_def)

lemma bh_ring_drop:
  assumes "bh_ring nx head xs" "Suc i < length xs"
  shows "nx (xs ! i) = xs ! Suc i" "xs ! Suc i \<noteq> head"
proof -
  from assms have "map nx xs ! i = (tl xs @ [head]) ! i" by (simp add: bh_ring_def)
  moreover from assms(2) have "i < length (tl xs)" by simp
  ultimately show "nx (xs ! i) = xs ! Suc i" using assms(2) by (simp add: nth_append nth_tl)
  show "xs ! Suc i \<noteq> head"
    using assms nth_eq_iff_index_eq [of xs "Suc i" 0] by (auto simp: bh_ring_def hd_conv_nth)
qed

lemma bh_ring_last:
  assumes "bh_ring nx head xs"
  shows "nx (last xs) = head"
  using assms by (auto simp: bh_ring_def last_map [symmetric])

end
