(* ===== verification/Kernel_Log.thy ===== *)
theory Kernel_Log
  imports Kernel_Prelude
begin

text \<open>
  The kernel as the drivers see it. None of the kernel's own code is part of this repository, so
  its answers are a parameter: a world holds an arbitrary function that gives the value returned
  by the \<open>n\<close>-th fallible call, the number of calls answered so far, and the log of the calls made.
  A driver operation is a function on worlds; every theorem that does not restrict the answers
  holds for every behaviour of the kernel.

  What the documentation of an interface says about ownership is read off the log: \<open>acq\<close> and
  \<open>rel\<close> give what a call acquires and gives back, and \<open>resources\<close> is what is held after the
  whole log, or \<open>None\<close> when something was given back that was not held (a double free, an
  unregistration of something never registered).
\<close>

subsection \<open>Calls and answers\<close>

datatype res =
    Mem addr
  | Region dev_t nat
  | Cdev addr
  | Irq nat addr
  | Proc string
  | Obj string addr  \<comment> \<open>an object of another interface: its kind and its identity\<close>

text \<open>
  Calls of the interfaces that only one or two drivers use are logged by their name, with what
  they acquire (\<open>Obtain\<close>) or give back (\<open>Giveback\<close>), or with a value (\<open>Plain\<close>).
\<close>

datatype asize = Sizeof string | Bytes int

datatype kcall =
    Kzalloc asize addr
  | Kfree addr
  | Register_chrdev_region dev_t nat int
  | Alloc_chrdev_region dev_t nat int
  | Unregister_chrdev_region dev_t nat
  | Cdev_add addr dev_t nat
  | Cdev_del addr
  | Request_irq nat addr int
  | Free_irq nat addr
  | Create_proc string
  | Remove_proc string
  | Copy_to_user nat int
  | Copy_from_user nat int
  | Obtain string "res list"
  | Giveback string "res list"
  | Plain string int

record kworld =
  answers :: "nat \<Rightarrow> int"
  ncalls :: nat
  klog :: "kcall list"

definition ask :: "kworld \<Rightarrow> int" where
  "ask s = answers s (ncalls s)"

definition call :: "kcall \<Rightarrow> kworld \<Rightarrow> kworld" where
  "call c s = s\<lparr>klog := klog s @ [c]\<rparr>"

definition answered :: "kcall \<Rightarrow> kworld \<Rightarrow> kworld" where
  "answered c s = s\<lparr>ncalls := Suc (ncalls s), klog := klog s @ [c]\<rparr>"

text \<open>Which answer a call gets.\<close>

lemma answer_simps:
  "ask (answered c s) = answers s (Suc (ncalls s))" "ncalls (answered c s) = Suc (ncalls s)"
  "answers (answered c s) = answers s" "ncalls (call c s) = ncalls s" "answers (call c s) = answers s"
  "ask (call c s) = ask s"
  by (simp_all add: ask_def answered_def call_def)

subsection \<open>The interfaces the drivers call\<close>

definition kzalloc :: "asize \<Rightarrow> kworld \<Rightarrow> addr \<times> kworld" where
  [kdefs]: "kzalloc n s = (ask s, answered (Kzalloc n (ask s)) s)"

definition kfree :: "addr \<Rightarrow> kworld \<Rightarrow> kworld" where
  [kdefs]: "kfree p s = call (Kfree p) s"

definition register_chrdev_region :: "dev_t \<Rightarrow> nat \<Rightarrow> kworld \<Rightarrow> int \<times> kworld" where
  [kdefs]: "register_chrdev_region d n s = (ask s, answered (Register_chrdev_region d n (ask s)) s)"

text \<open>
  \<open>alloc_chrdev_region\<close> returns a status and stores the device number: the major number is the
  kernel's choice (a second answer), the first minor number is the one asked for.
\<close>

definition alloc_chrdev_region :: "32 word \<Rightarrow> nat \<Rightarrow> kworld \<Rightarrow> int \<times> dev_t \<times> kworld" where
  [kdefs]: "alloc_chrdev_region baseminor n s =
     (let d = MKDEV (word_of_int (answers s (Suc (ncalls s)))) baseminor
      in (ask s, d, (answered (Alloc_chrdev_region d n (ask s)) s)\<lparr>ncalls := Suc (Suc (ncalls s))\<rparr>))"

definition unregister_chrdev_region :: "dev_t \<Rightarrow> nat \<Rightarrow> kworld \<Rightarrow> kworld" where
  [kdefs]: "unregister_chrdev_region d n s = call (Unregister_chrdev_region d n) s"

text \<open>
  A \<open>cdev\<close> is named by the address of the structure it is embedded in. \<open>cdev_add\<close> and
  \<open>create_proc_read_entry\<close> are the calls that succeed. They can fail; \<open>try_cdev_add\<close> and \<open>try_create_proc\<close> also have
  the failures, for a driver whose claims are about them.
\<close>

definition cdev_add :: "addr \<Rightarrow> dev_t \<Rightarrow> nat \<Rightarrow> kworld \<Rightarrow> kworld" where
  [kdefs]: "cdev_add c d n s = call (Cdev_add c d n) s"

definition cdev_del :: "addr \<Rightarrow> kworld \<Rightarrow> kworld" where
  [kdefs]: "cdev_del c s = call (Cdev_del c) s"

definition request_irq :: "nat \<Rightarrow> addr \<Rightarrow> kworld \<Rightarrow> int \<times> kworld" where
  [kdefs]: "request_irq n cookie s = (ask s, answered (Request_irq n cookie (ask s)) s)"

definition free_irq :: "nat \<Rightarrow> addr \<Rightarrow> kworld \<Rightarrow> kworld" where
  [kdefs]: "free_irq n cookie s = call (Free_irq n cookie) s"

definition create_proc_read_entry :: "string \<Rightarrow> kworld \<Rightarrow> kworld" where
  [kdefs]: "create_proc_read_entry name s = call (Create_proc name) s"

definition remove_proc_entry :: "string \<Rightarrow> kworld \<Rightarrow> kworld" where
  [kdefs]: "remove_proc_entry name s = call (Remove_proc name) s"

text \<open>
  \<open>copy_to_user\<close> and \<open>copy_from_user\<close> return the number of bytes that could not be copied. The
  user's buffer is a function from offsets to bytes; what could not be fetched is zero filled.
\<close>

definition copy_to_user :: "byte list \<Rightarrow> kworld \<Rightarrow> int \<times> byte list \<times> kworld" where
  [kdefs]: "copy_to_user src s =
     (ask s, take (length src - nat (ask s)) src, answered (Copy_to_user (length src) (ask s)) s)"

definition copy_from_user :: "(nat \<Rightarrow> byte) \<Rightarrow> nat \<Rightarrow> kworld \<Rightarrow> int \<times> byte list \<times> kworld" where
  [kdefs]: "copy_from_user ubuf n s =
     (let k = min n (nat (ask s)) in
      (ask s, map ubuf [0..<n - k] @ replicate k 0, answered (Copy_from_user n (ask s)) s))"

lemma copy_to_user_cases:
  obtains out s' where "copy_to_user src s = (ask s, out, s')" "ask s = 0 \<Longrightarrow> out = src"
    "\<exists>k. out = take k src"
  by (auto simp: copy_to_user_def)

lemma copy_from_user_cases:
  obtains data s' where "copy_from_user ubuf n s = (ask s, data, s')" "length data = n"
    "ask s = 0 \<Longrightarrow> data = map ubuf [0..<n]"
  by (auto simp: copy_from_user_def Let_def)

subsection \<open>Files and inodes\<close>

text \<open>
  The fields of \<open>struct inode\<close> and \<open>struct file\<close> that the drivers use. The \<open>cdev\<close> an inode
  refers to is named by the address of the structure it is embedded in, so that
  \<open>container_of (inode->i_cdev, struct mydev, mycdev)\<close> is \<open>i_cdev\<close> itself.
\<close>

record inode =
  i_cdev :: addr
  iminor :: nat

record kfile =
  private_data :: addr
  f_pos :: int
  fmode_read :: bool
  fmode_write :: bool
  o_nonblock :: bool

subsection \<open>Resources\<close>

text \<open>Allocating and freeing \<open>NULL\<close> is no allocation: \<open>kfree (NULL)\<close> does nothing.\<close>

definition mem_res :: "addr \<Rightarrow> res multiset" where
  "mem_res p = (if p = 0 then {#} else {#Mem p#})"

fun acq :: "kcall \<Rightarrow> res multiset" where
  "acq (Kzalloc n p) = mem_res p"
| "acq (Register_chrdev_region d n r) = (if r = 0 then {#Region d n#} else {#})"
| "acq (Alloc_chrdev_region d n r) = (if r = 0 then {#Region d n#} else {#})"
| "acq (Cdev_add c d n) = {#Cdev c#}"
| "acq (Request_irq n c r) = (if r = 0 then {#Irq n c#} else {#})"
| "acq (Create_proc name) = {#Proc name#}"
| "acq (Obtain f rs) = mset rs"
| "acq _ = {#}"

fun rel :: "kcall \<Rightarrow> res multiset" where
  "rel (Kfree p) = mem_res p"
| "rel (Unregister_chrdev_region d n) = {#Region d n#}"
| "rel (Cdev_del c) = {#Cdev c#}"
| "rel (Free_irq n c) = {#Irq n c#}"
| "rel (Remove_proc name) = {#Proc name#}"
| "rel (Giveback f rs) = mset rs"
| "rel _ = {#}"

definition kstep :: "kcall \<Rightarrow> res multiset \<Rightarrow> res multiset option" where
  "kstep c H = (if rel c \<subseteq># H then Some (H - rel c + acq c) else None)"

fun run_log :: "res multiset \<Rightarrow> kcall list \<Rightarrow> res multiset option" where
  "run_log H [] = Some H"
| "run_log H (c # cs) = kstep c H \<bind> (\<lambda>H'. run_log H' cs)"

definition resources :: "kworld \<Rightarrow> res multiset option" where
  "resources s = run_log {#} (klog s)"

lemma run_log_append: "run_log H (cs @ ds) = run_log H cs \<bind> (\<lambda>H'. run_log H' ds)"
  by (induction cs arbitrary: H) (simp_all add: bind_assoc split: Option.bind_splits)

lemma resources_call [ksimps]: "resources (call c s) = resources s \<bind> kstep c"
  by (simp add: resources_def call_def run_log_append)

lemma resources_answered [ksimps]: "resources (answered c s) = resources s \<bind> kstep c"
  by (simp add: resources_def answered_def run_log_append)

lemma resources_ncalls [ksimps]: "resources (s\<lparr>ncalls := n\<rparr>) = resources s"
  by (simp add: resources_def)

lemma mem_res_0 [simp]: "mem_res 0 = {#}"
  by (simp add: mem_res_def)

text \<open>A call that only acquires, and a call that gives back something held.\<close>

lemma kstep_acq [ksimps]: "rel c = {#} \<Longrightarrow> kstep c H = Some (H + acq c)"
  by (simp add: kstep_def)

lemma kstep_rel: "acq c = {#} \<Longrightarrow> rel c \<subseteq># H \<Longrightarrow> kstep c H = Some (H - rel c)"
  by (simp add: kstep_def)

lemma kstep_kfree [ksimps]: "mem_res p \<subseteq># H \<Longrightarrow> kstep (Kfree p) H = Some (H - mem_res p)"
  by (simp add: kstep_rel)

lemma kstep_unregister [ksimps]:
  "Region d n \<in># H \<Longrightarrow> kstep (Unregister_chrdev_region d n) H = Some (H - {#Region d n#})"
  by (simp add: kstep_rel)

lemma kstep_cdev_del [ksimps]: "Cdev c \<in># H \<Longrightarrow> kstep (Cdev_del c) H = Some (H - {#Cdev c#})"
  by (simp add: kstep_rel)

lemma kstep_free_irq [ksimps]: "Irq n c \<in># H \<Longrightarrow> kstep (Free_irq n c) H = Some (H - {#Irq n c#})"
  by (simp add: kstep_rel)

lemma kstep_remove_proc [ksimps]:
  "Proc n \<in># H \<Longrightarrow> kstep (Remove_proc n) H = Some (H - {#Proc n#})"
  by (simp add: kstep_rel)

lemma bind_kstep_Plain [ksimps]: "H \<bind> kstep (Plain f n) = H"
  by (cases H) (simp_all add: kstep_def)

lemma kstep_giveback [ksimps]:
  "mset rs \<subseteq># H \<Longrightarrow> kstep (Giveback f rs) H = Some (H - mset rs)"
  by (simp add: kstep_rel)

text \<open>
  Objects of a kind are given by their address; there is nothing at \<open>NULL\<close>. An allocator of such
  objects, a destructor that ignores \<open>NULL\<close>, and a call that only returns a status.
\<close>

definition objs :: "string \<Rightarrow> addr \<Rightarrow> res list" where
  "objs kind p = (if p = 0 then [] else [Obj kind p])"

lemma objs_0 [simp]: "objs kind 0 = []"
  by (simp add: objs_def)

lemma objs_nonzero: "p \<noteq> 0 \<Longrightarrow> objs kind p = [Obj kind p]"
  by (simp add: objs_def)

definition obtain_obj :: "string \<Rightarrow> string \<Rightarrow> kworld \<Rightarrow> addr \<times> kworld" where
  [kdefs]: "obtain_obj f kind s = (ask s, answered (Obtain f (objs kind (ask s))) s)"

definition giveback_obj :: "string \<Rightarrow> string \<Rightarrow> addr \<Rightarrow> kworld \<Rightarrow> kworld" where
  [kdefs]: "giveback_obj f kind p s = call (Giveback f (objs kind p)) s"

definition status_call :: "string \<Rightarrow> kworld \<Rightarrow> int \<times> kworld" where
  [kdefs]: "status_call f s = (ask s, answered (Plain f (ask s)) s)"

text \<open>A call that acquires the object \<open>p\<close> when its status is zero.\<close>

definition obtain_if_ok :: "string \<Rightarrow> string \<Rightarrow> addr \<Rightarrow> kworld \<Rightarrow> int \<times> kworld" where
  [kdefs]: "obtain_if_ok f kind p s =
     (ask s, answered (Obtain f (if ask s = 0 then [Obj kind p] else [])) s)"

definition try_cdev_add :: "addr \<Rightarrow> dev_t \<Rightarrow> nat \<Rightarrow> kworld \<Rightarrow> int \<times> kworld" where
  [kdefs]: "try_cdev_add c d n s = (ask s, answered (Obtain ''cdev_add'' (if ask s = 0 then [Cdev c] else [])) s)"

definition try_create_proc :: "string \<Rightarrow> kworld \<Rightarrow> addr \<times> kworld" where
  [kdefs]: "try_create_proc name s =
     (ask s, answered (Obtain ''create_proc_read_entry'' (if ask s = 0 then [] else [Proc name])) s)"

lemmas kernel_simps = kdefs ksimps

end
