(* ===== verification/Interfaces.thy ===== *)
theory Interfaces
  imports Kernel_Log
begin

text \<open>
  The contracts that several drivers of the repository share, as locales. A driver's theory
  interprets the locale on its own operations, which discharges the laws for the modelled code;
  what follows from the laws alone is proved here once.

  \<^item> \<open>module_lifecycle\<close>: \<open>module_init\<close> undoes everything it did when it fails, and
    \<open>module_exit\<close> gives back exactly what a successful \<open>module_init\<close> acquired.
  \<^item> \<open>seek_reader\<close>: a read method that delivers the bytes of a device from a file position.
  \<^item> \<open>byte_fifo\<close>: a device whose readers get the bytes of its writers, in order, each once.
\<close>

subsection \<open>Loading and unloading a module\<close>

text \<open>
  Loading and unloading again and again, each time with fresh module globals (a module's static
  data does not survive its removal). A load that fails is not unloaded.
\<close>

fun reload :: "('g \<Rightarrow> kworld \<Rightarrow> int \<times> 'g \<times> kworld) \<Rightarrow> ('g \<Rightarrow> kworld \<Rightarrow> kworld) \<Rightarrow>
    'g list \<Rightarrow> kworld \<Rightarrow> kworld" where
  "reload init exit [] s = s"
| "reload init exit (g # gs) s =
     (case init g s of (r, g', s') \<Rightarrow>
        reload init exit gs (if r = 0 then exit g' s' else s'))"

locale module_lifecycle =
  fixes init :: "'g \<Rightarrow> kworld \<Rightarrow> int \<times> 'g \<times> kworld"
    and exit :: "'g \<Rightarrow> kworld \<Rightarrow> kworld"
    and owns :: "'g \<Rightarrow> res multiset"
  assumes init_fail: "resources s = Some H \<Longrightarrow> init g s = (r, g', s') \<Longrightarrow> r \<noteq> 0 \<Longrightarrow>
      resources s' = Some H"
    and init_ok: "resources s = Some H \<Longrightarrow> init g s = (r, g', s') \<Longrightarrow> r = 0 \<Longrightarrow>
      resources s' = Some (H + owns g')"
    and exit_ok: "resources s = Some (H + owns g) \<Longrightarrow> resources (exit g s) = Some H"
begin

lemma load_unload:
  assumes "resources s = Some H" "init g s = (r, g', s')"
  shows "resources (if r = 0 then exit g' s' else s') = Some H"
  using assms by (auto intro: exit_ok init_ok init_fail)

lemma reload_no_leak: "resources s = Some H \<Longrightarrow> resources (reload init exit gs s) = Some H"
proof (induction gs arbitrary: s)
  case (Cons g gs)
  obtain r g' s' where i: "init g s = (r, g', s')" by (cases "init g s") auto
  show ?case using load_unload [OF Cons.prems i] by (simp add: i Cons.IH)
qed simp

end

text \<open>
  The same contract for a module whose \<open>init\<close> or \<open>exit\<close> may dereference \<open>NULL\<close>, which is \<open>None\<close>:
  whenever \<open>init\<close> returns, it has undone a failure and \<open>exit\<close> is defined after a success.
\<close>

fun reload_opt :: "('g \<Rightarrow> kworld \<Rightarrow> (int \<times> 'g \<times> kworld) option) \<Rightarrow> ('g \<Rightarrow> kworld \<Rightarrow> kworld option) \<Rightarrow>
    'g list \<Rightarrow> kworld \<Rightarrow> kworld option" where
  "reload_opt init exit [] s = Some s"
| "reload_opt init exit (g # gs) s = do {
     (r, g', s') \<leftarrow> init g s;
     s'' \<leftarrow> (if r = 0 then exit g' s' else Some s');
     reload_opt init exit gs s''
   }"

locale partial_lifecycle =
  fixes init :: "'g \<Rightarrow> kworld \<Rightarrow> (int \<times> 'g \<times> kworld) option"
    and exit :: "'g \<Rightarrow> kworld \<Rightarrow> kworld option"
    and owns :: "'g \<Rightarrow> res multiset"
    and ready :: "'g \<Rightarrow> bool"
  assumes init_fail: "resources s = Some H \<Longrightarrow> init g s = Some (r, g', s') \<Longrightarrow> r \<noteq> 0 \<Longrightarrow>
      resources s' = Some H"
    and init_ok: "resources s = Some H \<Longrightarrow> init g s = Some (r, g', s') \<Longrightarrow> r = 0 \<Longrightarrow>
      ready g' \<and> resources s' = Some (H + owns g')"
    and exit_ok: "ready g \<Longrightarrow> resources s = Some (H + owns g) \<Longrightarrow>
      \<exists>s'. exit g s = Some s' \<and> resources s' = Some H"
begin

lemma reload_opt_no_leak:
  "resources s = Some H \<Longrightarrow> reload_opt init exit gs s = Some s' \<Longrightarrow> resources s' = Some H"
proof (induction gs arbitrary: s)
  case (Cons g gs)
  from Cons.prems(2) obtain r g1 s1 where i: "init g s = Some (r, g1, s1)"
    by (auto split: Option.bind_splits)
  show ?case
  proof (cases "r = 0")
    case True
    from init_ok [OF Cons.prems(1) i True] exit_ok [of g1 s1 H] obtain s2
      where "exit g1 s1 = Some s2" "resources s2 = Some H" by auto
    with Cons True i show ?thesis by auto
  next
    case False
    with Cons init_fail [OF Cons.prems(1) i False] i show ?thesis by auto
  qed
qed simp

text \<open>The module is never stopped by its own \<open>exit\<close>: only an \<open>init\<close> that does not return stops it.\<close>

lemma reload_opt_defined:
  assumes "\<And>g s. init g s \<noteq> None" "resources s = Some H"
  shows "reload_opt init exit gs s \<noteq> None"
  using assms(2)
proof (induction gs arbitrary: s)
  case (Cons g gs)
  obtain r g1 s1 where i: "init g s = Some (r, g1, s1)" using assms(1) [of g s] by auto
  show ?case
  proof (cases "r = 0")
    case True
    from init_ok [OF Cons.prems(1) i True] exit_ok [of g1 s1 H] obtain s2
      where "exit g1 s1 = Some s2" "resources s2 = Some H" by auto
    with Cons.IH [of s2] True i show ?thesis by simp
  next
    case False
    with Cons.IH [OF init_fail [OF Cons.prems(1) i False]] i show ?thesis by simp
  qed
qed simp

end

sublocale module_lifecycle \<subseteq> partial: partial_lifecycle "\<lambda>g s. Some (init g s)" "\<lambda>g s. Some (exit g s)"
  owns "\<lambda>_. True"
  by unfold_locales (auto intro: init_fail init_ok exit_ok)

subsection \<open>Reading a device from a position\<close>

text \<open>
  A read method takes the device, the requested length, the file position and the world, and
  returns the return value, the new position, the bytes that reached the user's buffer and the
  new world; \<open>None\<close> is an access outside the device's memory.
\<close>

type_synonym 'd reader = "'d \<Rightarrow> int \<Rightarrow> int \<Rightarrow> kworld \<Rightarrow> (int \<times> int \<times> byte list \<times> kworld) option"

text \<open>
  A process that reads with the given request sizes, one call after the other; it keeps the bytes
  of the calls that did not return an error.
\<close>

fun read_seq :: "'d reader \<Rightarrow> 'd \<Rightarrow> int list \<Rightarrow> int \<Rightarrow> kworld \<Rightarrow>
    (byte list \<times> int \<times> kworld) option" where
  "read_seq rd d [] pos s = Some ([], pos, s)"
| "read_seq rd d (c # cs) pos s = do {
     (r, pos', out, s') \<leftarrow> rd d c pos s;
     (rest, pos'', s'') \<leftarrow> read_seq rd d cs pos' s';
     Some ((if r < 0 then [] else out) @ rest, pos'', s'')
   }"

locale seek_reader =
  fixes rd :: "'d reader"
    and content :: "'d \<Rightarrow> byte list"
    and inv :: "'d \<Rightarrow> bool"
  assumes rd_defined: "inv d \<Longrightarrow> 0 \<le> c \<Longrightarrow> 0 \<le> pos \<Longrightarrow> pos \<le> int (length (content d)) \<Longrightarrow>
      rd d c pos s \<noteq> None"
    and rd_ok: "inv d \<Longrightarrow> 0 \<le> c \<Longrightarrow> 0 \<le> pos \<Longrightarrow> pos \<le> int (length (content d)) \<Longrightarrow>
      rd d c pos s = Some (r, pos', out, s') \<Longrightarrow> 0 \<le> r \<Longrightarrow>
      r = min c (int (length (content d)) - pos) \<and> pos' = pos + r \<and>
      out = take (nat r) (drop (nat pos) (content d))"
    and rd_err: "inv d \<Longrightarrow> 0 \<le> c \<Longrightarrow> 0 \<le> pos \<Longrightarrow> pos \<le> int (length (content d)) \<Longrightarrow>
      rd d c pos s = Some (r, pos', out, s') \<Longrightarrow> r < 0 \<Longrightarrow> pos' = pos"
begin

text \<open>
  Whatever the request sizes and whatever calls fail in between, the process gets a contiguous
  stretch of the content, and the position tells how much.
\<close>

lemma read_seq_contiguous:
  assumes "inv d" "0 \<le> pos" "pos \<le> int (length (content d))" "\<forall>c\<in>set cs. 0 \<le> c"
  shows "\<exists>out pos' s'. read_seq rd d cs pos s = Some (out, pos', s') \<and> pos \<le> pos' \<and>
    pos' \<le> int (length (content d)) \<and> out = take (nat (pos' - pos)) (drop (nat pos) (content d))"
  using assms
proof (induction cs arbitrary: pos s)
  case (Cons c cs)
  then have c: "0 \<le> c" and cs: "\<forall>c\<in>set cs. 0 \<le> c" by auto
  obtain r p1 o1 s1 where rd: "rd d c pos s = Some (r, p1, o1, s1)"
    using rd_defined [OF Cons.prems(1) c Cons.prems(2,3), of s] by (cases "rd d c pos s") auto
  note rd_laws = rd_ok [OF Cons.prems(1) c Cons.prems(2,3) rd]
    rd_err [OF Cons.prems(1) c Cons.prems(2,3) rd]
  have p1: "pos \<le> p1" "p1 \<le> int (length (content d))"
    using rd_laws Cons.prems c by (cases "0 \<le> r"; force)+
  have o1: "(if r < 0 then [] else o1) = take (nat (p1 - pos)) (drop (nat pos) (content d))"
    using rd_laws by (cases "0 \<le> r") auto
  from Cons.prems p1 have "0 \<le> p1" by simp
  from Cons.IH [OF Cons.prems(1) this p1(2) cs, of s1]
  obtain out p2 s2 where rest: "read_seq rd d cs p1 s1 = Some (out, p2, s2)" "p1 \<le> p2"
      "p2 \<le> int (length (content d))" "out = take (nat (p2 - p1)) (drop (nat p1) (content d))"
    by auto
  have "nat (p2 - pos) = nat (p1 - pos) + nat (p2 - p1)" "nat p1 = nat pos + nat (p1 - pos)"
    using p1 rest(2) Cons.prems(2) by auto
  then show ?case
    using rd rest p1 by (simp add: o1 take_take_drop)
qed simp

text \<open>A call that asks for something and gets nothing is at the end.\<close>

lemma eof_only_at_end:
  assumes "inv d" "0 < c" "0 \<le> pos" "pos \<le> int (length (content d))"
    and "rd d c pos s = Some (0, pos', out, s')"
  shows "pos = int (length (content d))"
  using rd_ok [OF assms(1) _ assms(3,4,5)] assms(2,4) by auto

end

text \<open>
  A reader that also handles positions beyond the end: there it delivers nothing. Then no request
  of a non-negative length, wherever the position is, has an undefined result.
\<close>

locale total_reader = seek_reader +
  assumes rd_beyond: "inv d \<Longrightarrow> 0 \<le> c \<Longrightarrow> int (length (content d)) < pos \<Longrightarrow>
      rd d c pos s = Some (0, pos, [], s)"
begin

lemma read_seq_total:
  assumes "inv d" "0 \<le> pos" "\<forall>c\<in>set cs. 0 \<le> c"
  shows "\<exists>out pos' s'. read_seq rd d cs pos s = Some (out, pos', s') \<and> pos \<le> pos' \<and>
    out = take (nat (pos' - pos)) (drop (nat pos) (content d))"
proof (cases "pos \<le> int (length (content d))")
  case True
  from read_seq_contiguous [OF assms(1,2) True assms(3), of s] show ?thesis by auto
next
  case False
  have "read_seq rd d cs pos s = Some ([], pos, s)"
    using assms(3) False by (induction cs) (auto simp: rd_beyond [OF assms(1)])
  then show ?thesis by simp
qed

end

subsection \<open>Streams between writers and readers\<close>

datatype fop = Put "byte list" | Get nat

text \<open>Running operations on a device: what was accepted and what was delivered, in order.\<close>

fun fifo_run :: "(byte list \<Rightarrow> 'd \<Rightarrow> nat \<times> 'd) \<Rightarrow> (nat \<Rightarrow> 'd \<Rightarrow> byte list \<times> 'd) \<Rightarrow>
    fop list \<Rightarrow> 'd \<Rightarrow> byte list \<times> byte list \<times> 'd" where
  "fifo_run put get [] d = ([], [], d)"
| "fifo_run put get (Put xs # ops) d =
     (case put xs d of (k, d') \<Rightarrow>
      case fifo_run put get ops d' of (ins, outs, d'') \<Rightarrow> (take k xs @ ins, outs, d''))"
| "fifo_run put get (Get n # ops) d =
     (case get n d of (ys, d') \<Rightarrow>
      case fifo_run put get ops d' of (ins, outs, d'') \<Rightarrow> (ins, ys @ outs, d''))"

locale byte_fifo =
  fixes put :: "byte list \<Rightarrow> 'd \<Rightarrow> nat \<times> 'd"
    and get :: "nat \<Rightarrow> 'd \<Rightarrow> byte list \<times> 'd"
    and contents :: "'d \<Rightarrow> byte list"
    and inv :: "'d \<Rightarrow> bool"
  assumes put_inv: "inv d \<Longrightarrow> put xs d = (k, d') \<Longrightarrow> inv d'"
    and put_contents: "inv d \<Longrightarrow> put xs d = (k, d') \<Longrightarrow> contents d' = contents d @ take k xs"
    and get_inv: "inv d \<Longrightarrow> get n d = (ys, d') \<Longrightarrow> inv d'"
    and get_contents: "inv d \<Longrightarrow> get n d = (ys, d') \<Longrightarrow> contents d = ys @ contents d'"
begin

lemma fifo_run_step:
  "inv d \<Longrightarrow> fifo_run put get ops d = (ins, outs, d') \<Longrightarrow>
   inv d' \<and> contents d @ ins = outs @ contents d'"
proof (induction ops arbitrary: d ins outs)
  case (Cons op ops)
  show ?case
  proof (cases op)
    case (Put xs)
    obtain k d1 where p: "put xs d = (k, d1)" by fastforce
    obtain i1 o1 d2 where r: "fifo_run put get ops d1 = (i1, o1, d2)"
      by (cases "fifo_run put get ops d1") auto
    from Cons.prems(2) have "d2 = d'" by (simp add: Put p r)
    with Cons.IH [of d1 i1 o1] Cons.prems r show ?thesis
      using put_inv [OF Cons.prems(1) p] put_contents [OF Cons.prems(1) p] by (auto simp: Put p)
  next
    case (Get n)
    obtain ys d1 where p: "get n d = (ys, d1)" by fastforce
    obtain i1 o1 d2 where r: "fifo_run put get ops d1 = (i1, o1, d2)"
      by (cases "fifo_run put get ops d1") auto
    from Cons.prems(2) have "d2 = d'" by (simp add: Get p r)
    with Cons.IH [of d1 i1 o1] Cons.prems r show ?thesis
      using get_inv [OF Cons.prems(1) p] get_contents [OF Cons.prems(1) p] by (auto simp: Get p)
  qed
qed simp

lemmas fifo_run_inv = fifo_run_step [THEN conjunct1]
lemmas fifo_run_stream = fifo_run_step [THEN conjunct2]

end

end
