(* ===== verification/Mychar.thy ===== *)
theory Mychar
  imports Interfaces
begin

text \<open>
  The memory device of \<open>src/char/mychar.c\<close>: a buffer of 100 bytes with a write pointer.
  \<open>write\<close> appends at the write pointer, \<open>read\<close> delivers from the file position up to the write
  pointer. The structure a file's \<open>private_data\<close> points to is passed to the methods. The methods
  are defined on extensions of the structure, for the driver that adds a field to it.
\<close>

subsection \<open>Data\<close>

abbreviation (input) BUF_LEN :: int where "BUF_LEN \<equiv> 100"

record mydev =
  d_start :: addr
  d_end :: addr
  d_wp :: addr
  d_mem :: "byte list"  \<comment> \<open>the bytes of the buffer at \<open>d_start\<close>\<close>

record globals =
  major :: "32 word"
  dev :: addr
  the_dev :: mydev  \<comment> \<open>the structure \<open>dev\<close> points to\<close>

subsection \<open>File operations\<close>

definition my_open :: "inode \<Rightarrow> kfile \<Rightarrow> int \<times> kfile" where
  "my_open inode filp = (0, filp\<lparr>private_data := i_cdev inode\<rparr>)"

definition my_release :: "inode \<Rightarrow> kfile \<Rightarrow> int \<times> kfile" where
  "my_release inode filp = (0, filp)"

definition my_read :: "'a mydev_scheme reader" where
  "my_read priv cnt pos s =
     (let cnt = min cnt (size_t (d_wp priv - d_start priv - pos)) in
      if cnt = 0 then Some (cnt, pos, [], s)
      else do {
        src \<leftarrow> load (d_start priv) (d_mem priv) (d_start priv + pos) cnt;
        let (r, out, s) = copy_to_user src s in
        if r \<noteq> 0 then Some (- EFAULT, pos, out, s)
        else Some (cnt, pos + cnt, out, s)
      })"

definition my_write :: "'a mydev_scheme \<Rightarrow> (nat \<Rightarrow> byte) \<Rightarrow> int \<Rightarrow> kworld \<Rightarrow>
    (int \<times> 'a mydev_scheme \<times> kworld) option" where
  "my_write priv buf cnt s =
     (let cnt = min cnt (size_t (d_end priv - d_wp priv)) in
      if cnt = 0 then Some (cnt, priv, s)
      else let (r, data, s) = copy_from_user buf (nat cnt) s in do {
        mem \<leftarrow> store (d_start priv) (d_mem priv) (d_wp priv) data;
        let priv = priv\<lparr>d_mem := mem\<rparr> in
        if r \<noteq> 0 then Some (- EFAULT, priv, s)
        else Some (cnt, priv\<lparr>d_wp := d_wp priv + cnt\<rparr>, s)
      })"

subsection \<open>Module initialisation and removal\<close>

definition my_init :: "globals \<Rightarrow> kworld \<Rightarrow> int \<times> globals \<times> kworld" where
  "my_init g s =
     (let (p, s) = kzalloc (Sizeof ''mydev'') s; g = g\<lparr>dev := p\<rparr> in
      if p = 0 then (- ENOMEM, g, s)
      else let (b, s) = kzalloc (Bytes BUF_LEN) s in
      if b = 0 then (- ENOMEM, g, kfree p s)
      else let
        g = g\<lparr>the_dev := \<lparr>d_start = b, d_end = b + BUF_LEN, d_wp = b,
              d_mem = replicate (nat BUF_LEN) 0\<rparr>\<rparr>;
        (ret, dev_num, g, s) =
          (if major g \<noteq> 0 then
             let dev_num = MKDEV (major g) 0; (ret, s) = register_chrdev_region dev_num 20 s
             in (ret, dev_num, g, s)
           else
             let (ret, dev_num, s) = alloc_chrdev_region 0 20 s
             in (ret, dev_num, g\<lparr>major := MAJOR dev_num\<rparr>, s))
      in if ret \<noteq> 0 then (- 1, g, kfree p (kfree b s))
      else (0, g, cdev_add p dev_num 1 s))"

definition my_exit :: "globals \<Rightarrow> kworld \<Rightarrow> kworld" where
  "my_exit g s =
     (let dev_num = MKDEV (major g) 0;
        s = cdev_del (dev g) s;
        s = unregister_chrdev_region dev_num 20 s;
        s = kfree (d_start (the_dev g)) s
      in kfree (dev g) s)"

subsection \<open>Invariant and contents\<close>

text \<open>
  The buffer is an object of the address space that ends below the sign bit, and the write
  pointer stays inside it.
\<close>

definition dev_inv :: "'a mydev_scheme \<Rightarrow> bool" where
  "dev_inv d \<longleftrightarrow> d_start d \<le> d_wp d \<and> d_wp d \<le> d_end d \<and>
     d_end d = d_start d + int (length (d_mem d)) \<and> int (length (d_mem d)) < 2 ^ 63"

definition written :: "'a mydev_scheme \<Rightarrow> byte list" where
  "written d = take (nat (d_wp d - d_start d)) (d_mem d)"

lemma length_written: "dev_inv d \<Longrightarrow> int (length (written d)) = d_wp d - d_start d"
  by (auto simp: dev_inv_def written_def)

text \<open>Every write of a non-negative length is defined and appends exactly what it reports.\<close>

lemma my_write_step:
  assumes inv: "dev_inv d" and cnt: "0 \<le> cnt"
  obtains r d' s' where "my_write d buf cnt s = Some (r, d', s')" "dev_inv d'"
    "mydev.more d' = mydev.more d" "d_start d' = d_start d" "d_end d' = d_end d"
    "r < 0 \<Longrightarrow> r = - EFAULT \<and> written d' = written d"
    "0 \<le> r \<Longrightarrow> r = min cnt (d_end d - d_wp d) \<and> written d' = written d @ map buf [0..<nat r]"
proof -
  define n where "n = min cnt (d_end d - d_wp d)"
  have sz: "size_t (d_end d - d_wp d) = d_end d - d_wp d"
    using inv by (intro size_t_id) (auto simp: dev_inv_def)
  have n: "0 \<le> n" "d_wp d + n \<le> d_end d" using inv cnt by (auto simp: n_def dev_inv_def)
  obtain data s1 where cp: "copy_from_user buf (nat n) s = (ask s, data, s1)" "length data = nat n"
    "ask s = 0 \<Longrightarrow> data = map buf [0..<nat n]" by (rule copy_from_user_cases [of buf "nat n" s]) blast
  have "d_start d \<le> d_wp d" "d_wp d + int (length data) \<le> d_start d + int (length (d_mem d))"
    using inv n cp by (auto simp: dev_inv_def)
  from append_store [OF this] obtain mem where
    st: "store (d_start d) (d_mem d) (d_wp d) data = Some mem" "length mem = length (d_mem d)"
      "take (nat (d_wp d - d_start d)) mem = written d"
      "take (nat (d_wp d + n - d_start d)) mem = written d @ data"
    using n cp by (auto simp: written_def)
  show thesis
  proof (cases "n = 0")
    case True
    then have "my_write d buf cnt s = Some (0, d, s)"
      by (simp add: my_write_def sz n_def [symmetric])
    then show thesis by (rule that) (use inv True n_def in auto)
  next
    case False
    let ?d = "d\<lparr>d_mem := mem\<rparr>"
    have "my_write d buf cnt s = Some (if ask s \<noteq> 0 then (- EFAULT, ?d, s1)
        else (n, ?d\<lparr>d_wp := d_wp d + n\<rparr>, s1))"
      using False by (simp add: my_write_def Let_def sz n_def [symmetric] cp st)
    then show thesis
      by (cases "ask s = 0"; simp; elim that) (use inv n cp st in \<open>auto simp: dev_inv_def written_def n_def\<close>)
  qed
qed

text \<open>A read at a position up to the write pointer, on every branch.\<close>

lemma my_read_step:
  assumes inv: "dev_inv d" and "0 \<le> cnt" "0 \<le> pos" "pos \<le> int (length (written d))"
  obtains r pos' out s' where "my_read d cnt pos s = Some (r, pos', out, s')"
    "r < 0 \<Longrightarrow> r = - EFAULT \<and> pos' = pos"
    "0 \<le> r \<Longrightarrow> r = min cnt (int (length (written d)) - pos) \<and> pos' = pos + r \<and>
       out = take (nat r) (drop (nat pos) (written d))"
proof -
  define n where "n = min cnt (d_wp d - d_start d - pos)"
  note len = length_written [OF inv]
  have sz: "size_t (d_wp d - d_start d - pos) = d_wp d - d_start d - pos"
    using inv assms(3,4) len by (intro size_t_id) (auto simp: dev_inv_def)
  have n: "0 \<le> n" "pos + n \<le> d_wp d - d_start d" using assms len by (auto simp: n_def)
  have ld: "load (d_start d) (d_mem d) (d_start d + pos) n = Some (take (nat n) (drop (nat pos) (d_mem d)))"
    using inv n assms(3) by (subst load_eq_Some) (auto simp: dev_inv_def)
  have src: "take (nat n) (drop (nat pos) (d_mem d)) = take (nat n) (drop (nat pos) (written d))"
    using n assms(3) by (simp add: written_def drop_take min_def)
  obtain out s1 where cp: "copy_to_user (take (nat n) (drop (nat pos) (d_mem d))) s = (ask s, out, s1)"
    "ask s = 0 \<Longrightarrow> out = take (nat n) (drop (nat pos) (written d))"
    unfolding src by (rule copy_to_user_cases) blast
  show thesis
  proof (cases "n = 0")
    case True
    then have "my_read d cnt pos s = Some (0, pos, [], s)"
      by (simp add: my_read_def sz n_def [symmetric])
    then show thesis by (rule that) (use True n_def len in auto)
  next
    case False
    have "my_read d cnt pos s = Some (if ask s \<noteq> 0 then (- EFAULT, pos, out, s1)
        else (n, pos + n, out, s1))"
      using False by (simp add: my_read_def Let_def sz n_def [symmetric] ld cp)
    then show thesis
      by (cases "ask s = 0"; simp; elim that) (use n cp len in \<open>auto simp: n_def\<close>)
  qed
qed

interpretation mychar_rd: seek_reader my_read written dev_inv
proof (unfold_locales, goal_cases)
  case (1 d c pos s)
  then show ?case by (rule my_read_step [of d c pos s]) simp
next
  case (2 d c pos s r pos' out s')
  from 2(1-4) show ?case by (rule my_read_step [of d c pos s]) (use 2(5,6) in auto)
next
  case (3 d c pos s r pos' out s')
  from 3(1-4) show ?case by (rule my_read_step [of d c pos s]) (use 3(5,6) in auto)
qed

subsection \<open>Resources\<close>

definition owns :: "globals \<Rightarrow> res multiset" where
  "owns g = mem_res (dev g) + mem_res (d_start (the_dev g)) +
     {#Region (MKDEV (major g) 0) 20, Cdev (dev g)#}"

interpretation mychar_mod: module_lifecycle my_init my_exit owns
proof
  fix s H g r g' s'
  assume "resources s = Some H" "my_init g s = (r, g', s')" "r \<noteq> 0"
  then show "resources s' = Some H"
    by (auto simp: my_init_def Let_def kernel_simps split: if_splits)
next
  fix s H g r g' s'
  assume "resources s = Some H" "my_init g s = (r, g', s')" "r = 0"
  then show "resources s' = Some (H + owns g')"
    by (auto simp: my_init_def Let_def kernel_simps owns_def split: if_splits)
next
  fix s H g
  assume "resources s = Some (H + owns g)"
  then show "resources (my_exit g s) = Some H"
    by (auto simp: my_exit_def Let_def kernel_simps owns_def)
qed

subsection \<open>Properties\<close>

text \<open>
  C9: A process that reads the device from the start with any request sizes, some of its calls
  failing with \<open>-EFAULT\<close>, never makes the driver leave its buffer and gets a prefix of the bytes
  written so far, without gaps or repetitions; the file position is the length of that prefix.
\<close>

theorem mychar_read_stream:
  assumes "dev_inv d" "\<forall>c\<in>set cs. 0 \<le> c"
  shows "\<exists>out pos s'. read_seq my_read d cs 0 s = Some (out, pos, s') \<and>
    out = take (nat pos) (written d) \<and> 0 \<le> pos \<and> pos \<le> int (length (written d))"
  using mychar_rd.read_seq_contiguous [OF assms(1) _ _ assms(2), of 0 s] by auto

definition sample_dev :: mydev where
  "sample_dev = \<lparr>d_start = 4096, d_end = 4196, d_wp = 4099, d_mem = [1, 2, 3] @ replicate 97 0\<rparr>"

lemma sample_dev_inv: "dev_inv sample_dev"
  by (simp add: dev_inv_def sample_dev_def)

theorem mychar_read_stream_witness:
  "\<exists>out pos s'. read_seq my_read sample_dev [2, 5, 1] 0 \<lparr>answers = (\<lambda>n. if n = 1 then 1 else 0), ncalls = 0, klog = []\<rparr>
     = Some (out, pos, s') \<and> out = take (nat pos) (written sample_dev)"
  using mychar_read_stream [OF sample_dev_inv, of "[2, 5, 1]"] by fastforce

text \<open>
  A write stays inside the buffer and appends exactly as many bytes as it reports, which is the
  request cut to the room left; a failed copy reports \<open>-EFAULT\<close> and appends nothing.
\<close>

lemma mychar_write_appends:
  assumes "dev_inv d" "0 \<le> cnt"
  shows "\<exists>r d' s'. my_write d buf cnt s = Some (r, d', s') \<and> dev_inv d' \<and>
    d_start d' = d_start d \<and> d_end d' = d_end d \<and>
    (if r < 0 then r = - EFAULT \<and> written d' = written d
     else r = min cnt (d_end d - d_wp d) \<and> written d' = written d @ map buf [0..<nat r])"
  by (rule my_write_step [OF assms, of buf s]) auto

text \<open>
  C10: A read whose position is beyond the write pointer is not refused. The difference
  \<open>wp - start - *pos\<close> is negative, its conversion to \<open>size_t\<close> wraps to a huge number and the request
  is not cut: bytes of the buffer that were never written are delivered, and a request that reaches
  past the end of the buffer leaves the object.
\<close>

theorem mychar_read_past_end:
  assumes "dev_inv d" "int (length (written d)) < pos" "pos < 2 ^ 62" "0 < cnt" "cnt < 2 ^ 63"
  shows "if pos + cnt \<le> int (length (d_mem d))
    then ask s = 0 \<longrightarrow> (\<exists>s'. my_read d cnt pos s =
      Some (cnt, pos + cnt, take (nat cnt) (drop (nat pos) (d_mem d)), s'))
    else my_read d cnt pos s = None"
proof -
  let ?x = "d_wp d - d_start d - pos"
  have "size_t ?x = ?x + 2 ^ 64"
    using assms length_written [OF assms(1)] by (intro size_t_neg) auto
  then have "min cnt (size_t ?x) = cnt"
    using assms length_written [OF assms(1)] by auto
  then have r: "my_read d cnt pos s = (load (d_start d) (d_mem d) (d_start d + pos) cnt) \<bind> (\<lambda>src.
      let (r, out, s) = copy_to_user src s in
      if r \<noteq> 0 then Some (- EFAULT, pos, out, s) else Some (cnt, pos + cnt, out, s))"
    using assms(4) by (simp add: my_read_def)
  show ?thesis
    using assms(2,4) by (auto simp: r load_def copy_to_user_def)
qed

theorem mychar_read_past_end_witness:
  "my_read sample_dev 10 95 \<lparr>answers = (\<lambda>_. 0), ncalls = 0, klog = []\<rparr> = None"
  using mychar_read_past_end [OF sample_dev_inv, of 95 10]
  by (simp add: sample_dev_def written_def)

text \<open>
  Loading and removing the module any number of times, with any parameters and any failures of
  the kernel calls, leaves the resources as they were.
\<close>

lemma mychar_module_no_leak:
  assumes "resources s = Some H"
  shows "resources (reload my_init my_exit gs s) = Some H"
  using assms by (rule mychar_mod.reload_no_leak)

end
