(* ===== verification/Multi_Mem.thy ===== *)
theory Multi_Mem
  imports Mychar
begin

text \<open>
  The four memory devices of \<open>src/char/multi_mem.c\<close>: one buffer per minor number, with sizes given
  as module parameters. The structure extends the one of \<open>mychar.c\<close> by \<open>buf_size\<close>; \<open>read\<close> checks the
  position before it subtracts, \<open>llseek\<close> confines the position to the buffer, and \<open>init\<close> allocates
  the devices in a loop whose clean-up may dereference \<open>NULL\<close> (\<open>None\<close> below).
\<close>

subsection \<open>Data\<close>

abbreviation (input) DEV_NUM :: nat where "DEV_NUM \<equiv> 4"

record mydev = Mychar.mydev +
  buf_size :: int

text \<open>
  \<open>multi_devs\<close> is the array of pointers, each with the structure it points to; \<open>&multi_cdev\<close> is the
  address of the module's own \<open>cdev\<close>.
\<close>

record globals =
  major :: "32 word"
  buf_lens :: "nat \<Rightarrow> int"
  multi_devs :: "(addr \<times> mydev) list"
  multi_cdev :: addr

subsection \<open>File operations\<close>

definition my_open :: "globals \<Rightarrow> inode \<Rightarrow> kfile \<Rightarrow> (int \<times> kfile) option" where
  "my_open g inode filp =
     (if iminor inode < length (multi_devs g)
      then Some (0, filp\<lparr>private_data := fst (multi_devs g ! iminor inode)\<rparr>) else None)"

definition my_release :: "inode \<Rightarrow> kfile \<Rightarrow> int \<times> kfile" where
  "my_release inode filp = (0, filp)"

definition my_read :: "mydev reader" where
  "my_read d cnt pos s =
     (if pos \<ge> d_wp d - d_start d then Some (0, pos, [], s)
      else let cnt = min cnt (size_t (d_wp d - d_start d - pos)) in
      if cnt \<le> 0 then Some (0, pos, [], s)
      else do {
        src \<leftarrow> load (d_start d) (d_mem d) (d_start d + pos) cnt;
        let (r, out, s) = copy_to_user src s in
        if r \<noteq> 0 then Some (- EFAULT, pos, out, s)
        else Some (cnt, pos + cnt, out, s)
      })"

definition my_write :: "mydev \<Rightarrow> (nat \<Rightarrow> byte) \<Rightarrow> int \<Rightarrow> kworld \<Rightarrow> (int \<times> mydev \<times> kworld) option" where
  "my_write d buf cnt s =
     (let cnt = min cnt (size_t (d_end d - d_wp d)) in
      if 0 = cnt then Some (0, d, s)
      else let (r, data, s) = copy_from_user buf (nat cnt) s in do {
        mem \<leftarrow> store (d_start d) (d_mem d) (d_wp d) data;
        let d = d\<lparr>d_mem := mem\<rparr> in
        if r \<noteq> 0 then Some (- EFAULT, d, s)
        else Some (cnt, d\<lparr>d_wp := d_wp d + cnt\<rparr>, s)
      })"

text \<open>Additions on \<open>loff_t\<close> wrap at 64 bits; \<open>buf_size\<close> is converted from \<open>unsigned int\<close>.\<close>

definition my_llseek :: "mydev \<Rightarrow> kfile \<Rightarrow> int \<Rightarrow> int \<Rightarrow> int \<times> kfile" where
  "my_llseek d filp offset origin =
     (let offset = (if origin = 1 then loff_t (offset + f_pos filp)
                    else if origin = 2 then loff_t (offset + buf_size d) else offset) in
      if offset < 0 \<or> offset > buf_size d then (- EINVAL, filp)
      else (offset, filp\<lparr>f_pos := offset\<rparr>))"

subsection \<open>Allocating and releasing the devices\<close>

text \<open>The loop dereferences each pointer of the array: \<open>None\<close> when one of them is \<open>NULL\<close>.\<close>

definition release_mydev :: "(addr \<times> mydev) list \<Rightarrow> nat \<Rightarrow> kworld \<Rightarrow> kworld option" where
  "release_mydev devs num s =
     fold (\<lambda>i r. do {
        s \<leftarrow> r;
        if i < length devs \<and> fst (devs ! i) \<noteq> 0
        then Some (kfree (fst (devs ! i)) (kfree (d_start (snd (devs ! i))) s)) else None
      }) [0..<num] (Some s)"

definition chosen_size :: "int \<Rightarrow> int" where
  "chosen_size len = (if len \<ge> 4096 then 4096 else if len = 0 then 1024 else len)"

definition zeroed :: mydev where
  "zeroed = \<lparr>d_start = 0, d_end = 0, d_wp = 0, d_mem = [], buf_size = 0\<rparr>"

text \<open>
  The loop of \<open>setup_mydev\<close>: \<open>devs\<close> are the pointers set so far, \<open>lens\<close> the sizes still to come.
\<close>

fun setup_mydev :: "(addr \<times> mydev) list \<Rightarrow> int list \<Rightarrow> kworld \<Rightarrow>
    (int \<times> (addr \<times> mydev) list \<times> kworld) option" where
  "setup_mydev devs [] s = Some (0, devs, s)"
| "setup_mydev devs (len # lens) s =
     (let i = length devs; (p, s) = kzalloc (Sizeof ''mydev'') s in
      if p = 0 then do {
        s \<leftarrow> release_mydev (devs @ [(p, zeroed)]) (i + 1) s;
        Some (- ENOMEM, devs @ [(p, zeroed)], s)
      }
      else let size = chosen_size len; (b, s) = kzalloc (Bytes size) s in
      if b = 0 then do {
        s \<leftarrow> release_mydev (devs @ [(p, zeroed\<lparr>buf_size := size\<rparr>)]) (i + 1) s;
        Some (- ENOMEM, devs @ [(p, zeroed\<lparr>buf_size := size\<rparr>)], s)
      }
      else setup_mydev (devs @ [(p, \<lparr>d_start = b, d_end = b + size, d_wp = b,
             d_mem = replicate (nat size) 0, buf_size = size\<rparr>)]) lens s)"

definition my_init :: "globals \<Rightarrow> kworld \<Rightarrow> (int \<times> globals \<times> kworld) option" where
  "my_init g s = do {
     (ret, devs, s) \<leftarrow> setup_mydev [] (map (buf_lens g) [0..<DEV_NUM]) s;
     let g = g\<lparr>multi_devs := devs\<rparr> in
     if ret \<noteq> 0 then Some (ret, g, s)
     else let (ret, g, s) =
       (if major g \<noteq> 0 then
          let (ret, s) = register_chrdev_region (MKDEV (major g) 0) DEV_NUM s in (ret, g, s)
        else
          let (ret, dev_num, s) = alloc_chrdev_region 0 DEV_NUM s in (ret, g\<lparr>major := MAJOR dev_num\<rparr>, s))
     in if ret \<noteq> 0 then do {
       s \<leftarrow> release_mydev (multi_devs g) DEV_NUM s;
       Some (- 1, g, s)
     }
     else Some (0, g, cdev_add (multi_cdev g) (MKDEV (major g) 0) DEV_NUM s)
   }"

definition my_exit :: "globals \<Rightarrow> kworld \<Rightarrow> kworld option" where
  "my_exit g s =
     (let s = cdev_del (multi_cdev g) s;
        s = unregister_chrdev_region (MKDEV (major g) 0) DEV_NUM s
      in release_mydev (multi_devs g) DEV_NUM s)"

subsection \<open>The file operations\<close>

text \<open>Up to the write pointer the operations behave as those of \<open>mychar.c\<close>.\<close>

lemma my_write_eq: "my_write = Mychar.my_write"
  by (intro ext) (auto simp: my_write_def Mychar.my_write_def Let_def)

lemma my_read_eq:
  assumes "dev_inv d" "0 \<le> cnt" "0 \<le> pos" "pos < int (length (written d))"
  shows "my_read d cnt pos s = Mychar.my_read d cnt pos s"
  using assms length_written [OF assms(1)]
  by (auto simp: my_read_def Mychar.my_read_def Let_def min_def)

lemma my_read_end:
  "dev_inv d \<Longrightarrow> int (length (written d)) \<le> pos \<Longrightarrow> my_read d cnt pos s = Some (0, pos, [], s)"
  by (simp add: my_read_def length_written)

interpretation multi_rd: total_reader my_read written dev_inv
proof (unfold_locales, goal_cases)
  case (1 d c pos s)
  then show ?case
    using my_read_eq [OF 1(1-3)] mychar_rd.rd_defined [OF 1(1-4)] my_read_end [OF 1(1)]
    by (cases "pos < int (length (written d))") auto
next
  case (2 d c pos s r pos' out s')
  then show ?case
    using my_read_eq [OF 2(1-3)] mychar_rd.rd_ok [OF 2(1-4)] my_read_end [OF 2(1)]
    by (cases "pos < int (length (written d))") auto
next
  case (3 d c pos s r pos' out s')
  then show ?case
    using my_read_eq [OF 3(1-3)] mychar_rd.rd_err [OF 3(1-4)] my_read_end [OF 3(1)]
    by (cases "pos < int (length (written d))") auto
next
  case (4 d c pos s)
  then show ?case by (simp add: my_read_end)
qed

subsection \<open>The devices\<close>

definition owned :: "(addr \<times> mydev) list \<Rightarrow> res multiset" where
  "owned devs = sum_list (map (\<lambda>(p, d). mem_res p + mem_res (d_start d)) devs)"

definition allocated :: "(addr \<times> mydev) list \<Rightarrow> bool" where
  "allocated devs \<longleftrightarrow> (\<forall>(p, d)\<in>set devs. p \<noteq> 0)"

lemma owned_append [simp]: "owned (xs @ ys) = owned xs + owned ys"
  by (simp add: owned_def)

lemma owned_single [simp]: "owned [(p, d)] = mem_res p + mem_res (d_start d)"
  by (simp add: owned_def)

lemma owned_nil [simp]: "owned [] = {#}"
  by (simp add: owned_def)

lemma allocated_nil [simp]: "allocated []"
  by (simp add: allocated_def)

lemma allocated_append [simp]: "allocated (xs @ ys) \<longleftrightarrow> allocated xs \<and> allocated ys"
  by (auto simp: allocated_def)

lemma allocated_single [simp]: "allocated [(p, d)] \<longleftrightarrow> p \<noteq> 0"
  by (simp add: allocated_def)

lemma release_prefix:
  assumes "allocated devs" "n \<le> length devs" "resources s = Some (H + owned devs)"
  shows "\<exists>s'. release_mydev devs n s = Some s' \<and> resources s' = Some (H + owned (drop n devs))"
  using assms(2)
proof (induction n)
  case 0
  then show ?case by (simp add: release_mydev_def assms)
next
  case (Suc n)
  then obtain s1 where s1: "release_mydev devs n s = Some s1"
    "resources s1 = Some (H + owned (drop n devs))" by auto
  obtain p d where pd: "devs ! n = (p, d)" "p \<noteq> 0"
    using assms(1) Suc.prems nth_mem [of n devs] by (cases "devs ! n") (auto simp: allocated_def)
  have "drop n devs = (p, d) # drop (Suc n) devs"
    using Suc.prems pd by (metis Cons_nth_drop_Suc Suc_le_lessD)
  then have "owned (drop n devs) = mem_res p + mem_res (d_start d) + owned (drop (Suc n) devs)"
    by (simp add: owned_def)
  with s1 Suc.prems pd show ?case
    by (auto simp: release_mydev_def kernel_simps ac_simps)
qed

lemma release_all:
  "allocated devs \<Longrightarrow> resources s = Some (H + owned devs) \<Longrightarrow>
   \<exists>s'. release_mydev devs (length devs) s = Some s' \<and> resources s' = Some H"
  using release_prefix [of devs "length devs" s H] by simp

lemma release_defined: "allocated devs \<Longrightarrow> n \<le> length devs \<Longrightarrow> release_mydev devs n s \<noteq> None"
proof (induction n)
  case (Suc n)
  then have "fst (devs ! n) \<noteq> 0" by (auto simp: allocated_def split_beta)
  with Suc show ?case by (auto simp: release_mydev_def)
qed (simp add: release_mydev_def)

lemma release_null: "release_mydev (devs @ [(0, d)]) (Suc (length devs)) s = None"
  by (simp add: release_mydev_def split: Option.bind_splits)

lemma setup_resources:
  assumes "setup_mydev devs lens s = Some (r, devs', s')"
    and "allocated devs" "resources s = Some (H + owned devs)"
  shows "if r \<noteq> 0 then resources s' = Some H
    else allocated devs' \<and> length devs' = length devs + length lens \<and> resources s' = Some (H + owned devs')"
  using assms
proof (induction lens arbitrary: devs s)
  case (Cons len lens)
  let ?p = "ask s" and ?s1 = "answered (Kzalloc (Sizeof ''mydev'') (ask s)) s"
  let ?b = "ask ?s1" and ?s2 = "answered (Kzalloc (Bytes (chosen_size len)) (ask ?s1)) ?s1"
  let ?half = "devs @ [(?p, zeroed\<lparr>buf_size := chosen_size len\<rparr>)]"
  have p: "?p \<noteq> 0" using Cons.prems(1) by (auto simp: Let_def kdefs release_null split: if_splits)
  show ?case
  proof (cases "?b = 0")
    case True
    have "resources ?s2 = Some (H + owned ?half)"
      using Cons.prems(3) True by (simp add: ksimps zeroed_def)
    with release_all [of ?half ?s2 H] obtain s3 where
      "release_mydev ?half (Suc (length devs)) ?s2 = Some s3" "resources s3 = Some H"
      using Cons.prems(2) p by auto
    with Cons.prems(1) p True show ?thesis by (auto simp: Let_def kdefs)
  next
    case False
    let ?devs = "devs @ [(?p, \<lparr>d_start = ?b, d_end = ?b + chosen_size len, d_wp = ?b,
      d_mem = replicate (nat (chosen_size len)) 0, buf_size = chosen_size len\<rparr>)]"
    have "setup_mydev ?devs lens ?s2 = Some (r, devs', s')"
      using Cons.prems(1) p False by (simp add: Let_def kdefs)
    from Cons.IH [OF this] Cons.prems p show ?thesis by (simp add: ksimps ac_simps)
  qed
qed simp

lemma setup_devs:
  assumes "setup_mydev devs lens s = Some (0, devs', s')" "allocated devs"
  shows "allocated devs' \<and> length devs' = length devs + length lens"
  using assms
proof (induction lens arbitrary: devs s)
  case (Cons len lens)
  from Cons.prems(1) obtain p d s2 where "p \<noteq> 0" "setup_mydev (devs @ [(p, d)]) lens s2 = Some (0, devs', s')"
    by (auto simp: Let_def kdefs split: if_splits Option.bind_splits)
  with Cons.IH [of "devs @ [(p, d)]" s2] Cons.prems(2) show ?case by simp
qed simp

text \<open>
  The clean-up reads the pointer whose allocation just failed: \<open>setup\<close> does not return exactly when
  a structure cannot be allocated.
\<close>

lemma setup_defined:
  "allocated devs \<Longrightarrow> setup_mydev devs lens s = None \<longleftrightarrow>
   (\<exists>i<length lens. answers s (ncalls s + 2 * i) = 0 \<and> (\<forall>j<2 * i. answers s (ncalls s + j) \<noteq> 0))"
proof (induction lens arbitrary: devs s)
  case (Cons len lens)
  let ?s1 = "answered (Kzalloc (Sizeof ''mydev'') (ask s)) s"
  let ?b = "ask ?s1" and ?s2 = "answered (Kzalloc (Bytes (chosen_size len)) (ask ?s1)) ?s1"
  have b: "?b = answers s (Suc (ncalls s))" and a: "ask s = answers s (ncalls s)"
    by (simp_all add: ask_def answered_def)
  consider "ask s = 0" | "ask s \<noteq> 0" "?b = 0" | "ask s \<noteq> 0" "?b \<noteq> 0" by blast
  then show ?case
  proof cases
    case 1
    then show ?thesis by (auto simp: Let_def kdefs release_null a intro: exI [of _ 0])
  next
    case 2
    let ?half = "devs @ [(ask s, zeroed\<lparr>buf_size := chosen_size len\<rparr>)]"
    have "release_mydev ?half (Suc (length devs)) ?s2 \<noteq> None"
      using Cons.prems 2 by (simp add: release_defined)
    moreover have "\<not> (\<exists>i<length (len # lens). answers s (ncalls s + 2 * i) = 0 \<and>
        (\<forall>j<2 * i. answers s (ncalls s + j) \<noteq> 0))"
    proof
      assume "\<exists>i<length (len # lens). answers s (ncalls s + 2 * i) = 0 \<and>
        (\<forall>j<2 * i. answers s (ncalls s + j) \<noteq> 0)"
      then obtain i where "answers s (ncalls s + 2 * i) = 0" "\<forall>j<2 * i. answers s (ncalls s + j) \<noteq> 0"
        by blast
      with 2 a b show False by (cases i) (auto dest: spec [of _ 1])
    qed
    ultimately show ?thesis using 2 by (auto simp: Let_def kdefs)
  next
    case 3
    let ?devs = "devs @ [(ask s, \<lparr>d_start = ?b, d_end = ?b + chosen_size len, d_wp = ?b,
      d_mem = replicate (nat (chosen_size len)) 0, buf_size = chosen_size len\<rparr>)]"
    have "setup_mydev devs (len # lens) s = setup_mydev ?devs lens ?s2"
      using 3 by (simp add: Let_def kdefs)
    moreover have "allocated ?devs" using Cons.prems 3 by simp
    ultimately have "setup_mydev devs (len # lens) s = None \<longleftrightarrow> (\<exists>i<length lens.
        answers s (ncalls s + 2 * Suc i) = 0 \<and> (\<forall>j<2 * i. answers s (ncalls s + Suc (Suc j)) \<noteq> 0))"
      using Cons.IH [of ?devs ?s2] by (simp add: answered_def)
    also have "\<dots> \<longleftrightarrow> (\<exists>i<length (len # lens). answers s (ncalls s + 2 * i) = 0 \<and>
        (\<forall>j<2 * i. answers s (ncalls s + j) \<noteq> 0))"
      using 3 a b by (auto simp: ex_less_Suc_shift all_less_Suc2_shift)
    finally show ?thesis .
  qed
qed simp

text \<open>A device as a successful \<open>setup\<close> leaves it for the size \<open>len\<close> asked for.\<close>

definition fresh :: "int \<Rightarrow> addr \<times> mydev \<Rightarrow> bool" where
  "fresh len = (\<lambda>(p, d). p \<noteq> 0 \<and> dev_inv d \<and> written d = [] \<and>
     buf_size d = chosen_size len \<and> d_end d = d_start d + buf_size d)"

lemma setup_fresh:
  assumes "setup_mydev devs lens s = Some (0, devs', s')" "\<forall>len\<in>set lens. 0 \<le> len"
  shows "\<exists>new. devs' = devs @ new \<and> list_all2 fresh lens new"
  using assms
proof (induction lens arbitrary: devs s)
  case (Cons len lens)
  obtain p b s2 where pb: "p \<noteq> 0" "setup_mydev (devs @ [(p, \<lparr>d_start = b, d_end = b + chosen_size len,
      d_wp = b, d_mem = replicate (nat (chosen_size len)) 0, buf_size = chosen_size len\<rparr>)]) lens s2
      = Some (0, devs', s')"
    using Cons.prems(1) by (auto simp: Let_def kdefs split: if_splits Option.bind_splits)
  have "0 \<le> chosen_size len" "chosen_size len \<le> 4096"
    using Cons.prems(2) by (auto simp: chosen_size_def)
  then show ?case
    using Cons.IH [OF pb(2)] Cons.prems(2) pb(1)
    by (auto simp: fresh_def dev_inv_def written_def)
qed simp

subsection \<open>Life cycle\<close>

definition owns :: "globals \<Rightarrow> res multiset" where
  "owns g = owned (multi_devs g) + {#Region (MKDEV (major g) 0) DEV_NUM, Cdev (multi_cdev g)#}"

definition ready :: "globals \<Rightarrow> bool" where
  "ready g \<longleftrightarrow> allocated (multi_devs g) \<and> length (multi_devs g) = DEV_NUM"

lemma init_cases:
  assumes "my_init g s = Some (r, g', s')" "resources s = Some H"
  shows "if r \<noteq> 0 then resources s' = Some H else ready g' \<and> resources s' = Some (H + owns g')"
proof -
  from assms(1) obtain ret devs s1 where
    su: "setup_mydev [] (map (buf_lens g) [0..<DEV_NUM]) s = Some (ret, devs, s1)"
    by (auto simp: my_init_def split: Option.bind_splits)
  from setup_resources [OF su, of H] assms(2)
  have sr: "if ret \<noteq> 0 then resources s1 = Some H
    else allocated devs \<and> length devs = DEV_NUM \<and> resources s1 = Some (H + owned devs)"
    by simp
  have rel: "\<exists>s3. release_mydev devs DEV_NUM s2 = Some s3 \<and> resources s3 = Some H"
    if "ret = 0" "resources s2 = Some (H + owned devs)" for s2
    using release_all [of devs s2 H] sr that by simp
  show ?thesis
  proof (cases "ret = 0")
    case True
    then show ?thesis
      using assms(1) sr rel [of "snd (register_chrdev_region (MKDEV (major g) 0) DEV_NUM s1)"]
        rel [of "snd (snd (alloc_chrdev_region 0 DEV_NUM s1))"]
      by (auto simp: my_init_def su Let_def kernel_simps owns_def ready_def split: if_splits)
  next
    case False
    then show ?thesis using assms(1) sr by (auto simp: my_init_def su)
  qed
qed

interpretation multi_mod: partial_lifecycle my_init my_exit owns ready
proof (unfold_locales, goal_cases)
  case (1 s H g r g' s')
  then show ?case using init_cases [of g s r g' s' H] by auto
next
  case (2 s H g r g' s')
  then show ?case using init_cases [of g s r g' s' H] by auto
next
  case (3 g s H)
  then show ?case
    using release_all [of "multi_devs g" "unregister_chrdev_region (MKDEV (major g) 0) DEV_NUM
      (cdev_del (multi_cdev g) s)" H]
    by (auto simp: my_exit_def ready_def owns_def kernel_simps)
qed

subsection \<open>Properties\<close>

text \<open>
  A process that reads a device from any position with any request sizes, some of its calls failing
  with \<open>-EFAULT\<close>, gets the bytes written from that position on, without gaps, and nothing beyond the
  write pointer; no read leaves the buffer.
\<close>

lemma multi_read_stream:
  assumes "dev_inv d" "0 \<le> pos" "\<forall>c\<in>set cs. 0 \<le> c"
  shows "\<exists>out pos' s'. read_seq my_read d cs pos s = Some (out, pos', s') \<and> pos \<le> pos' \<and>
    out = take (nat (pos' - pos)) (drop (nat pos) (written d))"
  using assms by (rule multi_rd.read_seq_total)

definition sample_dev :: mydev where
  "sample_dev = \<lparr>d_start = 4096, d_end = 4104, d_wp = 4099, d_mem = [1, 2, 3, 0, 0, 0, 0, 0], buf_size = 8\<rparr>"

text \<open>
  \<open>llseek\<close> moves to the requested target exactly when it lies within the buffer, for every origin
  and every \<open>loff_t\<close> offset, also when the sum with the current position wraps; otherwise it returns
  \<open>-EINVAL\<close> and leaves the position alone.
\<close>

lemma multi_llseek_exact:
  assumes "- (2 ^ 63) \<le> offset" "offset < 2 ^ 63" "0 \<le> f_pos filp" "f_pos filp < 2 ^ 63"
    "0 \<le> buf_size d" "buf_size d < 2 ^ 32"
  shows "my_llseek d filp offset origin =
    (let target = offset + (if origin = 1 then f_pos filp else if origin = 2 then buf_size d else 0) in
     if 0 \<le> target \<and> target \<le> buf_size d then (target, filp\<lparr>f_pos := target\<rparr>) else (- EINVAL, filp))"
proof -
  have keep: "loff_t (offset + k) = offset + k \<or>
      loff_t (offset + k) < 0 \<and> buf_size d < offset + k" if "0 \<le> k" "k < 2 ^ 63" for k
    using that assms loff_t_overflow [of "offset + k"]
    by (cases "offset + k < 2 ^ 63") auto
  show ?thesis
    using keep [of "f_pos filp"] keep [of "buf_size d"] assms(3-6)
    by (auto simp: my_llseek_def Let_def)
qed

text \<open>
  Loading fails to return (it dereferences \<open>NULL\<close> in the clean-up) exactly when the allocation of
  one of the four structures fails, after the allocations before it succeeded.
\<close>

lemma multi_init_oops:
  "my_init g s = None \<longleftrightarrow>
   (\<exists>i<4. answers s (ncalls s + 2 * i) = 0 \<and> (\<forall>j<2 * i. answers s (ncalls s + j) \<noteq> 0))"
proof -
  have rel: "release_mydev devs DEV_NUM s2 \<noteq> None"
    if "setup_mydev [] (map (buf_lens g) [0..<DEV_NUM]) s = Some (0, devs, s1)" for devs s1 s2
  proof -
    from setup_devs [OF that] have "allocated devs" "length devs = DEV_NUM"
      by simp_all
    then show ?thesis by (simp add: release_defined)
  qed
  have "my_init g s = None \<longleftrightarrow> setup_mydev [] (map (buf_lens g) [0..<DEV_NUM]) s = None"
    by (auto simp: my_init_def Let_def kdefs simp del: upt_Suc dest: rel [THEN notE]
        split: Option.bind_splits if_splits)
  also have "\<dots> \<longleftrightarrow> (\<exists>i<4. answers s (ncalls s + 2 * i) = 0 \<and> (\<forall>j<2 * i. answers s (ncalls s + j) \<noteq> 0))"
    by (subst setup_defined) simp_all
  finally show ?thesis .
qed

end
