(* ===== verification/Kernel_Text.thy ===== *)
theory Kernel_Text
  imports Kernel_Log
begin

text \<open>
  Text that a driver prints with \<open>sprintf\<close> into a buffer of the kernel. The buffer is the memory
  from its first byte on, without an end: \<open>sprintf\<close> itself knows no end, so whether a write leaves
  the page the kernel passed is a property of the offsets, which the model keeps.
\<close>

text \<open>Decimal conversion (\<open>%d\<close>, \<open>%ld\<close>).\<close>

fun digits :: "nat \<Rightarrow> string" where
  "digits n = (if n < 10 then [char_of (48 + n)] else digits (n div 10) @ [char_of (48 + n mod 10)])"

declare digits.simps [simp del]

definition fmt_d :: "int \<Rightarrow> string" where
  "fmt_d n = (if n < 0 then ''-'' @ digits (nat (- n)) else digits (nat n))"

lemma length_digits: "1 \<le> length (digits n)"
  by (subst digits.simps) auto

lemma length_fmt_d: "1 \<le> length (fmt_d n)"
  using length_digits [of "nat n"] by (auto simp: fmt_d_def)

lemma length_digits_step: "10 \<le> n \<Longrightarrow> length (digits n) = Suc (length (digits (n div 10)))"
  by (subst digits.simps) simp

lemma length_digits_less: "n < 10 \<Longrightarrow> length (digits n) = 1"
  by (subst digits.simps) simp

lemma length_fmt_byte:
  "length (fmt_d (uint v)) = (if unat v < 10 then 1 else if unat v < 100 then 2 else 3)" for v :: byte
proof -
  have "unat v < 256" using unsigned_less [of v, where 'a = nat] by simp
  then show ?thesis by (auto simp: fmt_d_def length_digits_less length_digits_step)
qed

text \<open>\<open>sprintf (buf + pos, ...)\<close>: the text and its terminating \<open>NUL\<close>.\<close>

type_synonym text_mem = "nat \<Rightarrow> char"

definition sprintf_at :: "nat \<Rightarrow> string \<Rightarrow> text_mem \<Rightarrow> text_mem" where
  "sprintf_at pos str m = (\<lambda>i. if pos \<le> i \<and> i < pos + length str then str ! (i - pos)
     else if i = pos + length str then CHR 0x00 else m i)"

definition text_at :: "text_mem \<Rightarrow> nat \<Rightarrow> nat \<Rightarrow> string" where
  "text_at m pos n = map m [pos..<pos + n]"

lemma length_text_at [simp]: "length (text_at m pos n) = n"
  by (simp add: text_at_def)

lemma text_at_0 [simp]: "text_at m pos 0 = []"
  by (simp add: text_at_def)

text \<open>Printing behind a text appends to it.\<close>

lemma text_at_sprintf:
  "text_at (sprintf_at (pos + n) str m) pos (n + length str) = text_at m pos n @ str"
proof -
  have "[pos..<pos + (n + length str)] = [pos..<pos + n] @ [pos + n..<pos + n + length str]"
    using upt_add_eq_append [of pos "pos + n" "length str"] by (simp add: add.assoc)
  moreover have "map (sprintf_at (pos + n) str m) [pos + n..<pos + n + length str] = str"
    by (rule nth_equalityI) (auto simp: sprintf_at_def)
  moreover have "map (sprintf_at (pos + n) str m) [pos..<pos + n] = map m [pos..<pos + n]"
    by (simp add: sprintf_at_def)
  ultimately show ?thesis by (simp add: text_at_def)
qed

lemma text_at_sprintf_start [simp]: "text_at (sprintf_at pos str m) pos (length str) = str"
  using text_at_sprintf [of pos 0 str m] by simp

text \<open>Bytes of memory as characters, and back.\<close>

definition byte_char :: "byte \<Rightarrow> char" where
  "byte_char b = char_of (unat b)"

definition char_byte :: "char \<Rightarrow> byte" where
  "char_byte c = of_nat (of_char c)"

lemma byte_char_inverse [simp]: "byte_char (char_byte c) = c"
  by (simp add: byte_char_def char_byte_def unat_of_nat)

lemma char_byte_eq_0 [simp]: "char_byte c = 0 \<longleftrightarrow> c = CHR 0x00"
proof
  assume "char_byte c = 0"
  then have "c = byte_char 0" by (metis byte_char_inverse)
  then show "c = CHR 0x00" by (simp add: byte_char_def char_of_def)
qed (simp add: char_byte_def)

text \<open>What \<open>%s\<close> prints of an object: the bytes before the first \<open>NUL\<close>, which has to be in it.\<close>

definition c_str :: "byte list \<Rightarrow> string option" where
  "c_str bs = (if 0 \<in> set bs then Some (map byte_char (takeWhile (\<lambda>b. b \<noteq> 0) bs)) else None)"

text \<open>Hexadecimal conversion (\<open>%x\<close>, \<open>%lx\<close>, \<open>%llx\<close>).\<close>

definition hex_digit :: "nat \<Rightarrow> char" where
  "hex_digit n = char_of (if n < 10 then 48 + n else 87 + n)"

fun fmt_x :: "nat \<Rightarrow> string" where
  "fmt_x n = (if n < 16 then [hex_digit n] else fmt_x (n div 16) @ [hex_digit (n mod 16)])"

declare fmt_x.simps [simp del]

text \<open>A number below a power of the base has at most as many digits as the exponent says.\<close>

lemma length_digits_le: "n < 10 ^ k \<Longrightarrow> 0 < k \<Longrightarrow> length (digits n) \<le> k"
proof (induction k arbitrary: n)
  case (Suc k)
  show ?case
  proof (cases "n < 10")
    case False
    then have "n div 10 < 10 ^ k" "0 < k" using Suc.prems by (auto simp: div_less_iff_less_mult mult.commute intro: gr0I)
    with Suc.IH [of "n div 10"] False show ?thesis by (simp add: length_digits_step)
  qed (simp add: length_digits_less)
qed simp

lemma length_fmt_x_le: "n < 16 ^ k \<Longrightarrow> 0 < k \<Longrightarrow> length (fmt_x n) \<le> k"
proof (induction k arbitrary: n)
  case (Suc k)
  show ?case
  proof (cases "n < 16")
    case True
    then show ?thesis by (subst fmt_x.simps) simp
  next
    case False
    then have "n div 16 < 16 ^ k" "0 < k" using Suc.prems by (auto simp: div_less_iff_less_mult mult.commute intro: gr0I)
    with Suc.IH [of "n div 16"] False show ?thesis by (subst fmt_x.simps) simp
  qed
qed simp

lemma length_fmt_d_le: "\<bar>n\<bar> < 10 ^ k \<Longrightarrow> 0 < k \<Longrightarrow> length (fmt_d n) \<le> Suc k"
  using length_digits_le [of "nat \<bar>n\<bar>" k] by (auto simp: fmt_d_def nat_less_iff split: if_splits)

text \<open>
  A text is printed by a row of \<open>ret += sprintf (page + ret, ...)\<close>, whose last \<open>NUL\<close> lies at the returned
  offset.
\<close>

definition sprints :: "string list \<Rightarrow> text_mem \<Rightarrow> nat \<times> text_mem" where
  "sprints ls page = fold (\<lambda>l (ret, page). (ret + length l, sprintf_at ret l page)) ls (0, page)"

lemma sprints_append:
  "sprints (ls @ ms) page = fold (\<lambda>l (ret, page). (ret + length l, sprintf_at ret l page)) ms (sprints ls page)"
  by (simp add: sprints_def)

text \<open>The page holds the concatenation, and nothing beyond its final \<open>NUL\<close> is touched.\<close>

lemma sprints_text:
  "sprints ls page = (n, page') \<Longrightarrow> n = length (concat ls) \<and> text_at page' 0 n = concat ls \<and> (\<forall>i>n. page' i = page i)"
proof (induction ls arbitrary: n page' rule: rev_induct)
  case (snoc l ls)
  obtain m pg where m: "sprints ls page = (m, pg)" by fastforce
  then have n: "n = m + length l" "page' = sprintf_at m l pg" using snoc.prems by (auto simp: sprints_append)
  have "text_at page' 0 n = text_at pg 0 m @ l" using text_at_sprintf [of 0 m l pg] by (simp add: n)
  with snoc.IH [OF m] n show ?case by (auto simp: sprintf_at_def)
qed (simp add: sprints_def)

end
