(* ===== verification/User_Progs.thy ===== *)
theory User_Progs
  imports Multi_Mem Kernel_Text
begin

text \<open>
  The user programs that exercise the drivers: \<open>char/user_read.c\<close> on a memory device, \<open>protect/user_read.c\<close> and
  \<open>protect/user_ioctl.c\<close> on the pipe, \<open>io/user_read.c\<close> on the port device, \<open>pci/user_read.c\<close>. A program's result is its
  exit status and what it printed, line by line; \<open>None\<close> is reading past the end of one of its own buffers. The file
  descriptor is closed when the program ends.
\<close>

abbreviation (input) nl :: string where "nl \<equiv> [CHR 0x0A]"

text \<open>The library turns an error of a system call into \<open>-1\<close>.\<close>

definition libc :: "int \<Rightarrow> int" where
  "libc r = (if r < 0 then - 1 else r)"

subsection \<open>Reading, seeking and reading again\<close>

text \<open>The program clears its buffer of 20 bytes before each read, and prints it as a string.\<close>

definition filled :: "byte list \<Rightarrow> byte list" where
  "filled out = out @ drop (length out) (replicate 20 0)"

definition read_line :: "string \<Rightarrow> int \<Rightarrow> byte list \<Rightarrow> string option" where
  "read_line colon ret buf = do {
     str \<leftarrow> c_str buf;
     Some (''Read '' @ fmt_d ret @ '' bytes'' @ colon @ '' '' @ str @ nl)
   }"

abbreviation (input) wide_colon :: string where "wide_colon \<equiv> [CHR 0xEF, CHR 0xBC, CHR 0x9A]"  \<comment> \<open>UTF-8\<close>

definition user_read :: "'d reader \<Rightarrow> ('d \<Rightarrow> kfile \<Rightarrow> int \<Rightarrow> int \<Rightarrow> int \<times> kfile) \<Rightarrow> 'd \<Rightarrow> kfile option \<Rightarrow> kworld \<Rightarrow>
    (int \<times> string list) option" where
  "user_read rd seek d fd s =
     (case fd of None \<Rightarrow> Some (1, [''Cannot open /dev/mychar0'' @ nl])
      | Some filp \<Rightarrow> do {
          (r, p, out, s) \<leftarrow> rd d 5 (f_pos filp) s;
          let filp = filp\<lparr>f_pos := p\<rparr>;
          first \<leftarrow> read_line wide_colon (libc r) (filled out);
          let (r, filp) = seek d filp 5 1;
          let moved = (if libc r = - 1 then ''Cannot lseek'' @ nl else ''Seek current ok'' @ nl);
          (r, p, out, s) \<leftarrow> rd d 20 (f_pos filp) s;
          second \<leftarrow> read_line '':'' (libc r) (filled out);
          Some (0, [first, moved, second])
        })"

text \<open>
  The contract the program relies on: a device that is read from any position and whose position is moved
  relative to where it is, within its size. When no copy to the process fails, no read fails.
\<close>

definition quiet :: "kworld \<Rightarrow> bool" where
  "quiet s \<longleftrightarrow> (\<forall>i. answers s i = 0)"

locale seekable_file = total_reader rd content inv
  for rd :: "'d reader" and content :: "'d \<Rightarrow> byte list" and inv :: "'d \<Rightarrow> bool" +
  fixes seek :: "'d \<Rightarrow> kfile \<Rightarrow> int \<Rightarrow> int \<Rightarrow> int \<times> kfile"
    and dsize :: "'d \<Rightarrow> int"
  assumes rd_quiet: "inv d \<Longrightarrow> quiet s \<Longrightarrow> 0 \<le> c \<Longrightarrow> 0 \<le> pos \<Longrightarrow> rd d c pos s = Some (r, pos', out, s') \<Longrightarrow> 0 \<le> r \<and> quiet s'"
    and fits: "inv d \<Longrightarrow> int (length (content d)) \<le> dsize d"
    and seek_cur: "inv d \<Longrightarrow> 0 \<le> f_pos filp \<Longrightarrow> f_pos filp \<le> dsize d \<Longrightarrow> 0 \<le> off \<Longrightarrow> off < 2 ^ 31 \<Longrightarrow>
      seek d filp off 1 = (if f_pos filp + off \<le> dsize d then (f_pos filp + off, filp\<lparr>f_pos := f_pos filp + off\<rparr>)
        else (- EINVAL, filp))"
begin

text \<open>A read that does not fail gives what there is from the position on.\<close>

lemma rd_delivers:
  assumes "inv d" "quiet s" "0 \<le> c" "0 \<le> pos"
  shows "\<exists>s'. rd d c pos s = Some (int (length (take (nat c) (drop (nat pos) (content d)))),
      pos + int (length (take (nat c) (drop (nat pos) (content d)))), take (nat c) (drop (nat pos) (content d)), s') \<and> quiet s'"
proof (cases "pos \<le> int (length (content d))")
  case True
  obtain r p out s' where r: "rd d c pos s = Some (r, p, out, s')"
    using rd_defined [OF assms(1,3,4) True, of s] by (cases "rd d c pos s") auto
  have q: "0 \<le> r" "quiet s'" using rd_quiet [OF assms(1,2,3,4) r] by simp_all
  have "r = min c (int (length (content d)) - pos)" "p = pos + r" "out = take (nat r) (drop (nat pos) (content d))"
    using rd_ok [OF assms(1,3,4) True r q(1)] by simp_all
  moreover have "r = int (length (take (nat c) (drop (nat pos) (content d))))"
    using calculation(1) assms(3,4) True by (auto simp: min_def)
  ultimately show ?thesis using r q(2) by (auto simp: min_def)
next
  case False
  with rd_beyond [OF assms(1,3), of pos s] assms(2) show ?thesis by simp
qed

lemma user_read_result:
  assumes "inv d" "quiet s" "f_pos filp = 0"
  shows "user_read rd seek d (Some filp) s =
    (let a = take 5 (content d); ok = (int (length a) + 5 \<le> dsize d);
         b = take 20 (drop (if ok then length a + 5 else length a) (content d)) in do {
       first \<leftarrow> read_line wide_colon (int (length a)) (filled a);
       second \<leftarrow> read_line '':'' (int (length b)) (filled b);
       Some (0, [first, (if ok then ''Seek current ok'' else ''Cannot lseek'') @ nl, second])
     })"
proof -
  define a where "a = take 5 (content d)"
  define ok where "ok \<longleftrightarrow> int (length a) + 5 \<le> dsize d"
  define p where "p = (if ok then length a + 5 else length a)"
  define b where "b = take 20 (drop p (content d))"
  obtain s1 where s1: "rd d 5 0 s = Some (int (length a), int (length a), a, s1)" "quiet s1"
    using rd_delivers [OF assms(1,2), of 5 0] by (auto simp: a_def)
  have a5: "length a \<le> 5" "int (length a) \<le> dsize d" using fits [OF assms(1)] by (simp_all add: a_def)
  have sk: "seek d (filp\<lparr>f_pos := int (length a)\<rparr>) 5 1 =
      (if ok then int (length a) + 5 else - EINVAL, filp\<lparr>f_pos := int p\<rparr>)"
    using seek_cur [OF assms(1), of "filp\<lparr>f_pos := int (length a)\<rparr>" 5] a5 by (simp add: ok_def p_def)
  obtain s2 where s2: "rd d 20 (int p) s1 = Some (int (length b), int p + int (length b), b, s2)"
    using rd_delivers [OF assms(1) s1(2), of 20 "int p"] by (auto simp: b_def)
  show ?thesis
    unfolding a_def [symmetric] Let_def ok_def [symmetric] p_def [symmetric] b_def [symmetric]
    by (simp add: user_read_def assms(3) s1(1) sk s2 libc_def Let_def)
qed

end

definition multi_inv :: "Multi_Mem.mydev \<Rightarrow> bool" where
  "multi_inv d \<longleftrightarrow> dev_inv d \<and> d_end d = d_start d + buf_size d \<and> buf_size d < 2 ^ 32"

interpretation multi_file: seekable_file Multi_Mem.my_read written multi_inv my_llseek buf_size
proof (unfold_locales, goal_cases)
  case (1 d c pos s)
  then show ?case by (intro multi_rd.rd_defined) (auto simp: multi_inv_def)
next
  case (2 d c pos s r pos' out s')
  then show ?case by (intro multi_rd.rd_ok) (auto simp: multi_inv_def)
next
  case (3 d c pos s r pos' out s')
  then show ?case by (intro multi_rd.rd_err) (auto simp: multi_inv_def)
next
  case (4 d c pos s)
  then show ?case by (intro multi_rd.rd_beyond) (auto simp: multi_inv_def)
next
  case (5 d s c pos r pos' out s')
  then show ?case
    by (auto simp: Multi_Mem.my_read_def kdefs quiet_def ask_def answered_def Let_def split: if_splits Option.bind_splits)
next
  case (6 d)
  then show ?case by (auto simp: multi_inv_def length_written dev_inv_def)
next
  case (7 d filp off)
  then have "loff_t (off + f_pos filp) = off + f_pos filp" by (intro loff_t_id) (auto simp: multi_inv_def)
  with 7 show ?case by (auto simp: my_llseek_def Let_def)
qed

text \<open>What the program shows of the bytes it got; a full buffer has no room for the \<open>NUL\<close> of the string.\<close>

definition shown :: "byte list \<Rightarrow> string" where
  "shown out = map byte_char (takeWhile (\<lambda>b. b \<noteq> 0) out)"

lemma c_str_filled:
  assumes "length out \<le> 20"
  shows "c_str (filled out) = (if length out = 20 \<and> 0 \<notin> set out then None else Some (shown out))"
proof (cases "0 \<in> set out")
  case True
  then show ?thesis by (auto simp: c_str_def filled_def shown_def takeWhile_append)
next
  case False
  then have tw: "takeWhile (\<lambda>b. b \<noteq> 0) out = out" by (subst takeWhile_eq_all_conv) auto
  have "takeWhile (\<lambda>b. b \<noteq> 0) (out @ replicate n 0) = out" for n
    using False by (induction out) (auto simp: takeWhile_eq_Nil_iff)
  then show ?thesis using False assms by (simp add: c_str_def filled_def shown_def tw)
qed

text \<open>The output of the program on a device of a given size that holds \<open>bs\<close>.\<close>

definition printed :: "int \<Rightarrow> byte list \<Rightarrow> (int \<times> string list) option" where
  "printed sz bs =
     (let a = take 5 bs; ok = (int (length a) + 5 \<le> sz);
        b = take 20 (drop (if ok then length a + 5 else length a) bs) in
      if length b = 20 \<and> 0 \<notin> set b then None
      else Some (0, [''Read '' @ fmt_d (int (length a)) @ '' bytes'' @ wide_colon @ '' '' @ shown a @ nl,
        (if ok then ''Seek current ok'' else ''Cannot lseek'') @ nl,
        ''Read '' @ fmt_d (int (length b)) @ '' bytes: '' @ shown b @ nl]))"

lemma user_read_printed:
  assumes "multi_inv d" "quiet s" "f_pos filp = 0"
  shows "user_read Multi_Mem.my_read my_llseek d (Some filp) s = printed (buf_size d) (written d)"
proof -
  define a where "a = take 5 (written d)"
  define ok where "ok \<longleftrightarrow> int (length a) + 5 \<le> buf_size d"
  define b where "b = take 20 (drop (if ok then length a + 5 else length a) (written d))"
  have "length a \<le> 5" "length b \<le> 20" by (simp_all add: a_def b_def)
  then show ?thesis
    unfolding multi_file.user_read_result [OF assms] printed_def Let_def a_def [symmetric] ok_def [symmetric] b_def [symmetric]
    by (simp add: read_line_def c_str_filled)
qed

lemma multi_write_quiet:
  assumes "multi_inv d" "quiet s" "0 \<le> cnt"
  shows "\<exists>d' s'. Multi_Mem.my_write d buf cnt s = Some (min cnt (d_end d - d_wp d), d', s') \<and> multi_inv d' \<and>
    buf_size d' = buf_size d \<and> quiet s' \<and> written d' = written d @ map buf [0..<nat (min cnt (d_end d - d_wp d))]"
proof -
  have inv: "dev_inv d" using assms(1) by (simp add: multi_inv_def)
  obtain r d' s' where w: "Mychar.my_write d buf cnt s = Some (r, d', s')" "dev_inv d'"
    "Mychar.mydev.more d' = Mychar.mydev.more d" "d_start d' = d_start d" "d_end d' = d_end d"
    "0 \<le> r \<Longrightarrow> r = min cnt (d_end d - d_wp d) \<and> written d' = written d @ map buf [0..<nat r]"
    by (rule my_write_step [OF inv assms(3), of buf s]) blast
  have "0 \<le> r" "quiet s'"
    using w(1) assms inv by (auto simp: Mychar.my_write_def kdefs quiet_def ask_def answered_def Let_def dev_inv_def
        split: if_splits Option.bind_splits)
  moreover have "buf_size d' = buf_size d" using w(3) by (cases d, cases d') simp
  moreover have "multi_inv d'" using w(2,4,5) assms(1) calculation(3) by (simp add: multi_inv_def)
  ultimately show ?thesis using w(1,6) by (auto simp: my_write_eq)
qed

subsection \<open>Registers and devices that cannot be opened\<close>

text \<open>
  \<open>io/user_read.c\<close> passes the address of its variable as the file descriptor and the descriptor as the buffer: the
  call does not set the variable, whatever it returns.
\<close>

definition io_user_read :: "(int \<Rightarrow> int) \<Rightarrow> bool \<Rightarrow> 64 word \<Rightarrow> int \<times> string list" where
  "io_user_read sys_read opened val =
     (if \<not> opened then (1, [])
      else (0, map (\<lambda>i. let pos = 4 * i; ret = sys_read (int pos)
                 in ''Reg 0x'' @ fmt_x pos @ '' : 0x'' @ fmt_x (unat val) @ nl) [0..<64]))"

definition pci_user_read :: "bool \<Rightarrow> int \<times> string list" where
  "pci_user_read opened = (if \<not> opened then (1, [''Cannot open /dev/pci0'' @ nl]) else (0, []))"

text \<open>So the program prints the same value for all 64 registers, whatever the device holds.\<close>

lemma io_user_read_constant:
  "\<exists>str. \<forall>i<64. snd (io_user_read sys_read True val) ! i = ''Reg 0x'' @ fmt_x (4 * i) @ '' : 0x'' @ str @ nl"
  by (auto simp: io_user_read_def Let_def)

subsection \<open>Properties\<close>

text \<open>
  C40: What is written to a memory device comes out of the test program. After one write of any length to an empty
  device of \<open>multi_mem.c\<close> of any size, the program \<open>char/user_read.c\<close>, run on the same device, prints how many of the first five
  bytes there were, and these up to the first zero. It then moves five bytes on, which fails on a device that is too small and
  leaves the position, and prints the number of the up to twenty bytes from there, and these up to the first zero. It
  reads past its own buffer exactly when those are twenty bytes without a zero. All this when no copy to or from a process fails.
\<close>

theorem write_then_user_read:
  assumes "multi_inv d" "written d = []" "quiet s" "0 \<le> cnt" "f_pos filp = 0"
  shows "\<exists>d' s'. Multi_Mem.my_write d buf cnt s = Some (min cnt (buf_size d), d', s') \<and>
    user_read Multi_Mem.my_read my_llseek d' (Some filp) s' =
      (let bs = map buf [0..<nat (min cnt (buf_size d))]; a = take 5 bs; ok = (int (length a) + 5 \<le> buf_size d);
         b = take 20 (drop (if ok then length a + 5 else length a) bs) in
       if length b = 20 \<and> 0 \<notin> set b then None
       else Some (0, [''Read '' @ fmt_d (int (length a)) @ '' bytes'' @ [CHR 0xEF, CHR 0xBC, CHR 0x9A] @ '' '' @ shown a @ [CHR 0x0A],
         (if ok then ''Seek current ok'' else ''Cannot lseek'') @ [CHR 0x0A],
         ''Read '' @ fmt_d (int (length b)) @ '' bytes: '' @ shown b @ [CHR 0x0A]]))"
proof -
  have "d_wp d = d_start d"
    using assms(1,2) length_written [of d] by (simp add: multi_inv_def)
  then have room: "d_end d - d_wp d = buf_size d" using assms(1) by (simp add: multi_inv_def)
  from multi_write_quiet [OF assms(1,3,4), of buf] obtain d' s' where
    w: "Multi_Mem.my_write d buf cnt s = Some (min cnt (buf_size d), d', s')" "multi_inv d'" "buf_size d' = buf_size d"
      "quiet s'" "written d' = map buf [0..<nat (min cnt (buf_size d))]"
    unfolding room assms(2) by auto
  from user_read_printed [OF w(2,4) assms(5)]
  have "user_read Multi_Mem.my_read my_llseek d' (Some filp) s' = printed (buf_size d) (map buf [0..<nat (min cnt (buf_size d))])"
    by (simp only: w(3,5))
  with w(1) show ?thesis unfolding printed_def Let_def by (intro exI [of _ d'] exI [of _ s'] conjI)
qed

text \<open>On a device of twelve bytes, and on one of eight, where the seek fails.\<close>

definition empty_dev :: "nat \<Rightarrow> Multi_Mem.mydev" where
  "empty_dev n = \<lparr>d_start = 4096, d_end = 4096 + int n, d_wp = 4096, d_mem = replicate n 0, buf_size = int n\<rparr>"

lemma empty_dev_inv: "n < 2 ^ 31 \<Longrightarrow> multi_inv (empty_dev n) \<and> written (empty_dev n) = []"
  by (simp add: empty_dev_def multi_inv_def dev_inv_def written_def)

definition user_run :: "nat \<Rightarrow> (int \<times> string list) option" where
  "user_run n = do {
     (_, d, s) \<leftarrow> Multi_Mem.my_write (empty_dev n) (\<lambda>i. of_nat (65 + i)) 99 \<lparr>answers = (\<lambda>_. 0), ncalls = 0, klog = []\<rparr>;
     user_read Multi_Mem.my_read my_llseek d (Some \<lparr>private_data = 0, f_pos = 0, fmode_read = True, fmode_write = False,
       o_nonblock = False\<rparr>) s
   }"

theorem write_then_user_read_witness:
  "user_run 12 = Some (0, [''Read 5 bytes'' @ [CHR 0xEF, CHR 0xBC, CHR 0x9A] @ '' ABCDE'' @ [CHR 0x0A],
     ''Seek current ok'' @ [CHR 0x0A], ''Read 2 bytes: KL'' @ [CHR 0x0A]]) \<and>
   user_run 8 = Some (0, [''Read 5 bytes'' @ [CHR 0xEF, CHR 0xBC, CHR 0x9A] @ '' ABCDE'' @ [CHR 0x0A],
     ''Cannot lseek'' @ [CHR 0x0A], ''Read 3 bytes: FGH'' @ [CHR 0x0A]])"
proof -
  let ?s = "\<lparr>answers = (\<lambda>_. 0), ncalls = 0, klog = []\<rparr>"
  let ?f = "\<lparr>private_data = 0, f_pos = 0, fmode_read = True, fmode_write = False, o_nonblock = False\<rparr>"
  have p: "printed 12 (map (\<lambda>i. of_nat (65 + i)) [0..<12]) = Some (0, [''Read 5 bytes'' @ [CHR 0xEF, CHR 0xBC, CHR 0x9A] @ '' ABCDE'' @
      [CHR 0x0A], ''Seek current ok'' @ [CHR 0x0A], ''Read 2 bytes: KL'' @ [CHR 0x0A]])"
    "printed 8 (map (\<lambda>i. of_nat (65 + i)) [0..<8]) = Some (0, [''Read 5 bytes'' @ [CHR 0xEF, CHR 0xBC, CHR 0x9A] @ '' ABCDE'' @
      [CHR 0x0A], ''Cannot lseek'' @ [CHR 0x0A], ''Read 3 bytes: FGH'' @ [CHR 0x0A]])"
    by code_simp+
  have "user_run n = printed (int n) (map (\<lambda>i. of_nat (65 + i)) [0..<n])" if "n < 99" for n
  proof -
    have q: "quiet ?s" and n: "buf_size (empty_dev n) = int n" "min 99 (int n) = int n"
      using that by (simp_all add: quiet_def empty_dev_def)
    have inv: "multi_inv (empty_dev n)" "written (empty_dev n) = []" using empty_dev_inv [of n] that by simp_all
    have "0 \<le> (99 :: int)" "f_pos ?f = 0" by simp_all
    note res = write_then_user_read [OF inv q this, of "\<lambda>i. of_nat (65 + i)", unfolded n nat_int]
    show ?thesis
      using res unfolding printed_def Let_def user_run_def by (elim exE conjE) simp
  qed
  note run = this
  have "user_run 12 = printed 12 (map (\<lambda>i. of_nat (65 + i)) [0..<12])"
    "user_run 8 = printed 8 (map (\<lambda>i. of_nat (65 + i)) [0..<8])"
    using run [of 12] run [of 8] by simp_all
  then show ?thesis by (simp only: p)
qed

end
