(* ===== verification/Ring.thy ===== *)
theory Ring
  imports Kernel_Prelude
begin

text \<open>
  A ring of bytes seen as a list: \<open>r\<close> and \<open>w\<close> are the offsets of the read and the write pointer
  into a buffer of fixed length, and the ring holds the bytes from \<open>r\<close> up to \<open>w\<close>, going round at
  the end. Equal offsets mean an empty ring, so a ring never holds as many bytes as the buffer has.
\<close>

definition ring :: "nat \<Rightarrow> nat \<Rightarrow> byte list \<Rightarrow> byte list" where
  "ring r w mem = (if r \<le> w then take (w - r) (drop r mem) else drop r mem @ take w mem)"

definition wrap :: "nat \<Rightarrow> nat \<Rightarrow> nat" where
  "wrap n i = (if i = n then 0 else i)"

lemma wrap_less: "i \<le> n \<Longrightarrow> 0 < n \<Longrightarrow> wrap n i < n"
  by (simp add: wrap_def)

lemma length_ring:
  "r < length mem \<Longrightarrow> w < length mem \<Longrightarrow>
   length (ring r w mem) = (if r \<le> w then w - r else length mem - r + w)"
  by (auto simp: ring_def)

lemma ring_empty_iff: "r < length mem \<Longrightarrow> w < length mem \<Longrightarrow> ring r w mem = [] \<longleftrightarrow> r = w"
  by (auto simp: ring_def)

text \<open>Advancing the read offset over bytes that do not go round takes them off the front.\<close>

lemma ring_get:
  assumes "r < length mem" "w < length mem" "k \<le> (if r \<le> w then w - r else length mem - r)"
  shows "ring r w mem = take k (drop r mem) @ ring (wrap (length mem) (r + k)) w mem"
proof (cases "r \<le> w")
  case True
  with assms have "r + k \<le> w" "r + k \<noteq> length mem" by auto
  then show ?thesis
    using True by (simp add: ring_def wrap_def take_take_drop)
next
  case False
  show ?thesis
  proof (cases "r + k = length mem")
    case True
    with False show ?thesis by (simp add: ring_def wrap_def)
  next
    case wrapped: False
    with False assms have "\<not> r + k \<le> w" by auto
    moreover have "drop r mem = take k (drop r mem) @ drop (r + k) mem"
      by (metis add.commute append_take_drop_id drop_drop)
    ultimately show ?thesis using False wrapped by (simp add: ring_def wrap_def)
  qed
qed

text \<open>
  Storing at the write offset and advancing over it appends, provided the bytes fit before the end
  of the buffer and leave at least one free byte before the read offset.
\<close>

lemma ring_put:
  assumes "r < length mem" "w < length mem" "w + length xs \<le> length mem"
    and "length xs < (if r \<le> w then length mem + r - w else r - w)"
  shows "ring r (wrap (length mem) (w + length xs)) (overwrite mem w xs) = ring r w mem @ xs"
proof (cases "r \<le> w")
  case True
  note o = overwrite_def
  show ?thesis
  proof (cases "w + length xs = length mem")
    case full: True
    with True assms have "0 < r" by auto
    moreover have "drop r (overwrite mem w xs) = drop r (take w mem) @ xs"
      using True full assms by (simp add: o)
    ultimately show ?thesis
      using True full by (simp add: ring_def wrap_def drop_take)
  next
    case False
    then show ?thesis
      using True assms by (simp add: ring_def wrap_def o drop_take)
  qed
next
  case False
  with assms have "w + length xs < r" by auto
  then have "drop r (overwrite mem w xs) = drop r mem" "\<not> r \<le> w + length xs"
    using assms by (simp_all add: overwrite_def)
  with False assms show ?thesis
    by (auto simp: ring_def wrap_def take_overwrite_through)
qed

text \<open>A store into the free part that is not followed by an advance changes nothing.\<close>

lemma ring_scribble:
  assumes "r < length mem" "w < length mem" "w + length xs \<le> length mem"
    and "length xs < (if r \<le> w then length mem + r - w else r - w)"
  shows "ring r w (overwrite mem w xs) = ring r w mem"
proof (cases "r \<le> w")
  case True
  with assms have "take w (overwrite mem w xs) = take w mem" by simp
  then have "drop r (take w (overwrite mem w xs)) = drop r (take w mem)" by simp
  with True show ?thesis by (simp add: ring_def take_drop)
next
  case False
  with assms have "w + length xs < r" by auto
  with False assms show ?thesis by (simp add: ring_def overwrite_def)
qed

end
