(* ===== verification/Pipe.thy ===== *)
theory Pipe
  imports Interfaces Ring
begin

text \<open>
  The pipe device of \<open>src/protect/pipe.c\<close>: a ring buffer of 100 bytes between writers and readers.
  This theory models the structure, the bodies of \<open>my_read\<close> and \<open>my_write\<close> between taking and
  releasing the semaphore, \<open>ioctl\<close>, \<open>open\<close>, \<open>release\<close> and the module's life cycle, and relates them
  to a queue of bytes. The blocking loops, the semaphore and the wait queues are in \<open>Pipe_Sched\<close>.
\<close>

subsection \<open>Data\<close>

abbreviation (input) BUF_LEN :: int where "BUF_LEN \<equiv> 100"

record mydev =
  d_start :: addr
  d_end :: addr
  d_wp :: addr
  d_rp :: addr
  nreaders :: int
  nwriters :: int
  d_mem :: "byte list"  \<comment> \<open>the bytes of the buffer at \<open>d_start\<close>\<close>

record globals =
  major :: "32 word"
  dev :: addr
  the_dev :: mydev

subsection \<open>Opening and closing\<close>

definition my_open :: "inode \<Rightarrow> kfile \<Rightarrow> mydev \<Rightarrow> int \<times> kfile \<times> mydev" where
  "my_open inode filp d =
     (let filp = filp\<lparr>private_data := i_cdev inode\<rparr>;
        d = (if fmode_read filp then d\<lparr>nreaders := nreaders d + 1\<rparr> else d);
        d = (if fmode_write filp then d\<lparr>nwriters := nwriters d + 1\<rparr> else d)
      in (0, filp, d))"

definition my_release :: "inode \<Rightarrow> kfile \<Rightarrow> mydev \<Rightarrow> int \<times> mydev" where
  "my_release inode filp d =
     (let d = (if fmode_read filp then d\<lparr>nreaders := nreaders d - 1\<rparr> else d);
        d = (if fmode_write filp then d\<lparr>nwriters := nwriters d - 1\<rparr> else d)
      in (0, d))"

subsection \<open>Reading, with the semaphore held and the buffer not empty\<close>

definition read_count :: "mydev \<Rightarrow> int \<Rightarrow> int" where
  "read_count d cnt =
     (let cnt = (if d_wp d > d_rp d then min cnt (size_t (d_wp d - d_rp d)) else cnt)
      in if d_wp d < d_rp d then min cnt (size_t (d_end d - d_rp d)) else cnt)"

definition advance_rp :: "mydev \<Rightarrow> int \<Rightarrow> mydev" where
  "advance_rp d cnt =
     (let d = d\<lparr>d_rp := d_rp d + cnt\<rparr>
      in if d_rp d = d_end d then d\<lparr>d_rp := d_start d\<rparr> else d)"

definition read_locked :: "mydev \<Rightarrow> int \<Rightarrow> kworld \<Rightarrow> (int \<times> byte list \<times> mydev \<times> kworld) option" where
  "read_locked d cnt s =
     (let cnt = read_count d cnt in do {
        src \<leftarrow> load (d_start d) (d_mem d) (d_rp d) cnt;
        let (r, out, s) = copy_to_user src s in
        if r \<noteq> 0 then Some (- EFAULT, out, d, s)
        else Some (cnt, out, advance_rp d cnt, s)
      })"

subsection \<open>Writing, with the semaphore held and space left\<close>

definition spacefree :: "mydev \<Rightarrow> int" where
  "spacefree d =
     (if d_rp d = d_wp d then size_t (d_end d - d_start d - 1)
      else if d_rp d < d_wp d then size_t (BUF_LEN + d_rp d - d_wp d - 1)
      else size_t (d_rp d - d_wp d - 1))"

definition write_count :: "mydev \<Rightarrow> int \<Rightarrow> int" where
  "write_count d cnt =
     (let cnt = min cnt (spacefree d);
        cnt = (if d_rp d > d_wp d then min cnt (size_t (d_rp d - d_wp d - 1)) else cnt)
      in if d_rp d \<le> d_wp d then min cnt (size_t (d_end d - d_wp d)) else cnt)"

definition advance_wp :: "mydev \<Rightarrow> int \<Rightarrow> mydev" where
  "advance_wp d cnt =
     (let d = d\<lparr>d_wp := d_wp d + cnt\<rparr>
      in if d_wp d = d_end d then d\<lparr>d_wp := d_start d\<rparr> else d)"

definition write_locked :: "mydev \<Rightarrow> (nat \<Rightarrow> byte) \<Rightarrow> int \<Rightarrow> kworld \<Rightarrow> (int \<times> mydev \<times> kworld) option" where
  "write_locked d buf cnt s =
     (let cnt = write_count d cnt; (r, data, s) = copy_from_user buf (nat cnt) s in do {
        mem \<leftarrow> store (d_start d) (d_mem d) (d_wp d) data;
        let d = d\<lparr>d_mem := mem\<rparr> in
        if r \<noteq> 0 then Some (- EFAULT, d, s)
        else Some (cnt, advance_wp d cnt, s)
      })"

subsection \<open>ioctl\<close>

definition PIPE :: "32 word" where "PIPE = 0x7a"  \<comment> \<open>the character z\<close>

definition IOC_TYPE :: "32 word \<Rightarrow> 32 word" where
  "IOC_TYPE cmd = drop_bit 8 cmd AND 0xff"

definition PIPE_RESET :: "32 word" where
  "PIPE_RESET = push_bit 8 PIPE OR 1"

definition reset :: "mydev \<Rightarrow> mydev" where
  "reset d = d\<lparr>d_wp := d_start d, d_rp := d_start d\<rparr>"

text \<open>\<open>down\<close> is what \<open>down_interruptible\<close> returns.\<close>

definition my_ioctl :: "mydev \<Rightarrow> 32 word \<Rightarrow> int \<Rightarrow> int \<times> mydev" where
  "my_ioctl d cmd down =
     (if IOC_TYPE cmd \<noteq> PIPE then (- ENOTTY, d)
      else if cmd = PIPE_RESET then
        (if down \<noteq> 0 then (- ERESTARTSYS, d) else (0, reset d))
      else (- EINVAL, d))"

subsection \<open>Module initialisation and removal\<close>

text \<open>The results of \<open>cdev_add\<close> and \<open>create_proc_read_entry\<close> are ignored.\<close>

definition my_init :: "globals \<Rightarrow> kworld \<Rightarrow> int \<times> globals \<times> kworld" where
  "my_init g s =
     (let (p, s) = kzalloc (Sizeof ''mydev'') s; g = g\<lparr>dev := p\<rparr> in
      if p = 0 then (- ENOMEM, g, s)
      else let
        (b, s) = kzalloc (Bytes BUF_LEN) s;
        g = g\<lparr>the_dev := \<lparr>d_start = b, d_end = b + BUF_LEN, d_wp = b, d_rp = b,
              nreaders = 0, nwriters = 0,
              d_mem = (if b = 0 then [] else replicate (nat BUF_LEN) 0)\<rparr>\<rparr>;
        (ret, dev_num, g, s) =
          (if major g \<noteq> 0 then
             let dev_num = MKDEV (major g) 0; (ret, s) = register_chrdev_region dev_num 10 s
             in (ret, dev_num, g, s)
           else
             let (ret, dev_num, s) = alloc_chrdev_region 0 10 s
             in (ret, dev_num, g\<lparr>major := MAJOR dev_num\<rparr>, s))
      in if ret \<noteq> 0 then (- 1, g, kfree p (kfree b s))
      else let
        (_, s) = try_cdev_add p dev_num 1 s;
        (_, s) = try_create_proc ''proc_pipe'' s
      in (0, g, s))"

definition my_exit :: "globals \<Rightarrow> kworld \<Rightarrow> kworld" where
  "my_exit g s =
     (let s = remove_proc_entry ''proc_pipe'' s;
        s = cdev_del (dev g) s;
        s = unregister_chrdev_region (MKDEV (major g) 0) 10 s;
        s = kfree (d_start (the_dev g)) s
      in kfree (dev g) s)"

subsection \<open>Invariant and contents\<close>

text \<open>
  Both pointers stay inside the buffer; the buffer has the 100 bytes the source's constant says.
\<close>

definition dev_inv :: "mydev \<Rightarrow> bool" where
  "dev_inv d \<longleftrightarrow> d_start d \<le> d_rp d \<and> d_rp d < d_end d \<and> d_start d \<le> d_wp d \<and> d_wp d < d_end d \<and>
     d_end d = d_start d + BUF_LEN \<and> length (d_mem d) = nat BUF_LEN"

definition contents :: "mydev \<Rightarrow> byte list" where
  "contents d = ring (nat (d_rp d - d_start d)) (nat (d_wp d - d_start d)) (d_mem d)"

text \<open>The offsets of the two pointers, as the ring lemmas use them.\<close>

abbreviation r_off :: "mydev \<Rightarrow> nat" where "r_off d \<equiv> nat (d_rp d - d_start d)"
abbreviation w_off :: "mydev \<Rightarrow> nat" where "w_off d \<equiv> nat (d_wp d - d_start d)"

lemma off_less:
  assumes "dev_inv d"
  shows "r_off d < length (d_mem d)" "w_off d < length (d_mem d)"
  using assms by (auto simp: dev_inv_def)

lemma length_contents:
  "dev_inv d \<Longrightarrow> int (length (contents d)) =
     (if d_rp d \<le> d_wp d then d_wp d - d_rp d else BUF_LEN - (d_rp d - d_wp d))"
  using off_less [of d] by (auto simp: contents_def length_ring dev_inv_def)

lemma contents_empty_iff: "dev_inv d \<Longrightarrow> contents d = [] \<longleftrightarrow> d_wp d = d_rp d"
  using off_less [of d] by (auto simp: contents_def ring_empty_iff dev_inv_def)

text \<open>The free space the code computes from the pointers is what the queue leaves of 99 bytes.\<close>

lemma spacefree_eq: "dev_inv d \<Longrightarrow> spacefree d = BUF_LEN - 1 - int (length (contents d))"
  by (auto simp: spacefree_def length_contents dev_inv_def)

lemma read_count_eq:
  "dev_inv d \<Longrightarrow> d_wp d \<noteq> d_rp d \<Longrightarrow>
   read_count d cnt = min cnt (if d_rp d \<le> d_wp d then d_wp d - d_rp d else d_end d - d_rp d)"
  by (auto simp: read_count_def Let_def dev_inv_def)

lemma write_count_eq:
  "dev_inv d \<Longrightarrow> write_count d cnt = min cnt
     (if d_rp d \<le> d_wp d then min (d_end d - d_wp d) (BUF_LEN - 1 - (d_wp d - d_rp d))
      else d_rp d - d_wp d - 1)"
  by (auto simp: write_count_def spacefree_def Let_def dev_inv_def)

lemma advance_rp_off:
  assumes "dev_inv d" "0 \<le> k" "d_rp d + k \<le> d_end d"
  shows "dev_inv (advance_rp d k)" "r_off (advance_rp d k) = wrap (length (d_mem d)) (r_off d + nat k)"
    "w_off (advance_rp d k) = w_off d" "d_mem (advance_rp d k) = d_mem d"
    "d_start (advance_rp d k) = d_start d"
  using assms by (auto simp: advance_rp_def Let_def dev_inv_def wrap_def)

lemma advance_wp_off:
  assumes "dev_inv d" "0 \<le> k" "d_wp d + k \<le> d_end d"
  shows "dev_inv (advance_wp d k)" "w_off (advance_wp d k) = wrap (length (d_mem d)) (w_off d + nat k)"
    "r_off (advance_wp d k) = r_off d" "d_mem (advance_wp d k) = d_mem d"
    "d_start (advance_wp d k) = d_start d"
  using assms by (auto simp: advance_wp_def Let_def dev_inv_def wrap_def)

text \<open>A read with the semaphore held, on every branch.\<close>

lemma read_locked_step:
  assumes inv: "dev_inv d" and ne: "d_wp d \<noteq> d_rp d" and cnt: "0 \<le> cnt"
  obtains r out d' s' where "read_locked d cnt s = Some (r, out, d', s')" "dev_inv d'"
    "r < 0 \<Longrightarrow> r = - EFAULT \<and> d' = d"
    "0 \<le> r \<Longrightarrow> contents d = out @ contents d' \<and> r = int (length out) \<and> r \<le> cnt \<and> (0 < cnt \<longrightarrow> 0 < r)"
proof -
  define k where "k = read_count d cnt"
  have k: "0 \<le> k" "d_rp d + k \<le> d_end d" "k \<le> cnt" "0 < cnt \<longrightarrow> 0 < k"
    "nat k \<le> (if r_off d \<le> w_off d then w_off d - r_off d else length (d_mem d) - r_off d)"
    using inv ne cnt by (auto simp: k_def read_count_eq dev_inv_def)
  define src where "src = take (nat k) (drop (r_off d) (d_mem d))"
  have "nat k \<le> length (d_mem d) - r_off d" using inv k(1,2) by (auto simp: dev_inv_def)
  then have len: "length src = nat k" by (simp add: src_def)
  have ld: "load (d_start d) (d_mem d) (d_rp d) k = Some src"
    using inv k by (subst load_eq_Some) (auto simp: dev_inv_def src_def)
  obtain out s1 where cp: "copy_to_user src s = (ask s, out, s1)" "ask s = 0 \<Longrightarrow> out = src"
    by (rule copy_to_user_cases [of src s]) blast
  have res: "read_locked d cnt s = Some (if ask s \<noteq> 0 then (- EFAULT, out, d, s1)
      else (k, out, advance_rp d k, s1))"
    by (simp add: read_locked_def Let_def k_def [symmetric] ld cp)
  have c: "contents d = src @ contents (advance_rp d k)"
    using ring_get [OF off_less [OF inv] k(5)] advance_rp_off [OF inv k(1,2)]
    by (simp add: contents_def src_def)
  show thesis
    by (cases "ask s = 0") (use res inv k cp c len advance_rp_off(1) [OF inv k(1,2)] in \<open>auto intro: that\<close>)
qed

text \<open>A write with the semaphore held, on every branch.\<close>

lemma write_locked_step:
  assumes inv: "dev_inv d" and cnt: "0 \<le> cnt"
  obtains r d' s' where "write_locked d buf cnt s = Some (r, d', s')" "dev_inv d'"
    "r < 0 \<Longrightarrow> r = - EFAULT \<and> contents d' = contents d"
    "0 \<le> r \<Longrightarrow> contents d' = contents d @ map buf [0..<nat r] \<and> r \<le> cnt \<and>
       (0 < cnt \<longrightarrow> spacefree d \<noteq> 0 \<longrightarrow> 0 < r)"
proof -
  define k where "k = write_count d cnt"
  have k: "0 \<le> k" "d_wp d + k \<le> d_end d" "k \<le> cnt" "0 < cnt \<longrightarrow> spacefree d \<noteq> 0 \<longrightarrow> 0 < k"
    "nat k < (if r_off d \<le> w_off d then length (d_mem d) + r_off d - w_off d else r_off d - w_off d)"
    using inv cnt by (auto simp: k_def write_count_eq spacefree_eq length_contents dev_inv_def)
  obtain data s1 where cp: "copy_from_user buf (nat k) s = (ask s, data, s1)" "length data = nat k"
    "ask s = 0 \<Longrightarrow> data = map buf [0..<nat k]"
    by (rule copy_from_user_cases [of buf "nat k" s]) blast
  define mem where "mem = overwrite (d_mem d) (w_off d) data"
  have fit: "w_off d + length data \<le> length (d_mem d)"
    using inv k(1,2) cp(2) by (auto simp: dev_inv_def)
  have st: "store (d_start d) (d_mem d) (d_wp d) data = Some mem"
    using inv k cp(2) unfolding mem_def by (subst store_eq_Some) (auto simp: dev_inv_def)
  let ?d = "d\<lparr>d_mem := mem\<rparr>"
  have res: "write_locked d buf cnt s = Some (if ask s \<noteq> 0 then (- EFAULT, ?d, s1)
      else (k, advance_wp ?d k, s1))"
    by (simp add: write_locked_def Let_def k_def [symmetric] cp st)
  have len: "length mem = length (d_mem d)" using fit by (simp add: mem_def)
  have inv': "dev_inv ?d" using inv len by (simp add: dev_inv_def)
  note off = off_less [OF inv] fit
  have scribble: "contents ?d = contents d"
    using ring_scribble [OF off] k(5) cp(2) by (simp add: contents_def mem_def)
  have put: "contents (advance_wp ?d k) = contents d @ data"
    using ring_put [OF off] k(5) cp(2) len advance_wp_off [OF inv', of k] k
    by (simp add: contents_def mem_def [symmetric])
  show thesis
    by (cases "ask s = 0")
       (use res inv' k cp scribble put advance_wp_off(1) [OF inv', of k] in \<open>auto intro: that\<close>)
qed

subsection \<open>The queue contract\<close>

text \<open>
  The transfers of a write and of a read whose copies succeed and that find space and data: as much
  of the bytes as \<open>write_count\<close> admits is stored, as much as \<open>read_count\<close> admits is taken.
\<close>

definition put :: "byte list \<Rightarrow> mydev \<Rightarrow> nat \<times> mydev" where
  "put xs d =
     (let k = write_count d (int (length xs))
      in (nat k, advance_wp (d\<lparr>d_mem := overwrite (d_mem d) (w_off d) (take (nat k) xs)\<rparr>) k))"

definition get :: "nat \<Rightarrow> mydev \<Rightarrow> byte list \<times> mydev" where
  "get n d =
     (if d_wp d = d_rp d then ([], d)
      else let k = read_count d (int n)
           in (take (nat k) (drop (r_off d) (d_mem d)), advance_rp d k))"

lemma write_locked_put:
  assumes inv: "dev_inv d" and ok: "ask s = 0"
  shows "\<exists>s'. write_locked d (\<lambda>i. xs ! i) (int (length xs)) s = Some (int (fst (put xs d)), snd (put xs d), s')"
proof -
  define k where "k = write_count d (int (length xs))"
  have k: "0 \<le> k" "d_wp d + k \<le> d_end d" "nat k \<le> length xs"
    using inv by (auto simp: k_def write_count_eq dev_inv_def)
  obtain data s1 where cp: "copy_from_user (\<lambda>i. xs ! i) (nat k) s = (ask s, data, s1)"
    "length data = nat k" "ask s = 0 \<Longrightarrow> data = map (\<lambda>i. xs ! i) [0..<nat k]"
    by (rule copy_from_user_cases [of "\<lambda>i. xs ! i" "nat k" s]) blast
  have data: "data = take (nat k) xs" using cp(3) [OF ok] k(3) by (simp add: map_nth_take)
  have st: "store (d_start d) (d_mem d) (d_wp d) data = Some (overwrite (d_mem d) (w_off d) data)"
    using inv k cp(2) by (subst store_eq_Some) (auto simp: dev_inv_def)
  show ?thesis
    using k(1) cp(1) st ok by (simp add: write_locked_def put_def Let_def k_def [symmetric] data)
qed

lemma read_locked_get:
  assumes inv: "dev_inv d" and ok: "ask s = 0" and ne: "d_wp d \<noteq> d_rp d"
  shows "\<exists>s'. read_locked d (int n) s =
    Some (int (length (fst (get n d))), fst (get n d), snd (get n d), s')"
proof -
  define k where "k = read_count d (int n)"
  have k: "0 \<le> k" "d_rp d + k \<le> d_end d" "nat k \<le> length (d_mem d) - r_off d"
    using inv ne by (auto simp: k_def read_count_eq dev_inv_def)
  have ld: "load (d_start d) (d_mem d) (d_rp d) k = Some (take (nat k) (drop (r_off d) (d_mem d)))"
    using inv k(1,2) by (subst load_eq_Some) (auto simp: dev_inv_def)
  show ?thesis
    using ne k ok
    by (auto simp: read_locked_def get_def Let_def k_def [symmetric] ld copy_to_user_def min_absorb2)
qed

definition all_zero :: kworld where
  "all_zero = \<lparr>answers = (\<lambda>_. 0), ncalls = 0, klog = []\<rparr>"

lemma ask_all_zero [simp]: "ask all_zero = 0"
  by (simp add: ask_def all_zero_def)

interpretation pipe: byte_fifo put get contents dev_inv
proof (unfold_locales, goal_cases)
  case (1 d xs k d')
  obtain s' where w: "write_locked d (\<lambda>i. xs ! i) (int (length xs)) all_zero = Some (int k, d', s')"
    using write_locked_put [OF 1(1), of all_zero xs] 1(2) by auto
  from 1(1) show ?case
    by (rule write_locked_step [of d "int (length xs)" "\<lambda>i. xs ! i" all_zero]) (use w in auto)
next
  case (2 d xs k d')
  obtain s' where w: "write_locked d (\<lambda>i. xs ! i) (int (length xs)) all_zero = Some (int k, d', s')"
    using write_locked_put [OF 2(1), of all_zero xs] 2(2) by auto
  from 2(1) show ?case
    by (rule write_locked_step [of d "int (length xs)" "\<lambda>i. xs ! i" all_zero])
       (use w in \<open>auto simp: map_nth_take\<close>)
next
  case (3 d n ys d')
  show ?case
  proof (cases "d_wp d = d_rp d")
    case False
    then obtain s' where w: "read_locked d (int n) all_zero = Some (int (length ys), ys, d', s')"
      using read_locked_get [OF 3(1), of all_zero n] 3(2) by auto
    from 3(1) False show ?thesis
      by (rule read_locked_step [of d "int n" all_zero]) (use w in auto)
  qed (use 3 in \<open>simp add: get_def\<close>)
next
  case (4 d n ys d')
  show ?case
  proof (cases "d_wp d = d_rp d")
    case False
    then obtain s' where w: "read_locked d (int n) all_zero = Some (int (length ys), ys, d', s')"
      using read_locked_get [OF 4(1), of all_zero n] 4(2) by auto
    from 4(1) False show ?thesis
      by (rule read_locked_step [of d "int n" all_zero]) (use w in auto)
  qed (use 4 in \<open>simp add: get_def\<close>)
qed

subsection \<open>Resources\<close>

definition owns :: "globals \<Rightarrow> res multiset" where
  "owns g = mem_res (dev g) + mem_res (d_start (the_dev g)) + {#Region (MKDEV (major g) 0) 10#}"

definition registrations :: "globals \<Rightarrow> res multiset" where
  "registrations g = {#Cdev (dev g), Proc ''proc_pipe''#}"

text \<open>The last two calls of a successful load, which registered the device and the proc entry.\<close>

definition registered :: "globals \<Rightarrow> kworld \<Rightarrow> bool" where
  "registered g s \<longleftrightarrow> drop (length (klog s) - 2) (klog s) =
     [Obtain ''cdev_add'' [Cdev (dev g)], Obtain ''create_proc_read_entry'' [Proc ''proc_pipe'']]"

lemma my_init_fail:
  assumes "resources s = Some H" "my_init g s = (r, g', s')" "r \<noteq> 0"
  shows "resources s' = Some H"
  using assms by (auto simp: my_init_def Let_def kernel_simps split: if_splits)

text \<open>After a load that reports success, the registrations are what the two calls gave.\<close>

lemma my_init_ok:
  assumes "resources s = Some H" "my_init g s = (0, g', s')"
  obtains R where "resources s' = Some (H + owns g' + R)" "R \<subseteq># registrations g'" "R = registrations g' \<longleftrightarrow> registered g' s'"
proof -
  let ?a1 = "answered (Kzalloc (Sizeof ''mydev'') (ask s)) s"
  let ?a2 = "answered (Kzalloc (Bytes BUF_LEN) (ask ?a1)) ?a1"
  define s1 where "s1 = (if major g \<noteq> 0 then snd (register_chrdev_region (MKDEV (major g) 0) 10 ?a2)
    else snd (snd (alloc_chrdev_region 0 10 ?a2)))"
  have s1: "resources s1 = Some (H + owns g')"
    "s' = snd (try_create_proc ''proc_pipe'' (snd (try_cdev_add (dev g') (MKDEV (major g') 0) 1 s1)))"
    using assms by (auto simp: my_init_def Let_def kernel_simps owns_def s1_def split: if_splits)
  let ?c = "if ask s1 = 0 then [Cdev (dev g')] else []"
  let ?s2 = "answered (Obtain ''cdev_add'' ?c) s1"
  let ?e = "if ask ?s2 = 0 then [] else [Proc ''proc_pipe'']"
  have s': "s' = answered (Obtain ''create_proc_read_entry'' ?e) ?s2" by (simp add: s1(2) try_create_proc_def try_cdev_add_def)
  have log: "drop (length (klog s') - 2) (klog s') = [Obtain ''cdev_add'' ?c, Obtain ''create_proc_read_entry'' ?e]"
    by (simp add: s' answered_def)
  show thesis
    by (rule that [of "mset ?c + mset ?e"])
      (use s1(1) log in \<open>auto simp: s' ksimps registrations_def registered_def\<close>)
qed

lemma my_exit_ok:
  "resources s = Some (H + owns g + registrations g) \<Longrightarrow> resources (my_exit g s) = Some H"
  by (auto simp: my_exit_def Let_def kernel_simps owns_def registrations_def)

lemma my_exit_unregistered:
  assumes "resources s = Some (H + owns g + R)" "R \<subseteq># registrations g" "R \<noteq> registrations g"
    and "Proc ''proc_pipe'' \<notin># H" "Cdev (dev g) \<notin># H"
  shows "resources (my_exit g s) = None"
proof -
  have "Proc ''proc_pipe'' \<notin># R \<or> Cdev (dev g) \<notin># R"
  proof (rule ccontr)
    assume "\<not> ?thesis"
    then have "registrations g \<subseteq># R" by (auto simp: registrations_def insert_subset_eq_iff in_diff_count)
    with assms(2,3) show False by (auto dest: subset_mset.antisym)
  qed
  then show ?thesis
    using assms(1,4,5)
    by (auto simp: my_exit_def Let_def kernel_simps owns_def kstep_def mem_res_def dest!: in_diffD split: if_splits)
qed

lemma gone_stays_gone: "resources s = None \<Longrightarrow> resources (reload my_init my_exit gs s) = None"
proof (induction gs arbitrary: s)
  case (Cons g gs)
  obtain r g' s' where i: "my_init g s = (r, g', s')" by (cases "my_init g s") auto
  then have "resources s' = None" "resources (my_exit g' s') = None"
    using Cons.prems by (auto simp: my_init_def my_exit_def Let_def kernel_simps split: if_splits)
  then show ?case using Cons.IH by (simp add: i)
qed simp

text \<open>In every load of a series that reports success, both registrations succeeded.\<close>

fun all_registered :: "globals list \<Rightarrow> kworld \<Rightarrow> bool" where
  "all_registered [] s = True"
| "all_registered (g # gs) s =
     (case my_init g s of (r, g', s') \<Rightarrow>
        if r = 0 then registered g' s' \<and> all_registered gs (my_exit g' s') else all_registered gs s')"

lemma reload_resources:
  assumes "Proc ''proc_pipe'' \<notin># H" "\<forall>p. Cdev p \<notin># H"
  shows "resources s = Some H \<Longrightarrow>
    resources (reload my_init my_exit gs s) = (if all_registered gs s then Some H else None)"
proof (induction gs arbitrary: s)
  case (Cons g gs)
  obtain r g' s' where i: "my_init g s = (r, g', s')" by (cases "my_init g s") auto
  show ?case
  proof (cases "r = 0")
    case False
    then show ?thesis using Cons my_init_fail [OF Cons.prems i False] by (simp add: i)
  next
    case True
    then obtain R where R: "resources s' = Some (H + owns g' + R)" "R \<subseteq># registrations g'"
      "R = registrations g' \<longleftrightarrow> registered g' s'"
      using my_init_ok [OF Cons.prems] i by metis
    show ?thesis
    proof (cases "registered g' s'")
      case True
      with \<open>r = 0\<close> Cons.IH my_exit_ok [of s' H g'] R show ?thesis by (simp add: i)
    next
      case False
      with R my_exit_unregistered [OF R(1,2) _ assms(1)] assms(2)
      have "resources (my_exit g' s') = None" by blast
      with False \<open>r = 0\<close> show ?thesis by (simp add: i gone_stays_gone)
    qed
  qed
qed simp

subsection \<open>Properties\<close>

text \<open>
  C6: The pipe implements a queue of bytes. For every sequence of transfers, whatever their sizes and
  wherever the pointers go round, the old contents followed by all accepted bytes equals all
  delivered bytes followed by the new contents: nothing is lost, duplicated or reordered.
\<close>

theorem pipe_refines_queue:
  assumes "dev_inv d" "fifo_run put get ops d = (ins, outs, d')"
  shows "dev_inv d' \<and> contents d @ ins = outs @ contents d'"
  using pipe.fifo_run_step [OF assms] .

definition tiny_dev :: mydev where
  "tiny_dev = \<lparr>d_start = 4096, d_end = 4196, d_wp = 4195, d_rp = 4195, nreaders = 1, nwriters = 1,
     d_mem = replicate 100 0\<rparr>"

theorem pipe_refines_queue_witness:
  "\<exists>ins outs d'. fifo_run put get [Put [1, 2, 3], Put [2, 3], Get 5, Get 5] tiny_dev = (ins, outs, d') \<and>
     contents tiny_dev @ ins = outs @ contents d'"
proof -
  have "dev_inv tiny_dev" by (simp add: dev_inv_def tiny_dev_def)
  moreover obtain ins outs d' where "fifo_run put get [Put [1, 2, 3], Put [2, 3], Get 5, Get 5] tiny_dev = (ins, outs, d')"
    by (metis prod.exhaust)
  ultimately show ?thesis using pipe_refines_queue by blast
qed

text \<open>
  C7: On every branch of the locked part of \<open>my_write\<close>: the store stays inside the buffer; a failed
  copy returns \<open>-EFAULT\<close> and leaves the queue as it was; otherwise the return value says how many
  bytes were appended, never more than asked for, and at least one when one was asked for and
  \<open>spacefree\<close> is not zero. \<open>spacefree\<close> is what the queue leaves of 99 bytes.
\<close>

theorem pipe_write_branches:
  assumes "dev_inv d" "0 \<le> cnt"
  shows "spacefree d = BUF_LEN - 1 - int (length (contents d)) \<and>
    (\<exists>r d' s'. write_locked d buf cnt s = Some (r, d', s') \<and> dev_inv d' \<and>
      (if r < 0 then r = - EFAULT \<and> contents d' = contents d
       else contents d' = contents d @ map buf [0..<nat r] \<and> r \<le> cnt \<and>
         (0 < cnt \<longrightarrow> spacefree d \<noteq> 0 \<longrightarrow> 0 < r)))"
  by (rule write_locked_step [OF assms, of buf s]) (use spacefree_eq [OF assms(1)] in auto)

theorem pipe_write_branches_witness:
  "spacefree tiny_dev = 99 - int (length (contents tiny_dev)) \<and>
   (\<exists>r d' s'. write_locked tiny_dev (\<lambda>_. 7) 50 all_zero = Some (r, d', s') \<and> dev_inv d')"
proof -
  have "dev_inv tiny_dev" by (simp add: dev_inv_def tiny_dev_def)
  from pipe_write_branches [OF this, of 50 "\<lambda>_. 7" all_zero] show ?thesis by auto
qed

text \<open>
  C8: Loading and removing the pipe module any number of times, with any module parameters and any failures of the
  kernel calls, leaves the resources as they were exactly if \<open>cdev_add\<close> and \<open>create_proc_read_entry\<close> succeeded in every
  load that got to them. A failure before them makes \<open>my_init\<close> undo what it did; their own results are
  ignored: if one of them fails the load still reports success, and \<open>my_exit\<close> then gives back a registration that is not held.
\<close>

theorem pipe_module_no_leak:
  assumes "resources s = Some H" "Proc ''proc_pipe'' \<notin># H" "\<forall>p. Cdev p \<notin># H"
  shows "resources (reload my_init my_exit gs s) = (if all_registered gs s then Some H else None)"
  using assms by (intro reload_resources)

text \<open>A load that gets no device numbers followed by one that succeeds; and a load where \<open>cdev_add\<close> fails.\<close>

theorem pipe_module_no_leak_witness:
  "(let g = \<lparr>major = 50, dev = 0, the_dev = tiny_dev\<rparr> in
    resources (reload my_init my_exit [g, g]
      \<lparr>answers = (\<lambda>n. if n = 2 then - 1 else if n = 5 \<or> n = 6 then 0 else 4096 * (1 + int n)), ncalls = 0, klog = []\<rparr>) = Some {#} \<and>
    resources (reload my_init my_exit [g]
      \<lparr>answers = (\<lambda>n. if n = 2 then 0 else if n = 3 then - ENOMEM else 4096 * (1 + int n)), ncalls = 0, klog = []\<rparr>) = None)"
proof -
  let ?g = "\<lparr>major = 50, dev = 0, the_dev = tiny_dev\<rparr>"
  let ?s = "\<lparr>answers = (\<lambda>n. if n = 2 then - 1 else if n = 5 \<or> n = 6 then 0 else 4096 * (1 + int n)), ncalls = 0, klog = []\<rparr>"
  let ?t = "\<lparr>answers = (\<lambda>n. if n = 2 then 0 else if n = 3 then - ENOMEM else 4096 * (1 + int n)), ncalls = 0, klog = []\<rparr>"
  have none: "resources ?s = Some {#}" "resources ?t = Some {#}" by (simp_all add: resources_def)
  have "all_registered [?g, ?g] ?s"
    by (simp add: my_init_def my_exit_def registered_def kdefs ask_def answered_def call_def Let_def)
  moreover have "\<not> all_registered [?g] ?t"
    by (simp add: my_init_def my_exit_def registered_def kdefs ask_def answered_def call_def Let_def)
  ultimately show ?thesis
    using pipe_module_no_leak [OF none(1), of "[?g, ?g]"] pipe_module_no_leak [OF none(2), of "[?g]"]
    by (simp only: Let_def if_True if_False) simp
qed

end
