(* ===== verification/Pipe_Sched.thy ===== *)
theory Pipe_Sched
  imports Pipe
begin

text \<open>
  The blocking part of \<open>src/protect/pipe.c\<close>: any number of processes inside \<open>my_read\<close>, \<open>my_write\<close>
  and the reset \<open>ioctl\<close>, the semaphore \<open>mysem\<close> and the two wait queues. A process is at one of the
  points where the code can be preempted; one step takes one process to its next point.

  \<open>wait_event_interruptible\<close> puts the caller on the queue before it evaluates the condition, so
  evaluating the condition to false and going to sleep is one step. \<open>wake_up\<close> sends every sleeper
  of the queue back to evaluate its condition. A signal makes \<open>down_interruptible\<close> and
  \<open>wait_event_interruptible\<close> return an error.
\<close>

subsection \<open>Processes\<close>

datatype op = Rd int | Wr "nat \<Rightarrow> byte" int | Reset

datatype pc =
    Idle
  | Down op        \<comment> \<open>in \<open>down_interruptible\<close>\<close>
  | Holds op       \<comment> \<open>owns \<open>mysem\<close>, before the test of the waiting loop\<close>
  | Test op        \<comment> \<open>gave \<open>mysem\<close> back, about to evaluate the condition\<close>
  | Sleep op       \<comment> \<open>asleep on the queue of its operation\<close>
  | Wake op int    \<comment> \<open>transfer done and \<open>mysem\<close> given back, before \<open>wake_up\<close>\<close>
  | Ret int

text \<open>\<open>arrived\<close> and \<open>delivered\<close> record the bytes accepted and handed out since the last reset.\<close>

record sys =
  pdev :: mydev
  mysem :: nat
  pcs :: "nat \<Rightarrow> pc"
  arrived :: "byte list"
  delivered :: "byte list"

fun ready :: "mydev \<Rightarrow> op \<Rightarrow> bool" where
  "ready d (Rd n) \<longleftrightarrow> d_wp d \<noteq> d_rp d"
| "ready d (Wr buf n) \<longleftrightarrow> spacefree d \<noteq> 0"
| "ready d Reset \<longleftrightarrow> True"

fun requested :: "op \<Rightarrow> int" where
  "requested (Rd n) = n"
| "requested (Wr buf n) = n"
| "requested Reset = 0"

fun is_rd :: "op \<Rightarrow> bool" where
  "is_rd (Rd n) = True"
| "is_rd _ = False"

fun is_wr :: "op \<Rightarrow> bool" where
  "is_wr (Wr buf n) = True"
| "is_wr _ = False"

text \<open>\<open>wake_up\<close> on the queue whose sleepers satisfy \<open>q\<close>.\<close>

definition wake_up :: "(op \<Rightarrow> bool) \<Rightarrow> (nat \<Rightarrow> pc) \<Rightarrow> nat \<Rightarrow> pc" where
  "wake_up q p j = (case p j of Sleep x \<Rightarrow> if q x then Test x else Sleep x | _ \<Rightarrow> p j)"

inductive pipe_step :: "sys \<Rightarrow> sys \<Rightarrow> bool" where
  enter: "pcs s i = Idle \<Longrightarrow> 0 \<le> requested x \<Longrightarrow>
     pipe_step s (s\<lparr>pcs := (pcs s)(i := Down x)\<rparr>)"
| down: "pcs s i = Down x \<Longrightarrow> mysem s = Suc n \<Longrightarrow>
     pipe_step s (s\<lparr>mysem := n, pcs := (pcs s)(i := Holds x)\<rparr>)"
| down_signal: "pcs s i = Down x \<Longrightarrow>
     pipe_step s (s\<lparr>pcs := (pcs s)(i := Ret (- ERESTARTSYS))\<rparr>)"
| must_wait: "pcs s i = Holds x \<Longrightarrow> \<not> ready (pdev s) x \<Longrightarrow>
     pipe_step s (s\<lparr>mysem := Suc (mysem s), pcs := (pcs s)(i := Test x)\<rparr>)"
| condition: "pcs s i = Test x \<Longrightarrow> ready (pdev s) x \<Longrightarrow>
     pipe_step s (s\<lparr>pcs := (pcs s)(i := Down x)\<rparr>)"
| sleep: "pcs s i = Test x \<Longrightarrow> \<not> ready (pdev s) x \<Longrightarrow>
     pipe_step s (s\<lparr>pcs := (pcs s)(i := Sleep x)\<rparr>)"
| signal: "pcs s i = Sleep x \<Longrightarrow>
     pipe_step s (s\<lparr>pcs := (pcs s)(i := Ret (- ERESTARTSYS))\<rparr>)"
| read_ok: "pcs s i = Holds (Rd n) \<Longrightarrow> ready (pdev s) (Rd n) \<Longrightarrow>
     read_locked (pdev s) n w = Some (r, out, d', w') \<Longrightarrow> 0 \<le> r \<Longrightarrow>
     pipe_step s (s\<lparr>pdev := d', mysem := Suc (mysem s), delivered := delivered s @ out,
       pcs := (pcs s)(i := Wake (Rd n) r)\<rparr>)"
| read_fault: "pcs s i = Holds (Rd n) \<Longrightarrow> ready (pdev s) (Rd n) \<Longrightarrow>
     read_locked (pdev s) n w = Some (r, out, d', w') \<Longrightarrow> r < 0 \<Longrightarrow>
     pipe_step s (s\<lparr>pdev := d', mysem := Suc (mysem s), pcs := (pcs s)(i := Ret r)\<rparr>)"
| write_ok: "pcs s i = Holds (Wr buf n) \<Longrightarrow> ready (pdev s) (Wr buf n) \<Longrightarrow>
     write_locked (pdev s) buf n w = Some (r, d', w') \<Longrightarrow> 0 \<le> r \<Longrightarrow>
     pipe_step s (s\<lparr>pdev := d', mysem := Suc (mysem s), arrived := arrived s @ map buf [0..<nat r],
       pcs := (pcs s)(i := Wake (Wr buf n) r)\<rparr>)"
| write_fault: "pcs s i = Holds (Wr buf n) \<Longrightarrow> ready (pdev s) (Wr buf n) \<Longrightarrow>
     write_locked (pdev s) buf n w = Some (r, d', w') \<Longrightarrow> r < 0 \<Longrightarrow>
     pipe_step s (s\<lparr>pdev := d', mysem := Suc (mysem s), pcs := (pcs s)(i := Ret r)\<rparr>)"
| wake_writers: "pcs s i = Wake (Rd n) r \<Longrightarrow>
     pipe_step s (s\<lparr>pcs := (wake_up is_wr (pcs s))(i := Ret r)\<rparr>)"
| wake_readers: "pcs s i = Wake (Wr buf n) r \<Longrightarrow>
     pipe_step s (s\<lparr>pcs := (wake_up is_rd (pcs s))(i := Ret r)\<rparr>)"
| reset: "pcs s i = Holds Reset \<Longrightarrow> my_ioctl (pdev s) PIPE_RESET 0 = (r, d') \<Longrightarrow>
     pipe_step s (s\<lparr>pdev := d', mysem := Suc (mysem s), arrived := [], delivered := [],
       pcs := (pcs s)(i := Ret r)\<rparr>)"
| leave: "pcs s i = Ret r \<Longrightarrow> pipe_step s (s\<lparr>pcs := (pcs s)(i := Idle)\<rparr>)"

inductive_cases pipe_stepE: "pipe_step s t"

text \<open>The state after a successful \<open>my_init\<close> whose buffer is at address \<open>b\<close>.\<close>

definition fresh_dev :: "addr \<Rightarrow> mydev" where
  "fresh_dev b = \<lparr>d_start = b, d_end = b + BUF_LEN, d_wp = b, d_rp = b, nreaders = 0, nwriters = 0,
     d_mem = replicate (nat BUF_LEN) 0\<rparr>"

definition init_sys :: "addr \<Rightarrow> sys" where
  "init_sys b = \<lparr>pdev = fresh_dev b, mysem = 1, pcs = (\<lambda>_. Idle), arrived = [], delivered = []\<rparr>"

inductive reachable :: "addr \<Rightarrow> sys \<Rightarrow> bool" for b where
  start: "reachable b (init_sys b)"
| more: "reachable b s \<Longrightarrow> pipe_step s t \<Longrightarrow> reachable b t"

subsection \<open>The invariant\<close>

definition holders :: "(nat \<Rightarrow> pc) \<Rightarrow> nat set" where
  "holders p = {i. \<exists>x. p i = Holds x}"

text \<open>The semaphore is a mutex: it is taken exactly when one process is in the critical section.\<close>

definition sem_inv :: "sys \<Rightarrow> bool" where
  "sem_inv s \<longleftrightarrow>
     (mysem s = 1 \<and> holders (pcs s) = {}) \<or> (mysem s = 0 \<and> (\<exists>i. holders (pcs s) = {i}))"

fun wf_pc :: "pc \<Rightarrow> bool" where
  "wf_pc (Down x) \<longleftrightarrow> 0 \<le> requested x"
| "wf_pc (Holds x) \<longleftrightarrow> 0 \<le> requested x"
| "wf_pc (Test x) \<longleftrightarrow> 0 \<le> requested x"
| "wf_pc (Sleep x) \<longleftrightarrow> 0 \<le> requested x"
| "wf_pc _ \<longleftrightarrow> True"

definition stream_inv :: "sys \<Rightarrow> bool" where
  "stream_inv s \<longleftrightarrow> (\<forall>i. wf_pc (pcs s i)) \<and> dev_inv (pdev s) \<and>
     arrived s = delivered s @ contents (pdev s)"

text \<open>
  A sleeper whose condition has become true is about to be woken: by a writer for a sleeping
  reader, by a reader for a sleeping writer.
\<close>

definition sleeping :: "(op \<Rightarrow> bool) \<Rightarrow> (nat \<Rightarrow> pc) \<Rightarrow> bool" where
  "sleeping q p \<longleftrightarrow> (\<exists>i x. p i = Sleep x \<and> q x)"

definition waking :: "(op \<Rightarrow> bool) \<Rightarrow> (nat \<Rightarrow> pc) \<Rightarrow> bool" where
  "waking q p \<longleftrightarrow> (\<exists>i x r. p i = Wake x r \<and> q x)"

definition readers_inv :: "sys \<Rightarrow> bool" where
  "readers_inv s \<longleftrightarrow>
     (sleeping is_rd (pcs s) \<longrightarrow> d_wp (pdev s) \<noteq> d_rp (pdev s) \<longrightarrow> waking is_wr (pcs s))"

definition writers_inv :: "sys \<Rightarrow> bool" where
  "writers_inv s \<longleftrightarrow>
     (sleeping is_wr (pcs s) \<longrightarrow> spacefree (pdev s) \<noteq> 0 \<longrightarrow> waking is_rd (pcs s))"

lemma wake_up_Holds [simp]: "wake_up q p j = Holds x \<longleftrightarrow> p j = Holds x"
  by (auto simp: wake_up_def split: pc.splits)

lemma wake_up_Wake [simp]: "wake_up q p j = Wake x r \<longleftrightarrow> p j = Wake x r"
  by (auto simp: wake_up_def split: pc.splits)

lemma wake_up_Sleep [simp]: "wake_up q p j = Sleep x \<longleftrightarrow> p j = Sleep x \<and> \<not> q x"
  by (auto simp: wake_up_def split: pc.splits)

lemma wake_up_wf [simp]: "wf_pc (wake_up q p j) \<longleftrightarrow> wf_pc (p j)"
  by (auto simp: wake_up_def split: pc.splits)

lemma holders_upd [simp]:
  "holders (p(i := y)) = (if \<exists>x. y = Holds x then insert i (holders p) else holders p - {i})"
  by (auto simp: holders_def)

lemma holders_wake_up [simp]: "holders (wake_up q p) = holders p"
  by (simp add: holders_def)

lemma holders_in: "p i = Holds x \<Longrightarrow> i \<in> holders p"
  by (auto simp: holders_def)

lemma holders_skip: "(\<forall>x. p i \<noteq> Holds x) \<Longrightarrow> holders p - {i} = holders p"
  by (auto simp: holders_def)

lemma wf_requested:
  assumes "\<forall>i. wf_pc (p i)" "p i \<in> {Down x, Holds x, Test x, Sleep x}"
  shows "0 \<le> requested x"
  using assms(2) spec [OF assms(1), of i] by auto

lemma step_sem_inv: "pipe_step s t \<Longrightarrow> sem_inv s \<Longrightarrow> sem_inv t"
  by (induction rule: pipe_step.induct) (auto simp: sem_inv_def holders_skip dest: holders_in)

lemma dev_inv_reset: "dev_inv d \<Longrightarrow> dev_inv (reset d) \<and> contents (reset d) = []"
  by (simp add: dev_inv_def reset_def contents_def ring_def)

lemma my_ioctl_reset [simp]: "my_ioctl d PIPE_RESET 0 = (0, reset d)"
  by (simp add: my_ioctl_def PIPE_RESET_def PIPE_def IOC_TYPE_def)

lemma step_stream_inv: "pipe_step s t \<Longrightarrow> stream_inv s \<Longrightarrow> stream_inv t"
proof (induction rule: pipe_step.induct)
  case (read_ok s i n w r out d' w')
  then have "dev_inv (pdev s)" "d_wp (pdev s) \<noteq> d_rp (pdev s)" "0 \<le> n"
    by (auto simp: stream_inv_def dest: spec [of _ i])
  then show ?case
    by (rule read_locked_step [of _ n w]) (use read_ok in \<open>auto simp: stream_inv_def\<close>)
next
  case (read_fault s i n w r out d' w')
  then have "dev_inv (pdev s)" "d_wp (pdev s) \<noteq> d_rp (pdev s)" "0 \<le> n"
    by (auto simp: stream_inv_def dest: spec [of _ i])
  then show ?case
    by (rule read_locked_step [of _ n w]) (use read_fault in \<open>auto simp: stream_inv_def\<close>)
next
  case (write_ok s i buf n w r d' w')
  then have "dev_inv (pdev s)" "0 \<le> n"
    by (auto simp: stream_inv_def dest: spec [of _ i])
  then show ?case
    by (rule write_locked_step [of _ n buf w]) (use write_ok in \<open>auto simp: stream_inv_def\<close>)
next
  case (write_fault s i buf n w r d' w')
  then have "dev_inv (pdev s)" "0 \<le> n"
    by (auto simp: stream_inv_def dest: spec [of _ i])
  then show ?case
    by (rule write_locked_step [of _ n buf w]) (use write_fault in \<open>auto simp: stream_inv_def\<close>)
next
  case (reset s i r d')
  then show ?case using dev_inv_reset [of "pdev s"] by (auto simp: stream_inv_def)
qed (auto simp: stream_inv_def intro: wf_requested)

text \<open>How one process moving changes who sleeps and who is about to wake others.\<close>

lemma sleeping_upd:
  "sleeping q (p(i := y)) \<Longrightarrow> (\<exists>x. y = Sleep x \<and> q x) \<or> sleeping q p"
  by (auto simp: sleeping_def split: if_splits)

lemma waking_upd: "waking q p \<Longrightarrow> (\<forall>x r. p i = Wake x r \<longrightarrow> \<not> q x) \<Longrightarrow> waking q (p(i := y))"
  unfolding waking_def by force

lemma waking_new: "q x \<Longrightarrow> waking q (p(i := Wake x r))"
  unfolding waking_def by (intro exI [of _ i] exI [of _ x] exI [of _ r]) simp

lemma sleeping_wake_up: "sleeping q (wake_up q' p) \<Longrightarrow> sleeping q p \<and> q \<noteq> q'"
  by (auto simp: sleeping_def)

lemma waking_wake_up [simp]: "waking q (wake_up q' p) \<longleftrightarrow> waking q p"
  by (simp add: waking_def)

lemma is_rd_iff: "is_rd x \<longleftrightarrow> (\<exists>n. x = Rd n)"
  by (cases x) auto

lemma is_wr_iff: "is_wr x \<longleftrightarrow> (\<exists>buf n. x = Wr buf n)"
  by (cases x) auto

lemma is_rd_not_is_wr [simp]: "is_rd x \<Longrightarrow> \<not> is_wr x"
  by (cases x) auto

lemmas wakeup_rules = sleeping_upd sleeping_wake_up
lemmas waking_rules = waking_upd waking_new

lemma ready_rd: "is_rd x \<Longrightarrow> ready d x \<longleftrightarrow> d_wp d \<noteq> d_rp d"
  by (cases x) auto

lemma ready_wr: "is_wr x \<Longrightarrow> ready d x \<longleftrightarrow> spacefree d \<noteq> 0"
  by (cases x) auto

lemma step_readers_inv: "pipe_step s t \<Longrightarrow> stream_inv s \<Longrightarrow> readers_inv s \<Longrightarrow> readers_inv t"
proof (induction rule: pipe_step.induct)
  case (write_fault s i buf n w r d' w')
  then have a: "dev_inv (pdev s)" "0 \<le> n"
    by (auto simp: stream_inv_def dest: spec [of _ i])
  then have "d_wp d' = d_rp d' \<longleftrightarrow> d_wp (pdev s) = d_rp (pdev s)"
    by (rule write_locked_step [of _ n buf w]) (use write_fault a in \<open>simp flip: contents_empty_iff\<close>)
  then show ?case
    using write_fault by (auto simp: readers_inv_def dest!: wakeup_rules intro!: waking_rules)
next
  case (reset s i r d')
  then show ?case by (auto simp: readers_inv_def reset_def)
next
  case (read_ok s i n w r out d' w')
  then show ?case by (auto simp: readers_inv_def dest!: wakeup_rules intro!: waking_upd)
qed (auto simp: readers_inv_def ready_rd dest!: wakeup_rules intro!: waking_rules)

lemma step_writers_inv:
  "pipe_step s t \<Longrightarrow> stream_inv s \<Longrightarrow> (\<forall>i. pcs s i \<noteq> Holds Reset) \<Longrightarrow> writers_inv s \<Longrightarrow> writers_inv t"
proof (induction rule: pipe_step.induct)
  case (read_fault s i n w r out d' w')
  then have "dev_inv (pdev s)" "d_wp (pdev s) \<noteq> d_rp (pdev s)" "0 \<le> n"
    by (auto simp: stream_inv_def dest: spec [of _ i])
  then have "d' = pdev s"
    by (rule read_locked_step [of _ n w]) (use read_fault in auto)
  then show ?case
    using read_fault by (auto simp: writers_inv_def dest!: wakeup_rules intro!: waking_rules)
next
  case (write_fault s i buf n w r d' w')
  then have a: "dev_inv (pdev s)" "0 \<le> n"
    by (auto simp: stream_inv_def dest: spec [of _ i])
  then have "spacefree d' = spacefree (pdev s)"
    by (rule write_locked_step [of _ n buf w]) (use write_fault a in \<open>simp add: spacefree_eq\<close>)
  then show ?case
    using write_fault by (auto simp: writers_inv_def dest!: wakeup_rules intro!: waking_rules)
next
  case (write_ok s i buf n w r d' w')
  then show ?case by (auto simp: writers_inv_def dest!: wakeup_rules intro!: waking_upd)
qed (auto simp: writers_inv_def ready_wr dest!: wakeup_rules intro!: waking_rules)

subsection \<open>Reachable states\<close>

lemma fresh_dev_inv: "dev_inv (fresh_dev b)" "contents (fresh_dev b) = []"
  by (simp_all add: dev_inv_def fresh_dev_def contents_def ring_def)

lemma init_sys_inv:
  "sem_inv (init_sys b)" "stream_inv (init_sys b)" "readers_inv (init_sys b)" "writers_inv (init_sys b)"
  using fresh_dev_inv [of b]
  by (auto simp: init_sys_def sem_inv_def holders_def stream_inv_def readers_inv_def writers_inv_def
    sleeping_def)

lemma reachable_inv: "reachable b s \<Longrightarrow> sem_inv s \<and> stream_inv s \<and> readers_inv s"
  by (induction rule: reachable.induct)
     (auto simp: init_sys_inv intro: step_sem_inv step_stream_inv step_readers_inv)

text \<open>The same, for runs in which no process issues the reset.\<close>

inductive reachable_nr :: "addr \<Rightarrow> sys \<Rightarrow> bool" for b where
  nr_start: "reachable_nr b (init_sys b)"
| nr_more: "reachable_nr b s \<Longrightarrow> pipe_step s t \<Longrightarrow> \<forall>i. pcs t i \<noteq> Down Reset \<Longrightarrow> reachable_nr b t"

lemma reachable_nr_reachable: "reachable_nr b s \<Longrightarrow> reachable b s"
  by (induction rule: reachable_nr.induct) (auto intro: reachable.intros)

lemma reachable_nr_no_reset: "reachable_nr b s \<Longrightarrow> \<forall>i. pcs s i \<noteq> Down Reset \<and> pcs s i \<noteq> Holds Reset"
proof (induction rule: reachable_nr.induct)
  case nr_start
  show ?case by (simp add: init_sys_def)
next
  case (nr_more s t)
  from nr_more(2,1,3,4) show ?case
    by (induction rule: pipe_step.induct) (auto split: if_splits)
qed

lemma reachable_nr_writers: "reachable_nr b s \<Longrightarrow> writers_inv s"
proof (induction rule: reachable_nr.induct)
  case nr_start
  show ?case by (rule init_sys_inv)
next
  case (nr_more s t)
  then show ?case
    using reachable_nr_no_reset [OF nr_more(1)] reachable_inv [OF reachable_nr_reachable [OF nr_more(1)]]
    by (auto intro: step_writers_inv)
qed

subsection \<open>A run that strands a writer\<close>

text \<open>
  A writer fills the buffer, a second one goes to sleep, a third process resets the pipe. The reset
  makes room but does not call \<open>wake_up\<close> on the writers' queue.
\<close>

abbreviation zeros :: "nat \<Rightarrow> byte" where "zeros \<equiv> \<lambda>_. 0"

definition full_dev :: "addr \<Rightarrow> mydev" where
  "full_dev b = (fresh_dev b)\<lparr>d_wp := b + 99\<rparr>"

lemma write_fills: "\<exists>w'. write_locked (fresh_dev b) zeros 99 all_zero = Some (99, full_dev b, w')"
proof -
  have "write_locked (fresh_dev b) zeros 99 all_zero =
      Some (99, advance_wp ((fresh_dev b)\<lparr>d_mem := overwrite (replicate 100 0) 0 (map zeros [0..<99])\<rparr>) 99,
        answered (Copy_from_user 99 0) all_zero)"
    by (simp add: write_locked_def write_count_def spacefree_def fresh_dev_def kdefs store_def Let_def)
  moreover have "overwrite (replicate 100 0) 0 (map zeros [0..<99]) = replicate 100 0"
    by (simp add: overwrite_def map_replicate_const numeral_eq_Suc)
  ultimately show ?thesis
    by (simp add: advance_wp_def fresh_dev_def full_dev_def)
qed

lemma full_dev_ready [simp]: "\<not> ready (full_dev b) (Wr zeros 1)"
  by (simp add: full_dev_def fresh_dev_def spacefree_def)

definition stranded :: "addr \<Rightarrow> sys" where
  "stranded b = \<lparr>pdev = fresh_dev b, mysem = 1,
     pcs = (\<lambda>_. Idle)(0 := Ret 99, 1 := Sleep (Wr zeros 1), 2 := Ret 0), arrived = [], delivered = []\<rparr>"

lemma more_eq: "reachable b s \<Longrightarrow> pipe_step s t \<Longrightarrow> t = u \<Longrightarrow> reachable b u"
  by (auto intro: more)

lemma stranded_reachable: "reachable b (stranded b)"
proof -
  obtain w' where w: "write_locked (fresh_dev b) zeros 99 all_zero = Some (99, full_dev b, w')"
    using write_fills by blast
  have rdy: "ready (fresh_dev b) (Wr zeros 99)" by (simp add: fresh_dev_def spacefree_def)
  have rst: "my_ioctl (full_dev b) PIPE_RESET 0 = (0, fresh_dev b)"
    by (simp add: full_dev_def fresh_dev_def reset_def)
  let ?s = "\<lambda>d m p a. \<lparr>pdev = d, mysem = m, pcs = p, arrived = a, delivered = []\<rparr> :: sys"
  let ?I = "(\<lambda>_. Idle) :: nat \<Rightarrow> pc" and ?z = "map zeros [0..<99]"
  let ?x = "Wr zeros 99" and ?y = "Wr zeros 1" and ?f = "full_dev b" and ?e = "fresh_dev b"
  let ?J = "?I(0 := Ret 99)" and ?K = "?I(0 := Ret 99, 1 := Sleep (Wr zeros 1))"
  have wk: "(wake_up is_rd (?I(0 := Wake ?x 99)))(0 := Ret 99) = ?J"
    by (simp add: fun_eq_iff wake_up_def)
  have "reachable b (?s ?e 1 ?I [])" using start [of b] by (simp add: init_sys_def)
  from more_eq [OF this enter [of _ 0 ?x]] have "reachable b (?s ?e 1 (?I(0 := Down ?x)) [])" by simp
  from more_eq [OF this down [of _ 0 ?x 0]] have "reachable b (?s ?e 0 (?I(0 := Holds ?x)) [])" by simp
  from more_eq [OF this write_ok [of _ 0 zeros 99 all_zero 99 ?f w']] rdy w
  have "reachable b (?s ?f 1 (?I(0 := Wake ?x 99)) ?z)" by simp
  from more_eq [OF this wake_readers [of _ 0 zeros 99 99]]
  have "reachable b (?s ?f 1 ?J ?z)" by (simp add: wk)
  from more_eq [OF this enter [of _ 1 ?y]] have "reachable b (?s ?f 1 (?J(1 := Down ?y)) ?z)" by simp
  from more_eq [OF this down [of _ 1 ?y 0]] have "reachable b (?s ?f 0 (?J(1 := Holds ?y)) ?z)" by simp
  from more_eq [OF this must_wait [of _ 1 ?y]] have "reachable b (?s ?f 1 (?J(1 := Test ?y)) ?z)"
    using full_dev_ready [of b] by simp
  from more_eq [OF this sleep [of _ 1 ?y]] have "reachable b (?s ?f 1 ?K ?z)"
    using full_dev_ready [of b] by simp
  from more_eq [OF this enter [of _ 2 Reset]] have "reachable b (?s ?f 1 (?K(2 := Down Reset)) ?z)" by simp
  from more_eq [OF this down [of _ 2 Reset 0]] have "reachable b (?s ?f 0 (?K(2 := Holds Reset)) ?z)" by simp
  from more_eq [OF this reset [of _ 2 0 ?e]] rst show ?thesis by (simp add: stranded_def)
qed

subsection \<open>Further runs\<close>

lemma holding_reachable: "reachable b (init_sys b\<lparr>mysem := 0, pcs := (\<lambda>_. Idle)(0 := Holds (Rd 1))\<rparr>)"
proof -
  from more_eq [OF start [of b] enter [of _ 0 "Rd 1"]]
  have "reachable b (init_sys b\<lparr>pcs := (\<lambda>_. Idle)(0 := Down (Rd 1))\<rparr>)" by (simp add: init_sys_def)
  from more_eq [OF this down [of _ 0 "Rd 1" 0]] show ?thesis by (simp add: init_sys_def)
qed

text \<open>A reader asleep, and a writer that has filled the buffer and not woken it yet.\<close>

definition woken_soon :: "addr \<Rightarrow> sys" where
  "woken_soon b = \<lparr>pdev = full_dev b, mysem = 1,
     pcs = (\<lambda>_. Idle)(0 := Sleep (Rd 1), 1 := Wake (Wr zeros 99) 99),
     arrived = map zeros [0..<99], delivered = []\<rparr>"

lemma woken_soon_reachable: "reachable b (woken_soon b)"
proof -
  obtain w' where w: "write_locked (fresh_dev b) zeros 99 all_zero = Some (99, full_dev b, w')"
    using write_fills by blast
  have rdy: "ready (fresh_dev b) (Wr zeros 99)" "\<not> ready (fresh_dev b) (Rd 1)"
    by (simp_all add: fresh_dev_def spacefree_def)
  let ?s = "\<lambda>d m p a. \<lparr>pdev = d, mysem = m, pcs = p, arrived = a, delivered = []\<rparr> :: sys"
  let ?I = "(\<lambda>_. Idle) :: nat \<Rightarrow> pc" and ?x = "Wr zeros 99" and ?e = "fresh_dev b"
  let ?J = "?I(0 := Sleep (Rd 1))"
  have "reachable b (?s ?e 1 ?I [])" using start [of b] by (simp add: init_sys_def)
  from more_eq [OF this enter [of _ 0 "Rd 1"]] have "reachable b (?s ?e 1 (?I(0 := Down (Rd 1))) [])" by simp
  from more_eq [OF this down [of _ 0 "Rd 1" 0]] have "reachable b (?s ?e 0 (?I(0 := Holds (Rd 1))) [])" by simp
  from more_eq [OF this must_wait [of _ 0 "Rd 1"]] rdy have "reachable b (?s ?e 1 (?I(0 := Test (Rd 1))) [])" by simp
  from more_eq [OF this sleep [of _ 0 "Rd 1"]] rdy have "reachable b (?s ?e 1 ?J [])" by simp
  from more_eq [OF this enter [of _ 1 ?x]] have "reachable b (?s ?e 1 (?J(1 := Down ?x)) [])" by simp
  from more_eq [OF this down [of _ 1 ?x 0]] have "reachable b (?s ?e 0 (?J(1 := Holds ?x)) [])" by simp
  from more_eq [OF this write_ok [of _ 1 zeros 99 all_zero 99 "full_dev b" w']] rdy w
  show ?thesis by (simp add: woken_soon_def)
qed

text \<open>A writer asleep on the full buffer, and a reader that has taken a byte and not woken it yet.\<close>

definition room_soon :: "addr \<Rightarrow> sys" where
  "room_soon b = \<lparr>pdev = (full_dev b)\<lparr>d_rp := b + 1\<rparr>, mysem = 1,
     pcs = (\<lambda>_. Idle)(0 := Ret 99, 1 := Sleep (Wr zeros 1), 2 := Wake (Rd 1) 1),
     arrived = map zeros [0..<99], delivered = [0]\<rparr>"

lemma more_nr: "reachable_nr b s \<Longrightarrow> pipe_step s t \<Longrightarrow> \<forall>i. pcs t i \<noteq> Down Reset \<Longrightarrow> t = u \<Longrightarrow> reachable_nr b u"
  by (auto intro: nr_more)

lemma room_soon_reachable: "reachable_nr b (room_soon b)"
proof -
  obtain w' where w: "write_locked (fresh_dev b) zeros 99 all_zero = Some (99, full_dev b, w')"
    using write_fills by blast
  obtain w2 where r: "read_locked (full_dev b) 1 all_zero = Some (1, [0], (full_dev b)\<lparr>d_rp := b + 1\<rparr>, w2)"
    by (simp add: read_locked_def read_count_def advance_rp_def full_dev_def fresh_dev_def kdefs load_def
        Let_def numeral_eq_Suc)
  have rdy: "ready (fresh_dev b) (Wr zeros 99)" "ready (full_dev b) (Rd 1)"
    by (simp_all add: fresh_dev_def full_dev_def spacefree_def)
  let ?s = "\<lambda>d m p a. \<lparr>pdev = d, mysem = m, pcs = p, arrived = a, delivered = []\<rparr> :: sys"
  let ?I = "(\<lambda>_. Idle) :: nat \<Rightarrow> pc" and ?z = "map zeros [0..<99]"
  let ?x = "Wr zeros 99" and ?y = "Wr zeros 1" and ?f = "full_dev b" and ?e = "fresh_dev b"
  let ?J = "?I(0 := Ret 99)" and ?K = "?I(0 := Ret 99, 1 := Sleep (Wr zeros 1))"
  have wk: "(wake_up is_rd (?I(0 := Wake ?x 99)))(0 := Ret 99) = ?J"
    by (simp add: fun_eq_iff wake_up_def)
  have "reachable_nr b (?s ?e 1 ?I [])" using nr_start [of b] by (simp add: init_sys_def)
  from more_nr [OF this enter [of _ 0 ?x]] have "reachable_nr b (?s ?e 1 (?I(0 := Down ?x)) [])" by simp
  from more_nr [OF this down [of _ 0 ?x 0]] have "reachable_nr b (?s ?e 0 (?I(0 := Holds ?x)) [])" by simp
  from more_nr [OF this write_ok [of _ 0 zeros 99 all_zero 99 ?f w']] rdy w
  have "reachable_nr b (?s ?f 1 (?I(0 := Wake ?x 99)) ?z)" by simp
  from more_nr [OF this wake_readers [of _ 0 zeros 99 99]]
  have "reachable_nr b (?s ?f 1 ?J ?z)" by (simp add: wk)
  from more_nr [OF this enter [of _ 1 ?y]] have "reachable_nr b (?s ?f 1 (?J(1 := Down ?y)) ?z)" by simp
  from more_nr [OF this down [of _ 1 ?y 0]] have "reachable_nr b (?s ?f 0 (?J(1 := Holds ?y)) ?z)" by simp
  from more_nr [OF this must_wait [of _ 1 ?y]] have "reachable_nr b (?s ?f 1 (?J(1 := Test ?y)) ?z)"
    using full_dev_ready [of b] by simp
  from more_nr [OF this sleep [of _ 1 ?y]] have "reachable_nr b (?s ?f 1 ?K ?z)"
    using full_dev_ready [of b] by simp
  from more_nr [OF this enter [of _ 2 "Rd 1"]] have "reachable_nr b (?s ?f 1 (?K(2 := Down (Rd 1))) ?z)" by simp
  from more_nr [OF this down [of _ 2 "Rd 1" 0]] have "reachable_nr b (?s ?f 0 (?K(2 := Holds (Rd 1))) ?z)" by simp
  from more_nr [OF this read_ok [of _ 2 1 all_zero 1 "[0]" "?f\<lparr>d_rp := b + 1\<rparr>" w2]] rdy r
  show ?thesis by (simp add: room_soon_def)
qed

subsection \<open>Properties\<close>

text \<open>
  C1: In every state that any interleaving of readers, writers and resets can reach, the bytes
  handed to readers since the last reset followed by the bytes in the ring are exactly the bytes
  accepted from writers, in order, and both ring pointers are inside the buffer.
\<close>

theorem pipe_stream:
  assumes "reachable b s"
  shows "arrived s = delivered s @ contents (pdev s) \<and> dev_inv (pdev s)"
  using reachable_inv [OF assms] by (simp add: stream_inv_def)

theorem pipe_stream_witness:
  "arrived (woken_soon 4096) = delivered (woken_soon 4096) @ contents (pdev (woken_soon 4096)) \<and>
   dev_inv (pdev (woken_soon 4096))"
  by (rule pipe_stream [OF woken_soon_reachable])

text \<open>
  C2: The semaphore keeps the critical sections of reads, writes and resets apart: no reachable
  state has two processes inside.
\<close>

theorem pipe_mutual_exclusion:
  assumes "reachable b s" "pcs s i = Holds x" "pcs s j = Holds y"
  shows "i = j"
proof -
  from reachable_inv [OF assms(1)] have "sem_inv s" by blast
  moreover have "i \<in> holders (pcs s)" "j \<in> holders (pcs s)"
    using assms(2,3) by (auto simp: holders_def)
  ultimately show ?thesis by (auto simp: sem_inv_def)
qed

theorem pipe_mutual_exclusion_witness:
  "(0::nat) = 0 \<and> reachable 4096 (init_sys 4096\<lparr>mysem := 0, pcs := (\<lambda>_. Idle)(0 := Holds (Rd 1))\<rparr>)"
  using pipe_mutual_exclusion [OF holding_reachable [of 4096], of 0 "Rd 1" 0 "Rd 1"] holding_reachable
  by simp

text \<open>
  C3: No wake-up of a reader is lost: when a reader sleeps although the ring has data, some writer
  has finished its transfer and is about to call \<open>wake_up (&dev->readq)\<close>. This holds with resets.
\<close>

theorem pipe_reader_wakeup:
  assumes "reachable b s" "pcs s i = Sleep (Rd n)" "d_wp (pdev s) \<noteq> d_rp (pdev s)"
  shows "\<exists>j buf m r. pcs s j = Wake (Wr buf m) r"
proof -
  from reachable_inv [OF assms(1)] have "readers_inv s" by blast
  moreover from assms(2) have "sleeping is_rd (pcs s)" unfolding sleeping_def by force
  ultimately show ?thesis
    using assms(3) by (auto simp: readers_inv_def waking_def is_wr_iff)
qed

theorem pipe_reader_wakeup_witness: "\<exists>j buf m r. pcs (woken_soon 4096) j = Wake (Wr buf m) r"
  by (rule pipe_reader_wakeup [OF woken_soon_reachable, where i = 0 and n = 1])
     (simp_all add: woken_soon_def full_dev_def fresh_dev_def)

text \<open>
  C4: As long as no process issues the reset, no wake-up of a writer is lost either: when a writer
  sleeps although there is room, some reader is about to call \<open>wake_up (&dev->writeq)\<close>.
\<close>

theorem pipe_writer_wakeup:
  assumes "reachable_nr b s" "pcs s i = Sleep (Wr buf n)" "spacefree (pdev s) \<noteq> 0"
  shows "\<exists>j m r. pcs s j = Wake (Rd m) r"
proof -
  from reachable_nr_writers [OF assms(1)] have "writers_inv s" .
  moreover from assms(2) have "sleeping is_wr (pcs s)" unfolding sleeping_def by force
  ultimately show ?thesis
    using assms(3) by (auto simp: writers_inv_def waking_def is_rd_iff)
qed

theorem pipe_writer_wakeup_witness: "\<exists>j m r. pcs (room_soon 4096) j = Wake (Rd m) r"
  by (rule pipe_writer_wakeup [OF room_soon_reachable, where i = 1 and buf = zeros and n = 1])
     (simp_all add: room_soon_def full_dev_def fresh_dev_def spacefree_def)

text \<open>
  C5: The reset breaks this: wherever the buffer lies, a state is reachable in which a writer sleeps,
  the whole ring is free and no process is about to wake anybody, since \<open>PIPE_RESET\<close> empties the
  ring without waking the writers' queue.
\<close>

theorem pipe_reset_strands_writer:
  "\<exists>s i buf n. reachable b s \<and> pcs s i = Sleep (Wr buf n) \<and> spacefree (pdev s) = BUF_LEN - 1 \<and>
     (\<forall>j x r. pcs s j \<noteq> Wake x r \<and> pcs s j \<noteq> Holds x)"
  by (rule exI [of _ "stranded b"], rule exI [of _ 1], rule exI [of _ zeros], rule exI [of _ 1])
     (simp add: stranded_reachable, simp add: stranded_def fresh_dev_def spacefree_def)

end
