(* ===== verification/Pipe_Users.thy ===== *)
theory Pipe_Users
  imports Pipe_Sched Kernel_Text
begin

text \<open>
  The programs that use the pipe device, \<open>protect/user_read.c\<close> and \<open>protect/user_ioctl.c\<close>, run when no other process holds
  the semaphore: from opening the device to closing it at the end of the program. A program that would go to sleep is
  \<open>None\<close>.
\<close>

definition pipe_user_read :: "inode \<Rightarrow> kfile option \<Rightarrow> mydev \<Rightarrow> kworld \<Rightarrow> (int \<times> string \<times> byte list \<times> mydev) option" where
  "pipe_user_read inode filp d s =
     (case filp of None \<Rightarrow> Some (1, ''Cannot open /dev/char0'' @ [CHR 0x0A], [], d)
      | Some filp \<Rightarrow>
          (let (_, filp, d) = my_open inode (filp\<lparr>fmode_read := True, fmode_write := False\<rparr>) d in
           if d_wp d = d_rp d then None
           else do {
             (ret, out, d, s) \<leftarrow> read_locked d 20 s;
             let (_, d) = my_release inode filp d;
             Some (0, ''Read '' @ fmt_d (if ret < 0 then - 1 else ret) @ '' bytes'' @ [CHR 0x0A], out, d)
           }))"

definition user_ioctl :: "inode \<Rightarrow> kfile option \<Rightarrow> int \<Rightarrow> mydev \<Rightarrow> int \<times> string \<times> mydev" where
  "user_ioctl inode filp down d =
     (case filp of None \<Rightarrow> (1, ''Cannot open /dev/pipe'', d)
      | Some filp \<Rightarrow>
          (let (_, filp, d) = my_open inode (filp\<lparr>fmode_read := True, fmode_write := True\<rparr>) d;
             (ret, d) = my_ioctl d PIPE_RESET down in
           if ret \<noteq> 0 then (1, ''pipe reset error.'', snd (my_release inode filp d))
           else (0, ''Pipe reset ok.'' @ [CHR 0x0A], snd (my_release inode filp d))))"

text \<open>Opening and closing change the counters only, and leave them as they were.\<close>

lemma user_ioctl_result:
  "user_ioctl inode (Some filp) down d =
    (if down \<noteq> 0 then (1, ''pipe reset error.'', d) else (0, ''Pipe reset ok.'' @ [CHR 0x0A], reset d))"
  by (simp add: user_ioctl_def my_open_def my_release_def my_ioctl_def PIPE_RESET_def IOC_TYPE_def PIPE_def reset_def Let_def)

lemma user_ioctl_empties:
  assumes "dev_inv d" "user_ioctl inode (Some filp) 0 d = (st, msg, d')"
  shows "st = 0" "dev_inv d'" "contents d' = []" "nreaders d' = nreaders d" "nwriters d' = nwriters d"
  using assms(2) dev_inv_reset [OF assms(1)] by (auto simp: user_ioctl_result reset_def)

text \<open>
  The reading program takes what it reports, up to twenty bytes and not past the end of the ring's memory, from
  the front of the pipe.
\<close>

lemma pipe_user_read_takes:
  assumes "dev_inv d" "contents d \<noteq> []" "ask s = 0"
  shows "\<exists>out d'. pipe_user_read inode (Some filp) d s =
      Some (0, ''Read '' @ fmt_d (int (length out)) @ '' bytes'' @ [CHR 0x0A], out, d') \<and>
    contents d = out @ contents d' \<and> 0 < length out \<and> length out \<le> 20 \<and> dev_inv d' \<and>
    nreaders d' = nreaders d \<and> nwriters d' = nwriters d"
proof -
  let ?d = "d\<lparr>nreaders := nreaders d + 1\<rparr>"
  have inv: "dev_inv ?d" using assms(1) by (simp add: dev_inv_def)
  have same: "contents ?d = contents d" "d_wp ?d \<noteq> d_rp ?d"
    using contents_empty_iff [OF assms(1)] assms(2) by (simp_all add: contents_def)
  obtain out e where g: "get 20 ?d = (out, e)" by fastforce
  obtain s' where rd: "read_locked ?d 20 s = Some (int (length out), out, e, s')"
    using read_locked_get [OF inv assms(3) same(2), of 20] g by auto
  have e: "dev_inv e" "contents d = out @ contents e"
    using pipe.get_inv [OF inv g] pipe.get_contents [OF inv g] same(1) by simp_all
  have cnt: "nreaders e = nreaders d + 1" "nwriters e = nwriters d"
    using g same(2) by (auto simp: get_def advance_rp_def Let_def split: if_splits)
  have "0 < read_count ?d 20" "read_count ?d 20 \<le> 20" "d_rp d + read_count ?d 20 \<le> d_end d"
    using inv same(2) by (auto simp: read_count_eq [OF inv same(2)] dev_inv_def)
  moreover have "length out = min (length (d_mem d) - r_off d) (nat (read_count ?d 20))"
    using g same(2) by (auto simp: get_def Let_def)
  ultimately have out: "0 < length out" "length out \<le> 20"
    using assms(1) by (auto simp: dev_inv_def)
  let ?e = "e\<lparr>nreaders := nreaders d\<rparr>"
  have "dev_inv ?e" "contents ?e = contents e" using e(1) by (simp_all add: dev_inv_def contents_def)
  moreover have "pipe_user_read inode (Some filp) d s =
      Some (0, ''Read '' @ fmt_d (int (length out)) @ '' bytes'' @ [CHR 0x0A], out, ?e)"
    using same(2) rd cnt by (simp add: pipe_user_read_def my_open_def my_release_def Let_def)
  ultimately show ?thesis using e(2) out cnt by auto
qed

end
