(* ===== verification/Wait_Char.thy ===== *)
theory Wait_Char
  imports Mychar
begin

text \<open>
  The blocking memory device of \<open>time/my_wait.c\<close> (and its identical copy \<open>my_wait2.c\<close>): the device
  of \<open>Mychar\<close> with a wait queue. A reader at the write pointer sleeps until a writer has appended
  something. Opening, closing, loading and unloading are the functions of \<open>Mychar\<close>; there is no lock,
  so the processes are interleaved at the points where they can sleep or be woken.
\<close>

subsection \<open>The operations\<close>

text \<open>Before the wait: what ends the call at once, and what \<open>wait_event_interruptible\<close> waits for.\<close>

definition read_ends :: "mydev \<Rightarrow> int \<Rightarrow> int \<Rightarrow> bool" where
  "read_ends priv cnt pos = (cnt = 0 \<or> pos + d_start priv = d_end priv)"

definition has_data :: "mydev \<Rightarrow> int \<Rightarrow> bool" where
  "has_data priv pos = (d_wp priv - d_start priv - pos \<noteq> 0)"

text \<open>\<open>wait\<close> is what \<open>wait_event_interruptible\<close> returns if the reader has to wait.\<close>

definition my_read :: "mydev \<Rightarrow> int \<Rightarrow> int \<Rightarrow> int \<Rightarrow> kworld \<Rightarrow> (int \<times> int \<times> byte list \<times> kworld) option" where
  "my_read priv wait cnt pos s =
     (if cnt = 0 then Some (cnt, pos, [], s)
      else if pos + d_start priv = d_end priv then Some (0, pos, [], s)
      else
        let ret = (if d_wp priv - d_start priv - pos = 0 then wait else 0) in
        if ret \<noteq> 0 then Some (- ERESTARTSYS, pos, [], s)
        else
          let cnt = min cnt (size_t (d_wp priv - d_start priv - pos)) in
          if cnt = 0 then Some (cnt, pos, [], s)
          else do {
            src \<leftarrow> load (d_start priv) (d_mem priv) (d_start priv + pos) cnt;
            let (r, out, s) = copy_to_user src s in
            if r \<noteq> 0 then Some (- EFAULT, pos, out, s)
            else Some (cnt, pos + cnt, out, s)
          })"

text \<open>The flag tells whether the call reaches \<open>wake_up\<close>.\<close>

definition my_write :: "mydev \<Rightarrow> (nat \<Rightarrow> byte) \<Rightarrow> int \<Rightarrow> kworld \<Rightarrow> (int \<times> bool \<times> mydev \<times> kworld) option" where
  "my_write priv buf cnt s =
     (let cnt = min cnt (size_t (d_end priv - d_wp priv)) in
      if cnt = 0 then Some (cnt, False, priv, s)
      else let (r, data, s) = copy_from_user buf (nat cnt) s in do {
        mem \<leftarrow> store (d_start priv) (d_mem priv) (d_wp priv) data;
        let priv = priv\<lparr>d_mem := mem\<rparr> in
        if r \<noteq> 0 then Some (- EFAULT, False, priv, s)
        else Some (cnt, True, priv\<lparr>d_wp := d_wp priv + cnt\<rparr>, s)
      })"

definition my_init :: "globals \<Rightarrow> kworld \<Rightarrow> int \<times> globals \<times> kworld" where
  "my_init g s =
     (let (p, s) = kzalloc (Sizeof ''mydev'') s; g = g\<lparr>dev := p\<rparr> in
      if p = 0 then (- ENOMEM, g, s)
      else
        let (b, s) = kzalloc (Bytes BUF_LEN) s in
        if b = 0 then (- ENOMEM, g, kfree p s)
        else
          let g = g\<lparr>the_dev := \<lparr>d_start = b, d_end = b + BUF_LEN, d_wp = b,
                d_mem = replicate (nat BUF_LEN) 0\<rparr>\<rparr>;
              (ret, dev_num, g, s) =
                (if major g \<noteq> 0 then
                   let (ret, s) = register_chrdev_region (MKDEV (major g) 0) 20 s
                   in (ret, MKDEV (major g) 0, g, s)
                 else
                   let (ret, dev_num, s) = alloc_chrdev_region 0 20 s
                   in (ret, dev_num, g\<lparr>major := MAJOR dev_num\<rparr>, s))
          in if ret \<noteq> 0 then (- 1, g, kfree p (kfree b s))
             else (0, g, cdev_add p dev_num 1 s))"

definition my_exit :: "globals \<Rightarrow> kworld \<Rightarrow> kworld" where
  "my_exit g s =
     kfree (dev g) (kfree (d_start (the_dev g))
       (unregister_chrdev_region (MKDEV (major g) 0) 20 (cdev_del (dev g) s)))"

subsection \<open>The functions shared with the plain device\<close>

text \<open>Once there is something to read, reading is that of the plain device; so is writing.\<close>

lemma my_read_plain:
  assumes "has_data priv pos" "\<not> read_ends priv cnt pos"
  shows "my_read priv wait cnt pos s = Mychar.my_read priv cnt pos s"
  using assms by (simp add: my_read_def Mychar.my_read_def has_data_def read_ends_def)

lemma my_write_plain:
  "map_option (\<lambda>(r, w, d, s). (r, d, s)) (my_write priv buf cnt s) = Mychar.my_write priv buf cnt s"
  by (auto simp: my_write_def Mychar.my_write_def Let_def map_option_case split: prod.splits Option.bind_splits
      option.splits)

lemma wait_module_plain: "my_init = Mychar.my_init" "my_exit = Mychar.my_exit"
  by (auto simp: fun_eq_iff my_init_def Mychar.my_init_def my_exit_def Mychar.my_exit_def Let_def
      split: prod.splits)

lemma my_write_wakes:
  assumes "dev_inv d" "0 \<le> cnt" "my_write d buf cnt s = Some (r, w, d', s')"
  shows "dev_inv d'" "w \<longleftrightarrow> 0 < r" "\<not> w \<Longrightarrow> d_wp d' = d_wp d" "d_start d' = d_start d" "d_end d' = d_end d"
proof -
  have p: "Mychar.my_write d buf cnt s = Some (r, d', s')"
    using my_write_plain [of d buf cnt s] assms(3) by simp
  from my_write_step [OF assms(1,2), of buf s] p
  show "dev_inv d'" "d_start d' = d_start d" "d_end d' = d_end d" by auto
  have "size_t (d_end d - d_wp d) = d_end d - d_wp d"
    using assms(1) by (intro size_t_id) (auto simp: dev_inv_def)
  then show "w \<longleftrightarrow> 0 < r" "\<not> w \<Longrightarrow> d_wp d' = d_wp d"
    using assms by (auto simp: my_write_def Let_def dev_inv_def split: if_splits prod.splits Option.bind_splits)
qed

subsection \<open>Readers and writers\<close>

datatype wpc =
    Idle
  | Test int int      \<comment> \<open>in \<open>my_read\<close> with this count and position, about to look at the write pointer\<close>
  | Asleep int int    \<comment> \<open>on the wait queue\<close>
  | Wakes int         \<comment> \<open>in \<open>my_write\<close>, pointer advanced, before \<open>wake_up\<close>\<close>
  | Done int

record wsys =
  wdev :: mydev
  wpcs :: "nat \<Rightarrow> wpc"

definition wake_all :: "(nat \<Rightarrow> wpc) \<Rightarrow> nat \<Rightarrow> wpc" where
  "wake_all p j = (case p j of Asleep cnt pos \<Rightarrow> Test cnt pos | x \<Rightarrow> x)"

inductive wait_step :: "wsys \<Rightarrow> wsys \<Rightarrow> bool" where
  read_enter: "wpcs y i = Idle \<Longrightarrow> 0 \<le> cnt \<Longrightarrow> 0 \<le> pos \<Longrightarrow> \<not> read_ends (wdev y) cnt pos \<Longrightarrow>
     wait_step y (y\<lparr>wpcs := (wpcs y)(i := Test cnt pos)\<rparr>)"
| read_now: "wpcs y i = Test cnt pos \<Longrightarrow> has_data (wdev y) pos \<Longrightarrow>
     my_read (wdev y) 0 cnt pos s = Some (r, pos', out, s') \<Longrightarrow>
     wait_step y (y\<lparr>wpcs := (wpcs y)(i := Done r)\<rparr>)"
| read_sleep: "wpcs y i = Test cnt pos \<Longrightarrow> \<not> has_data (wdev y) pos \<Longrightarrow>
     wait_step y (y\<lparr>wpcs := (wpcs y)(i := Asleep cnt pos)\<rparr>)"
| read_signal: "wpcs y i = Asleep cnt pos \<Longrightarrow>
     wait_step y (y\<lparr>wpcs := (wpcs y)(i := Done (- ERESTARTSYS))\<rparr>)"
| append: "wpcs y i = Idle \<Longrightarrow> 0 \<le> cnt \<Longrightarrow> my_write (wdev y) buf cnt s = Some (r, w, d', s') \<Longrightarrow>
     wait_step y (y\<lparr>wdev := d', wpcs := (wpcs y)(i := if w then Wakes r else Done r)\<rparr>)"
| wake: "wpcs y i = Wakes r \<Longrightarrow>
     wait_step y (y\<lparr>wpcs := (wake_all (wpcs y))(i := Done r)\<rparr>)"
| leave: "wpcs y i = Done r \<Longrightarrow> wait_step y (y\<lparr>wpcs := (wpcs y)(i := Idle)\<rparr>)"

inductive_cases wait_stepE: "wait_step y z"

text \<open>A reader that sleeps although there is data is about to be woken by a writer.\<close>

definition wait_inv :: "wsys \<Rightarrow> bool" where
  "wait_inv y \<longleftrightarrow> dev_inv (wdev y) \<and>
     (\<forall>i cnt pos. wpcs y i = Asleep cnt pos \<and> has_data (wdev y) pos \<longrightarrow> (\<exists>j r. wpcs y j = Wakes r))"

lemma wake_all_simps [simp]:
  "wake_all p j = Asleep cnt pos \<longleftrightarrow> False" "wake_all p j = Wakes r \<longleftrightarrow> p j = Wakes r"
  by (auto simp: wake_all_def split: wpc.splits)

lemma wait_inv_keep:
  assumes "wait_inv y" "\<And>r. wpcs y i \<noteq> Wakes r" "\<And>cnt pos. x = Asleep cnt pos \<Longrightarrow> \<not> has_data (wdev y) pos"
  shows "wait_inv (y\<lparr>wpcs := (wpcs y)(i := x)\<rparr>)"
  using assms unfolding wait_inv_def by (auto split: if_splits) metis

lemma wait_step_inv: "wait_step y z \<Longrightarrow> wait_inv y \<Longrightarrow> wait_inv z"
proof (induction rule: wait_step.induct)
  case (append y i cnt buf s r w d' s')
  then have inv: "dev_inv (wdev y)" by (simp add: wait_inv_def)
  note 1 = my_write_wakes [OF inv append(2,3)]
  show ?case
  proof (cases w)
    case True
    then have "\<exists>j r'. ((wpcs y)(i := Wakes r)) j = Wakes r'" by auto
    with True 1(1) show ?thesis by (auto simp: wait_inv_def)
  next
    case False
    with 1 have "has_data d' pos = has_data (wdev y) pos" for pos by (simp add: has_data_def)
    with wait_inv_keep [OF append(4), of i "Done r"] append(1) 1(1) False show ?thesis
      by (simp add: wait_inv_def)
  qed
next
  case (wake y i r)
  then show ?case by (auto simp: wait_inv_def)
qed (auto intro!: wait_inv_keep)

text \<open>
  No wake-up is lost: in every state reachable from an idle device, a reader asleep at a position
  where there is data is about to be woken, and a state in which every process is idle or asleep
  has no data for any sleeper.
\<close>

lemma wait_no_lost_wakeup:
  assumes "wait_step\<^sup>*\<^sup>* \<lparr>wdev = d, wpcs = (\<lambda>_. Idle)\<rparr> y" "dev_inv d"
    and "\<forall>j r. wpcs y j \<noteq> Wakes r" "wpcs y i = Asleep cnt pos"
  shows "\<not> has_data (wdev y) pos"
proof -
  have "wait_inv y"
    using assms(1)
  proof (induction rule: rtranclp_induct)
    case base
    show ?case using assms(2) by (simp add: wait_inv_def)
  qed (rule wait_step_inv)
  with assms(3,4) show ?thesis by (auto simp: wait_inv_def)
qed

end
