(* ===== verification/Usb_Skel.thy ===== *)
theory Usb_Skel
  imports Interfaces
begin

text \<open>
  The USB driver of \<open>src/usb/usb-skeleton.c\<close>: probing and disconnecting, opening and closing,
  buffered bulk reads with one URB, and bulk writes with at most eight URBs in flight.

  The fields of \<open>struct usb_skel\<close> are kept; \<open>in_mem\<close> is the memory at \<open>bulk_in_buffer\<close>, \<open>in_len\<close> the
  transfer length of \<open>bulk_in_urb\<close>, and the anchor \<open>submitted\<close> is the list of the write URBs in
  flight. The USB core calls back with a status and data; what it reports is an argument.
\<close>

subsection \<open>Data\<close>

abbreviation (input) MAX_TRANSFER :: int where "MAX_TRANSFER \<equiv> 4096 - 512"
abbreviation (input) WRITES_IN_FLIGHT :: int where "WRITES_IN_FLIGHT \<equiv> 8"

record endpoint =
  is_bulk_in :: bool
  is_bulk_out :: bool
  bEndpointAddress :: byte
  maxp :: int

record wurb =
  w_urb :: addr
  w_buf :: addr
  w_data :: "byte list"

record usb_skel =
  self :: addr  \<comment> \<open>the address of the structure\<close>
  udev :: addr
  interface :: addr
  limit_sem :: int
  submitted :: "wurb list"
  bulk_in_urb :: addr
  bulk_in_buffer :: addr
  bulk_in_size :: int
  bulk_in_filled :: int
  bulk_in_copied :: int
  bulk_in_endpointAddr :: byte
  bulk_out_endpointAddr :: byte
  errors :: int
  ongoing_read :: bool
  kref :: int
  io_mutex :: bool
  in_mem :: "byte list"
  in_len :: int

subsection \<open>Reference counting\<close>

definition skel_delete :: "usb_skel \<Rightarrow> kworld \<Rightarrow> kworld" where
  "skel_delete dev s =
     (let s = giveback_obj ''usb_free_urb'' ''urb'' (bulk_in_urb dev) s;
        s = giveback_obj ''usb_put_dev'' ''usb_device'' (udev dev) s;
        s = kfree (bulk_in_buffer dev) s
      in kfree (self dev) s)"

text \<open>\<open>None\<close> is a structure that has been freed.\<close>

definition kref_put :: "usb_skel \<Rightarrow> kworld \<Rightarrow> usb_skel option \<times> kworld" where
  "kref_put dev s =
     (let dev = dev\<lparr>kref := kref dev - 1\<rparr>
      in if kref dev = 0 then (None, skel_delete dev s) else (Some dev, s))"

subsection \<open>Opening and closing\<close>

text \<open>
  \<open>found\<close> is what \<open>usb_find_interface\<close> returns for the minor number, \<open>intfdata\<close> the structure
  \<open>usb_get_intfdata\<close> returns.
\<close>

definition skel_open :: "addr \<Rightarrow> usb_skel option \<Rightarrow> kfile \<Rightarrow> kworld \<Rightarrow>
    int \<times> usb_skel option \<times> kfile \<times> kworld" where
  "skel_open found intfdata filp s =
     (if found = 0 then (- ENODEV, intfdata, filp, s)
      else case intfdata of None \<Rightarrow> (- ENODEV, intfdata, filp, s)
      | Some dev \<Rightarrow>
          (let (retval, s) = status_call ''usb_autopm_get_interface'' s in
           if retval \<noteq> 0 then (retval, Some dev, filp, s)
           else (retval, Some (dev\<lparr>kref := kref dev + 1\<rparr>), filp\<lparr>private_data := self dev\<rparr>, s)))"

definition skel_release :: "usb_skel option \<Rightarrow> kworld \<Rightarrow> int \<times> usb_skel option \<times> kworld" where
  "skel_release priv s =
     (case priv of None \<Rightarrow> (- ENODEV, None, s)
      | Some dev \<Rightarrow>
          (let s = (if interface dev \<noteq> 0 then call (Plain ''usb_autopm_put_interface'' (interface dev)) s else s);
             (dev, s) = kref_put dev s
           in (0, dev, s)))"

subsection \<open>Completion of URBs\<close>

text \<open>
  The \<open>dev_err\<close> for a status that is no unlinking only prints; every status is recorded. (It prints the name of
  \<open>dev->interface\<close>, which is \<open>NULL\<close> after a disconnect; by then the USB core has ended the interface's URBs, with an
  unlinking status.) The second result says that the callback has woken the queue \<open>bulk_in_wait\<close>.
\<close>

definition skel_read_bulk_callback :: "int \<Rightarrow> int \<Rightarrow> usb_skel \<Rightarrow> usb_skel \<times> bool" where
  "skel_read_bulk_callback status actual_length dev =
     (let dev = (if status \<noteq> 0 then dev\<lparr>errors := status\<rparr> else dev\<lparr>bulk_in_filled := actual_length\<rparr>);
        dev = dev\<lparr>ongoing_read := False\<rparr>;
        wake_up_bulk_in_wait = True
      in (dev, wake_up_bulk_in_wait))"

definition complete_read :: "int \<Rightarrow> byte list \<Rightarrow> usb_skel \<Rightarrow> usb_skel \<times> bool" where
  "complete_read status data dev =
     skel_read_bulk_callback status (int (length data)) (dev\<lparr>in_mem := overwrite (in_mem dev) 0 data\<rparr>)"

definition skel_write_bulk_callback :: "int \<Rightarrow> wurb \<Rightarrow> usb_skel \<Rightarrow> kworld \<Rightarrow> usb_skel \<times> kworld" where
  "skel_write_bulk_callback status u dev s =
     (let dev = (if status \<noteq> 0 then dev\<lparr>errors := status\<rparr> else dev);
        s = giveback_obj ''usb_free_coherent'' ''coherent'' (w_buf u) s
      in (dev\<lparr>limit_sem := limit_sem dev + 1\<rparr>, s))"

text \<open>The core takes the oldest URB off the anchor and calls back; \<open>sts\<close> are the statuses.\<close>

fun complete_writes :: "int list \<Rightarrow> usb_skel \<Rightarrow> kworld \<Rightarrow> usb_skel \<times> kworld" where
  "complete_writes [] dev s = (dev, s)"
| "complete_writes (st # sts) dev s =
     (case submitted dev of [] \<Rightarrow> (dev, s)
      | u # us \<Rightarrow>
          (let (dev, s) = skel_write_bulk_callback st u (dev\<lparr>submitted := us\<rparr>) s
           in complete_writes sts dev s))"

definition usb_kill_anchored_urbs :: "usb_skel \<Rightarrow> kworld \<Rightarrow> usb_skel \<times> kworld" where
  "usb_kill_anchored_urbs dev s = complete_writes (replicate (length (submitted dev)) (- ENOENT)) dev s"

definition usb_kill_in_urb :: "usb_skel \<Rightarrow> usb_skel" where
  "usb_kill_in_urb dev = (if ongoing_read dev then fst (complete_read (- ENOENT) [] dev) else dev)"

text \<open>
  Waiting for the anchor to become empty: on success every write in flight has completed, with the
  statuses \<open>st 0\<close>, \<open>st 1\<close>, ...; after the timeout (0) the rest is killed.
\<close>

definition skel_draw_down :: "(nat \<Rightarrow> int) \<Rightarrow> usb_skel \<Rightarrow> kworld \<Rightarrow> usb_skel \<times> kworld" where
  "skel_draw_down st dev s =
     (let (time, s) = status_call ''usb_wait_anchor_empty_timeout'' s;
        (dev, s) = (if time = 0 then usb_kill_anchored_urbs dev s
                    else complete_writes (map st [0..<length (submitted dev)]) dev s)
      in (usb_kill_in_urb dev, s))"

definition skel_flush :: "(nat \<Rightarrow> int) \<Rightarrow> usb_skel option \<Rightarrow> kworld \<Rightarrow> int \<times> usb_skel option \<times> kworld" where
  "skel_flush st priv s =
     (case priv of None \<Rightarrow> (- ENODEV, None, s)
      | Some dev \<Rightarrow>
          (let (dev, s) = skel_draw_down st dev s;
             res = (if errors dev \<noteq> 0 then (if errors dev = - EPIPE then - EPIPE else - EIO) else 0)
           in (res, Some (dev\<lparr>errors := 0\<rparr>), s)))"

subsection \<open>Reading\<close>

definition skel_do_read_io :: "usb_skel \<Rightarrow> int \<Rightarrow> kworld \<Rightarrow> int \<times> usb_skel \<times> kworld" where
  "skel_do_read_io dev cnt s =
     (let dev = dev\<lparr>in_len := min (bulk_in_size dev) cnt\<rparr>;
        dev = dev\<lparr>ongoing_read := True\<rparr>;
        dev = dev\<lparr>bulk_in_filled := 0, bulk_in_copied := 0\<rparr>;
        (rv, s) = status_call ''usb_submit_urb'' s
      in if rv < 0 then (if rv = - ENOMEM then rv else - EIO, dev\<lparr>ongoing_read := False\<rparr>, s)
         else (rv, dev, s))"

datatype read_outcome = Exit int "byte list" | Retry

text \<open>The body of \<open>skel_read\<close> after the wait, up to the exit or the jump to \<open>retry\<close>.\<close>

definition start_io :: "usb_skel \<Rightarrow> int \<Rightarrow> kworld \<Rightarrow> read_outcome \<times> usb_skel \<times> kworld" where
  "start_io dev cnt s =
     (let (rv, dev, s) = skel_do_read_io dev cnt s in (if rv < 0 then Exit rv [] else Retry, dev, s))"

definition read_data :: "usb_skel \<Rightarrow> int \<Rightarrow> kworld \<Rightarrow> (read_outcome \<times> usb_skel \<times> kworld) option" where
  "read_data dev cnt s =
     (if errors dev < 0 then
        Some (Exit (if errors dev = - EPIPE then errors dev else - EIO) [], dev\<lparr>errors := 0\<rparr>, s)
      else if bulk_in_filled dev \<noteq> 0 then
        (let available = size_t (bulk_in_filled dev - bulk_in_copied dev);
           chunk = min available cnt in
         if available = 0 then Some (start_io dev cnt s)
         else do {
           src \<leftarrow> load (bulk_in_buffer dev) (in_mem dev) (bulk_in_buffer dev + bulk_in_copied dev) chunk;
           let (r, out, s) = copy_to_user src s;
             rv = (if r \<noteq> 0 then - EFAULT else chunk);
             dev = dev\<lparr>bulk_in_copied := bulk_in_copied dev + chunk\<rparr>;
             (dev, s) = (if available < cnt then snd (skel_do_read_io dev (cnt - chunk) s) else (dev, s))
           in Some (Exit rv out, dev, s)
         })
      else Some (start_io dev cnt s))"

text \<open>
  While the reader looks at \<open>ongoing_read\<close> or sleeps, the URB may complete, a signal may arrive, or
  nothing happens.
\<close>

datatype io_event = Completed int "byte list" | Signal | Quiet

text \<open>The reader still sleeps, or leaves with a value, or goes on; with the events that are left.\<close>

datatype wait_result =
    Waiting usb_skel
  | Stop int usb_skel "io_event list"
  | Go usb_skel "io_event list"

text \<open>
  Asleep in \<open>wait_event_interruptible (bulk_in_wait, !ongoing_read)\<close>: the reader runs again only when it is woken, and goes
  on only if the condition holds then; a signal ends the sleep.
\<close>

fun sleep_io :: "io_event list \<Rightarrow> usb_skel \<Rightarrow> wait_result" where
  "sleep_io [] dev = Waiting dev"
| "sleep_io (e # evs) dev =
     (case e of
        Completed st data \<Rightarrow>
          (case complete_read st data dev of (dev, woken) \<Rightarrow>
             if woken \<and> \<not> ongoing_read dev then Go dev evs else sleep_io evs dev)
      | Signal \<Rightarrow> Stop (- ERESTARTSYS) dev evs
      | Quiet \<Rightarrow> sleep_io evs dev)"

text \<open>A non-blocking reader looks once; the transfer may complete just before.\<close>

definition wait_io :: "bool \<Rightarrow> io_event list \<Rightarrow> usb_skel \<Rightarrow> wait_result" where
  "wait_io nonblock evs dev =
     (if \<not> ongoing_read dev then Go dev evs
      else if \<not> nonblock then sleep_io evs dev
      else case evs of
        Completed st data # evs' \<Rightarrow>
          (let dev = fst (complete_read st data dev)
           in if ongoing_read dev then Stop (- EAGAIN) dev evs' else Go dev evs')
      | _ \<Rightarrow> Stop (- EAGAIN) dev evs)"

text \<open>\<open>Blocked\<close>: the reader still sleeps after the last event. \<open>Returned\<close> carries the events left.\<close>

datatype read_result =
    Blocked usb_skel kworld
  | Returned int "byte list" usb_skel "io_event list" kworld

lemma read_data_Retry:
  "read_data dev cnt s = Some (Retry, dev', s') \<Longrightarrow> ongoing_read dev'"
  by (auto simp: read_data_def start_io_def skel_do_read_io_def kdefs Let_def
      split: if_splits Option.bind_splits prod.splits)

lemma sleep_io_Go: "sleep_io evs dev = Go dev' evs' \<Longrightarrow> \<not> ongoing_read dev' \<and> length evs' < length evs"
  by (induction evs arbitrary: dev) (auto simp: less_SucI split: if_splits io_event.splits prod.splits)

lemma wait_io_Go:
  "wait_io nonblock evs dev = Go dev' evs' \<Longrightarrow>
   \<not> ongoing_read dev' \<and> (if ongoing_read dev then length evs' < length evs else evs' = evs \<and> dev' = dev)"
  by (auto simp: wait_io_def Let_def dest: sleep_io_Go split: if_splits io_event.splits list.splits)

function read_retry :: "usb_skel \<Rightarrow> bool \<Rightarrow> int \<Rightarrow> io_event list \<Rightarrow> kworld \<Rightarrow> read_result option" where
  "read_retry dev nonblock cnt evs s =
     (case wait_io nonblock evs dev of
        Waiting dev' \<Rightarrow> Some (Blocked dev' s)
      | Stop rv dev' evs' \<Rightarrow> Some (Returned rv [] dev' evs' s)
      | Go dev' evs' \<Rightarrow>
          (case read_data dev' cnt s of
             None \<Rightarrow> None
           | Some (Exit rv out, dev'', s') \<Rightarrow> Some (Returned rv out dev'' evs' s')
           | Some (Retry, dev'', s') \<Rightarrow> read_retry dev'' nonblock cnt evs' s'))"
  by pat_completeness auto

termination
proof (relation "measure (\<lambda>(dev, nb, cnt, evs, s). 2 * length evs + (if ongoing_read dev then 0 else 1))",
    goal_cases)
  case (2 dev nonblock cnt evs s dev' evs' r o' p dev'' s')
  then have w: "wait_io nonblock evs dev = Go dev' evs'" "ongoing_read dev''"
    by (auto dest: read_data_Retry)
  then show ?case using wait_io_Go [OF w(1)] by (auto split: if_splits)
qed simp

definition skel_read :: "usb_skel \<Rightarrow> bool \<Rightarrow> int \<Rightarrow> io_event list \<Rightarrow> kworld \<Rightarrow> read_result option" where
  "skel_read dev nonblock cnt evs s =
     (if bulk_in_urb dev = 0 \<or> cnt = 0 then Some (Returned 0 [] dev evs s)
      else let (rv, s) = status_call ''mutex_lock_interruptible'' s in
      if rv < 0 then Some (Returned rv [] dev evs s)
      else if interface dev = 0 then Some (Returned (- ENODEV) [] dev evs s)
      else read_retry dev nonblock cnt evs s)"

subsection \<open>Writing\<close>

text \<open>
  The path from the label \<open>error\<close> on. \<open>None\<close> as a result of \<open>skel_write\<close> is a writer that sleeps on
  \<open>limit_sem\<close>; the answer tells whether a signal ends the sleep.
\<close>

definition write_error :: "int \<Rightarrow> addr \<Rightarrow> addr \<Rightarrow> usb_skel \<Rightarrow> kworld \<Rightarrow> int \<times> usb_skel \<times> kworld" where
  "write_error retval urb buf dev s =
     (let s = (if urb \<noteq> 0 then
          let s = giveback_obj ''usb_free_coherent'' ''coherent'' buf s
          in giveback_obj ''usb_free_urb'' ''urb'' urb s
        else s)
      in (retval, dev\<lparr>limit_sem := limit_sem dev + 1\<rparr>, s))"

definition write_locked :: "int \<Rightarrow> (nat \<Rightarrow> byte) \<Rightarrow> usb_skel \<Rightarrow> kworld \<Rightarrow> int \<times> usb_skel \<times> kworld" where
  "write_locked writesize ubuf dev s =
     (let retval = errors dev;
        (retval, dev) = (if retval < 0 then (if retval = - EPIPE then retval else - EIO, dev\<lparr>errors := 0\<rparr>)
                         else (retval, dev)) in
      if retval < 0 then write_error retval 0 0 dev s
      else let (urb, s) = obtain_obj ''usb_alloc_urb'' ''urb'' s in
      if urb = 0 then write_error (- ENOMEM) urb 0 dev s
      else let (buf, s) = obtain_obj ''usb_alloc_coherent'' ''coherent'' s in
      if buf = 0 then write_error (- ENOMEM) urb buf dev s
      else let (r, data, s) = copy_from_user ubuf (nat writesize) s in
      if r \<noteq> 0 then write_error (- EFAULT) urb buf dev s
      else if interface dev = 0 then write_error (- ENODEV) urb buf dev s
      else let (retval, s) = status_call ''usb_submit_urb'' s in
      if retval \<noteq> 0 then write_error retval urb buf dev s
      else (writesize, dev\<lparr>submitted := submitted dev @ [\<lparr>w_urb = urb, w_buf = buf, w_data = data\<rparr>]\<rparr>,
            giveback_obj ''usb_free_urb'' ''urb'' urb s))"

definition skel_write :: "usb_skel \<Rightarrow> bool \<Rightarrow> (nat \<Rightarrow> byte) \<Rightarrow> int \<Rightarrow> kworld \<Rightarrow>
    (int \<times> usb_skel \<times> kworld) option" where
  "skel_write dev nonblock ubuf cnt s =
     (let writesize = min cnt MAX_TRANSFER in
      if cnt = 0 then Some (0, dev, s)
      else if limit_sem dev > 0 then
        Some (write_locked writesize ubuf (dev\<lparr>limit_sem := limit_sem dev - 1\<rparr>) s)
      else if nonblock then Some (- EAGAIN, dev, s)
      else let (r, s) = status_call ''down_interruptible'' s in
      if r \<noteq> 0 then Some (- ERESTARTSYS, dev, s) else None)"

subsection \<open>Probing and disconnecting\<close>

text \<open>
  The first bulk-in endpoint gives the receive buffer and its URB (\<open>True\<close> is the jump to \<open>error\<close>), the
  first bulk-out endpoint only its address. \<open>junk\<close> is what memory from \<open>kmalloc\<close> holds.
\<close>

definition take_bulk_in :: "(nat \<Rightarrow> byte) \<Rightarrow> endpoint \<Rightarrow> usb_skel \<Rightarrow> kworld \<Rightarrow> bool \<times> usb_skel \<times> kworld" where
  "take_bulk_in junk ep dev s =
     (if bulk_in_endpointAddr dev = 0 \<and> is_bulk_in ep then
        let buffer_size = maxp ep;
          dev = dev\<lparr>bulk_in_size := buffer_size, bulk_in_endpointAddr := bEndpointAddress ep\<rparr>;
          (b, s) = kzalloc (Bytes buffer_size) s;
          dev = dev\<lparr>bulk_in_buffer := b, in_mem := map junk [0..<nat buffer_size]\<rparr> in
        if b = 0 then (True, dev, s)
        else let (u, s) = obtain_obj ''usb_alloc_urb'' ''urb'' s; dev = dev\<lparr>bulk_in_urb := u\<rparr> in
        if u = 0 then (True, dev, s) else (False, dev, s)
      else (False, dev, s))"

definition take_bulk_out :: "endpoint \<Rightarrow> usb_skel \<Rightarrow> usb_skel" where
  "take_bulk_out ep dev =
     (if bulk_out_endpointAddr dev = 0 \<and> is_bulk_out ep
      then dev\<lparr>bulk_out_endpointAddr := bEndpointAddress ep\<rparr> else dev)"

fun probe_endpoints :: "(nat \<Rightarrow> byte) \<Rightarrow> endpoint list \<Rightarrow> usb_skel \<Rightarrow> kworld \<Rightarrow> bool \<times> usb_skel \<times> kworld" where
  "probe_endpoints junk [] dev s = (False, dev, s)"
| "probe_endpoints junk (ep # eps) dev s =
     (let (err, dev, s) = take_bulk_in junk ep dev s in
      if err then (True, dev, s)
      else probe_endpoints junk eps (take_bulk_out ep dev) s)"

definition new_skel :: "addr \<Rightarrow> addr \<Rightarrow> addr \<Rightarrow> usb_skel" where
  "new_skel p u intf = \<lparr>self = p, udev = u, interface = intf, limit_sem = WRITES_IN_FLIGHT, submitted = [],
     bulk_in_urb = 0, bulk_in_buffer = 0, bulk_in_size = 0, bulk_in_filled = 0, bulk_in_copied = 0,
     bulk_in_endpointAddr = 0, bulk_out_endpointAddr = 0, errors = 0, ongoing_read = False, kref = 1,
     io_mutex = False, in_mem = [], in_len = 0\<rparr>"

text \<open>
  \<open>usb_get_dev\<close> takes a reference to the device \<open>u\<close> and returns it. The result carries the structure
  that \<open>usb_set_intfdata\<close> leaves with the interface.
\<close>

definition skel_probe :: "(nat \<Rightarrow> byte) \<Rightarrow> addr \<Rightarrow> addr \<Rightarrow> endpoint list \<Rightarrow> kworld \<Rightarrow>
    int \<times> usb_skel option \<times> kworld" where
  "skel_probe junk intf u eps s =
     (let (p, s) = kzalloc (Sizeof ''usb_skel'') s in
      if p = 0 then (- ENOMEM, None, s)
      else let
        s = call (Obtain ''usb_get_dev'' (objs ''usb_device'' u)) s;
        (err, dev, s) = probe_endpoints junk eps (new_skel p u intf) s in
      if err then (- ENOMEM, None, snd (kref_put dev s))
      else if \<not> (bulk_in_endpointAddr dev \<noteq> 0 \<and> bulk_out_endpointAddr dev \<noteq> 0)
      then (- ENOMEM, None, snd (kref_put dev s))
      else let (retval, s) = obtain_if_ok ''usb_register_dev'' ''usb_minor'' intf s in
      if retval \<noteq> 0 then (retval, None, snd (kref_put dev s))
      else (0, Some dev, s))"

text \<open>\<open>intfdata\<close> becomes \<open>NULL\<close>; the structure lives on as long as a file refers to it.\<close>

definition skel_disconnect :: "usb_skel \<Rightarrow> kworld \<Rightarrow> usb_skel option \<times> kworld" where
  "skel_disconnect dev s =
     (let s = call (Giveback ''usb_deregister_dev'' [Obj ''usb_minor'' (interface dev)]) s;
        dev = dev\<lparr>interface := 0\<rparr>;
        (dev, s) = usb_kill_anchored_urbs dev s
      in kref_put dev s)"

subsection \<open>Power management and reset\<close>

text \<open>
  \<open>pre_reset\<close> takes \<open>io_mutex\<close> and \<open>post_reset\<close> releases it. The other operations take and release it
  within one call, so the field is only set between the two.
\<close>

definition skel_suspend :: "(nat \<Rightarrow> int) \<Rightarrow> usb_skel option \<Rightarrow> kworld \<Rightarrow> int \<times> usb_skel option \<times> kworld" where
  "skel_suspend st intfdata s =
     (case intfdata of None \<Rightarrow> (0, None, s)
      | Some dev \<Rightarrow> (let (dev, s) = skel_draw_down st dev s in (0, Some dev, s)))"

definition skel_resume :: "usb_skel \<Rightarrow> int \<times> usb_skel" where
  "skel_resume dev = (0, dev)"

definition skel_pre_reset :: "(nat \<Rightarrow> int) \<Rightarrow> usb_skel \<Rightarrow> kworld \<Rightarrow> int \<times> usb_skel \<times> kworld" where
  "skel_pre_reset st dev s = (let (dev, s) = skel_draw_down st (dev\<lparr>io_mutex := True\<rparr>) s in (0, dev, s))"

definition skel_post_reset :: "usb_skel \<Rightarrow> int \<times> usb_skel" where
  "skel_post_reset dev = (0, dev\<lparr>errors := - EPIPE, io_mutex := False\<rparr>)"

subsection \<open>The read buffer\<close>

text \<open>
  The receive buffer holds what arrived and was not delivered yet. While a transfer is under way
  it holds nothing.
\<close>

definition skel_inv :: "usb_skel \<Rightarrow> bool" where
  "skel_inv d \<longleftrightarrow> 0 \<le> bulk_in_copied d \<and> bulk_in_copied d \<le> bulk_in_filled d \<and>
     bulk_in_filled d \<le> int (length (in_mem d)) \<and> int (length (in_mem d)) < 2 ^ 63 \<and>
     (ongoing_read d \<longrightarrow> bulk_in_filled d = 0)"

definition pending :: "usb_skel \<Rightarrow> byte list" where
  "pending d = take (nat (bulk_in_filled d - bulk_in_copied d)) (drop (nat (bulk_in_copied d)) (in_mem d))"

fun received :: "io_event list \<Rightarrow> byte list" where
  "received [] = []"
| "received (Completed st data # evs) = (if st = 0 then data else []) @ received evs"
| "received (_ # evs) = received evs"

text \<open>The host controller never reports more than fits into the receive buffer.\<close>

definition fits :: "nat \<Rightarrow> io_event list \<Rightarrow> bool" where
  "fits n evs \<longleftrightarrow> (\<forall>e\<in>set evs. case e of Completed st data \<Rightarrow> length data \<le> n | _ \<Rightarrow> True)"

lemma received_append [simp]: "received (xs @ ys) = received xs @ received ys"
  by (induction xs rule: received.induct) auto

lemma ongoing_pending: "skel_inv d \<Longrightarrow> ongoing_read d \<Longrightarrow> pending d = []"
  by (simp add: skel_inv_def pending_def)

lemma complete_read_props:
  assumes "skel_inv d" "ongoing_read d" "length data \<le> length (in_mem d)"
  shows "skel_inv (fst (complete_read st data d))"
    "pending (fst (complete_read st data d)) = (if st = 0 then data else [])"
    "length (in_mem (fst (complete_read st data d))) = length (in_mem d)"
  using assms
  by (auto simp: complete_read_def skel_read_bulk_callback_def skel_inv_def pending_def Let_def overwrite_def)

text \<open>The callback does both things a sleeping reader needs: it clears the condition and wakes.\<close>

lemma complete_read_wakes:
  "\<exists>d'. complete_read st data d = (d', True) \<and> \<not> ongoing_read d' \<and> (st < 0 \<longrightarrow> errors d' < 0)"
  by (simp add: complete_read_def skel_read_bulk_callback_def Let_def)

lemma sleep_io_Completed: "sleep_io (Completed st data # evs) d = Go (fst (complete_read st data d)) evs"
  using complete_read_wakes [of st data d] by auto

text \<open>An event that ends a blocking read.\<close>

fun decisive :: "io_event \<Rightarrow> bool" where
  "decisive (Completed st data) \<longleftrightarrow> st < 0 \<or> st = 0 \<and> data \<noteq> []"
| "decisive Signal \<longleftrightarrow> True"
| "decisive Quiet \<longleftrightarrow> False"

lemma sleep_io_cases:
  assumes "skel_inv d" "ongoing_read d" "fits (length (in_mem d)) evs"
  shows "case sleep_io evs d of
      Waiting d' \<Rightarrow> d' = d \<and> (\<forall>e\<in>set evs. e = Quiet)
    | Stop rv d' evs' \<Rightarrow> d' = d \<and> rv = - ERESTARTSYS \<and> (\<exists>used. evs = used @ evs' \<and> received used = [])
    | Go d' evs' \<Rightarrow> skel_inv d' \<and> length (in_mem d') = length (in_mem d) \<and>
        (\<exists>used. evs = used @ evs' \<and> pending d' = received used \<and>
           (\<not> errors d' < 0 \<longrightarrow> received used = [] \<longrightarrow> (\<forall>e\<in>set used. \<not> decisive e)))"
  using assms
proof (induction evs)
  case (Cons e evs)
  show ?case
  proof (cases e)
    case (Completed st data)
    then have "length data \<le> length (in_mem d)" using Cons.prems(3) by (simp add: fits_def)
    note c = complete_read_props [OF Cons.prems(1,2) this, of st] and w = complete_read_wakes [of st data d]
    show ?thesis
      unfolding Completed sleep_io_Completed
      using c w by (auto intro!: exI [of _ "[Completed st data]"])
  next
    case Signal
    then show ?thesis by (auto intro!: exI [of _ "[Signal]"])
  next
    case Quiet
    have "fits (length (in_mem d)) evs" using Cons.prems(3) by (simp add: fits_def)
    note IH = Cons.IH [OF Cons.prems(1,2) this]
    show ?thesis
    proof (cases "sleep_io evs d")
      case (Stop rv d' evs')
      with IH obtain used where "evs = used @ evs'" "received used = []" by auto
      with IH Stop Quiet show ?thesis by (auto intro!: exI [of _ "Quiet # used"])
    next
      case (Go d' evs')
      with IH obtain used where "evs = used @ evs'" "pending d' = received used"
        "\<not> errors d' < 0 \<longrightarrow> received used = [] \<longrightarrow> (\<forall>e\<in>set used. \<not> decisive e)" by auto
      with IH Go Quiet show ?thesis by (simp add: exI [of _ "Quiet # used"])
    qed (use IH Quiet in auto)
  qed
qed simp

lemma wait_io_cases:
  assumes "skel_inv d" "fits (length (in_mem d)) evs"
  shows "case wait_io nonblock evs d of
      Waiting d' \<Rightarrow> d' = d \<and> ongoing_read d \<and> \<not> nonblock \<and> (\<forall>e\<in>set evs. e = Quiet)
    | Stop rv d' evs' \<Rightarrow> d' = d \<and> pending d = [] \<and> rv \<in> {- ERESTARTSYS, - EAGAIN} \<and>
        (\<exists>used. evs = used @ evs' \<and> received used = [])
    | Go d' evs' \<Rightarrow> skel_inv d' \<and> length (in_mem d') = length (in_mem d) \<and>
        (\<exists>used. evs = used @ evs' \<and> pending d' = pending d @ received used \<and>
           (\<not> errors d' < 0 \<longrightarrow> received used = [] \<longrightarrow> (\<forall>e\<in>set used. \<not> decisive e)))"
proof -
  note sl = sleep_io_cases [OF assms(1) _ assms(2)]
  consider "\<not> ongoing_read d" | "ongoing_read d" "\<not> nonblock"
    | st data evs' where "ongoing_read d" "nonblock" "evs = Completed st data # evs'"
    | "ongoing_read d" "nonblock" "\<forall>st data evs'. evs \<noteq> Completed st data # evs'" by blast
  then show ?thesis
  proof cases
    case 1
    then show ?thesis using assms by (simp add: wait_io_def)
  next
    case 2
    then show ?thesis
      using sl ongoing_pending [OF assms(1)] by (auto simp: wait_io_def split: wait_result.splits)
  next
    case 3
    then have "length data \<le> length (in_mem d)" using assms(2) by (simp add: fits_def)
    note c = complete_read_props [OF assms(1) 3(1) this, of st] and w = complete_read_wakes [of st data d]
    have "wait_io nonblock evs d = Go (fst (complete_read st data d)) evs'"
      using 3 w by (auto simp: wait_io_def)
    then show ?thesis
      using c w ongoing_pending [OF assms(1) 3(1)] 3(3) by (auto intro!: exI [of _ "[Completed st data]"])
  next
    case 4
    then have "wait_io nonblock evs d = Stop (- EAGAIN) d evs"
      by (auto simp: wait_io_def split: list.splits io_event.splits)
    then show ?thesis using ongoing_pending [OF assms(1) 4(1)] by simp
  qed
qed

lemma do_read_io_props:
  assumes "skel_do_read_io d cnt s = (rv, d', s')" "skel_inv d"
  shows "skel_inv d' \<and> pending d' = [] \<and> in_mem d' = in_mem d \<and> (0 \<le> rv \<longleftrightarrow> ongoing_read d')"
  using assms
  by (auto simp: skel_do_read_io_def kdefs skel_inv_def pending_def Let_def split: if_splits)

lemma start_io_props:
  assumes "start_io d cnt s = (oc, d', s')" "skel_inv d"
  shows "skel_inv d' \<and> pending d' = [] \<and> in_mem d' = in_mem d \<and>
    (case oc of Exit rv out \<Rightarrow> rv < 0 \<and> out = [] \<and> rv \<noteq> - EFAULT | Retry \<Rightarrow> True)"
proof -
  obtain rv d1 s1 where io: "skel_do_read_io d cnt s = (rv, d1, s1)"
    by (cases "skel_do_read_io d cnt s")
  moreover have "rv \<noteq> - EFAULT \<or> 0 \<le> rv"
    using io by (auto simp: skel_do_read_io_def kdefs Let_def split: if_splits)
  ultimately show ?thesis
    using do_read_io_props [OF io assms(2)] assms(1) by (auto simp: start_io_def)
qed

text \<open>
  A read that returns has taken a chunk off what there was to read. Unless the copy to user space failed the chunk is
  what was delivered, and the result is its length; if it failed, some of the chunk may have been delivered, but all of it
  has been taken off.
\<close>

definition consumes :: "int \<Rightarrow> byte list \<Rightarrow> int \<Rightarrow> byte list \<Rightarrow> byte list \<Rightarrow> bool" where
  "consumes rv out cnt before after \<longleftrightarrow>
     (\<exists>chunk. before = chunk @ after \<and> int (length chunk) \<le> cnt \<and>
        (if rv = - EFAULT then chunk \<noteq> [] \<and> (\<exists>k. out = take k chunk) else out = chunk) \<and>
        (0 \<le> rv \<longrightarrow> 0 < rv \<and> rv = int (length out)))"

lemma consumes_nothing: "rv < 0 \<Longrightarrow> rv \<noteq> - EFAULT \<Longrightarrow> 0 \<le> cnt \<Longrightarrow> consumes rv [] cnt xs xs"
  by (simp add: consumes_def)

text \<open>One pass through the body.\<close>

lemma read_data_props:
  assumes inv: "skel_inv d" "0 < cnt"
  obtains oc d' s' where "read_data d cnt s = Some (oc, d', s')" "skel_inv d'"
    "length (in_mem d') = length (in_mem d)"
    "\<And>rv out. oc = Exit rv out \<Longrightarrow> consumes rv out cnt (pending d) (pending d')"
    "oc = Retry \<Longrightarrow> pending d = [] \<and> pending d' = [] \<and> \<not> errors d < 0"
proof (cases "errors d < 0")
  case True
  show thesis
    by (rule that [of "Exit (if errors d = - EPIPE then errors d else - EIO) []" "d\<lparr>errors := 0\<rparr>" s])
      (use True inv in \<open>auto simp: read_data_def skel_inv_def pending_def intro!: consumes_nothing\<close>)
next
  case no_err: False
  define av where "av = bulk_in_filled d - bulk_in_copied d"
  have sz: "size_t av = av" "0 \<le> av" using inv(1) by (auto simp: av_def skel_inv_def)
  show thesis
  proof (cases "av = 0")
    case True
    then have empty: "pending d = []" by (simp add: pending_def av_def)
    obtain oc d1 s1 where io: "start_io d cnt s = (oc, d1, s1)" by (cases "start_io d cnt s")
    have "read_data d cnt s = Some (oc, d1, s1)"
      using True no_err sz io by (simp add: read_data_def Let_def av_def [symmetric])
    then show thesis
      by (rule that) (use start_io_props [OF io inv(1)] empty no_err inv(2) in \<open>auto intro!: consumes_nothing\<close>)
  next
    case False
    define ch where "ch = min av cnt"
    have ch: "0 < ch" "ch \<le> av" "ch \<le> cnt" using False sz inv(2) by (auto simp: ch_def)
    let ?src = "take (nat ch) (drop (nat (bulk_in_copied d)) (in_mem d))"
    let ?d1 = "d\<lparr>bulk_in_copied := bulk_in_copied d + ch\<rparr>"
    have ld: "load (bulk_in_buffer d) (in_mem d) (bulk_in_buffer d + bulk_in_copied d) ch = Some ?src"
      using inv(1) ch by (subst load_eq_Some) (auto simp: skel_inv_def av_def)
    have filled: "bulk_in_filled d \<noteq> 0" using False inv(1) by (auto simp: av_def skel_inv_def)
    obtain out s1 where cp: "copy_to_user ?src s = (ask s, out, s1)" "ask s = 0 \<Longrightarrow> out = ?src"
      and cut: "\<exists>k. out = take k ?src"
      by (rule copy_to_user_cases) blast
    have inv1: "skel_inv ?d1" using inv(1) ch by (auto simp: skel_inv_def av_def)
    have n: "nat av = nat ch + nat (av - ch)" "nat (bulk_in_copied d + ch) = nat (bulk_in_copied d) + nat ch"
      using ch inv(1) by (auto simp: skel_inv_def)
    have fc: "bulk_in_filled d - (bulk_in_copied d + ch) = av - ch" by (simp add: av_def)
    have pend: "pending d = ?src @ pending ?d1"
      by (simp add: pending_def av_def [symmetric] n fc take_take_drop)
    have len: "length ?src = nat ch" using inv(1) ch by (auto simp: skel_inv_def av_def)
    obtain d2 s2 where io: "(if av < cnt then snd (skel_do_read_io ?d1 (cnt - ch) s1) else (?d1, s1)) = (d2, s2)"
      by (rule prod.exhaust)
    have d2: "skel_inv d2 \<and> pending d2 = pending ?d1 \<and> in_mem d2 = in_mem d"
    proof (cases "av < cnt")
      case True
      then have "pending ?d1 = []" by (simp add: pending_def ch_def av_def)
      with True io do_read_io_props [of ?d1 "cnt - ch" s1 _ d2 s2] inv1 show ?thesis
        by (cases "skel_do_read_io ?d1 (cnt - ch) s1") auto
    qed (use io inv1 in auto)
    have "read_data d cnt s = Some (Exit (if ask s \<noteq> 0 then - EFAULT else ch) out, d2, s2)"
      using False no_err filled ld io
      by (simp add: read_data_def Let_def av_def [symmetric] sz ch_def [symmetric] cp split: if_splits)
    moreover have "consumes (if ask s \<noteq> 0 then - EFAULT else ch) out cnt (pending d) (pending d2)"
      unfolding consumes_def using d2 pend cp cut len ch by (intro exI [of _ ?src]) auto
    ultimately show thesis
      by (intro that [of "Exit (if ask s \<noteq> 0 then - EFAULT else ch) out" d2 s2]) (use d2 in auto)
  qed
qed

text \<open>A whole read, with what arrived during the call.\<close>

definition read_ok :: "bool \<Rightarrow> usb_skel \<Rightarrow> int \<Rightarrow> io_event list \<Rightarrow> read_result \<Rightarrow> bool" where
  "read_ok nonblock d cnt evs res = (case res of
     Blocked d' s' \<Rightarrow> skel_inv d' \<and> ongoing_read d' \<and> \<not> nonblock \<and> pending d = [] \<and> (\<forall>e\<in>set evs. \<not> decisive e)
   | Returned rv out d' rest s' \<Rightarrow> skel_inv d' \<and> length (in_mem d') = length (in_mem d) \<and>
       (\<exists>used. evs = used @ rest \<and> consumes rv out cnt (pending d @ received used) (pending d')))"

lemma read_ok_retry:
  assumes "read_ok nonblock d2 cnt evs1 res" "pending d2 = []" "length (in_mem d2) = length (in_mem d)"
    and "evs = used @ evs1" "received used = []" "pending d = []" "\<forall>e\<in>set used. \<not> decisive e"
  shows "read_ok nonblock d cnt evs res"
proof (cases res)
  case (Returned rv out d' rest s')
  from assms(1,2) obtain u where "evs1 = u @ rest" "consumes rv out cnt (received u) (pending d')"
    by (auto simp: read_ok_def Returned)
  then have "\<exists>u. evs = u @ rest \<and> consumes rv out cnt (pending d @ received u) (pending d')"
    using assms(4-6) by (intro exI [of _ "used @ u"]) simp
  then show ?thesis using assms(1,3) by (simp add: read_ok_def Returned)
qed (use assms in \<open>auto simp: read_ok_def\<close>)

lemma read_retry_ok:
  assumes "skel_inv d" "0 < cnt" "fits (length (in_mem d)) evs"
  shows "\<exists>res. read_retry d nonblock cnt evs s = Some res \<and> read_ok nonblock d cnt evs res"
  using assms
proof (induction d nonblock cnt evs s rule: read_retry.induct)
  case (1 d nonblock cnt evs s)
  note w = wait_io_cases [OF 1(2,4), of nonblock]
  show ?case
  proof (cases "wait_io nonblock evs d")
    case (Waiting d1)
    have "read_ok nonblock d cnt evs (Blocked d1 s)"
      using w 1(2) by (auto simp: Waiting read_ok_def ongoing_pending)
    then show ?thesis by (subst read_retry.simps) (simp add: Waiting)
  next
    case (Stop rv d1 evs1)
    have "read_ok nonblock d cnt evs (Returned rv [] d1 evs1 s)"
      using w 1(2,3) by (auto simp: Stop read_ok_def intro!: consumes_nothing)
    then show ?thesis by (subst read_retry.simps) (simp add: Stop)
  next
    case (Go d1 evs1)
    with w obtain used where u: "evs = used @ evs1" "pending d1 = pending d @ received used" "skel_inv d1"
      "length (in_mem d1) = length (in_mem d)"
      "\<not> errors d1 < 0 \<longrightarrow> received used = [] \<longrightarrow> (\<forall>e\<in>set used. \<not> decisive e)"
      by auto
    have fit: "fits (length (in_mem d1)) evs1" using 1(4) u(1,4) by (simp add: fits_def)
    obtain oc d2 s2 where
      r: "read_data d1 cnt s = Some (oc, d2, s2)" "skel_inv d2" "length (in_mem d2) = length (in_mem d1)"
      "\<And>rv out. oc = Exit rv out \<Longrightarrow> consumes rv out cnt (pending d1) (pending d2)"
      "oc = Retry \<Longrightarrow> pending d1 = [] \<and> pending d2 = [] \<and> \<not> errors d1 < 0"
      by (rule read_data_props [OF u(3) 1(3), of s]) blast
    show ?thesis
    proof (cases oc)
      case (Exit rv out)
      from r(4) [OF this] r(2,3) u have "read_ok nonblock d cnt evs (Returned rv out d2 evs1 s2)"
        by (auto simp: read_ok_def)
      then show ?thesis by (subst read_retry.simps) (simp add: Go r(1) Exit)
    next
      case Retry
      have fit2: "fits (length (in_mem d2)) evs1" using fit r(3) by simp
      from 1(1) [OF Go r(1) refl Retry refl r(2) 1(3) fit2] obtain res where
        IH: "read_retry d2 nonblock cnt evs1 s2 = Some res" "read_ok nonblock d2 cnt evs1 res" by blast
      have "read_retry d nonblock cnt evs s = Some res"
        using IH(1) by (subst read_retry.simps) (simp add: Go r(1) Retry)
      moreover have "read_ok nonblock d cnt evs res"
        using read_ok_retry [OF IH(2), where used = used] r(3) r(5) [OF Retry] u by auto
      ultimately show ?thesis by blast
    qed
  qed
qed

subsection \<open>Properties of reading and writing\<close>

text \<open>
  C12: A read never leaves the receive buffer, and takes a chunk of at most \<open>count\<close> bytes off what the buffer
  held followed by what the device sent during the call; the rest stays in the buffer. Unless the copy to user space
  fails, exactly this chunk is delivered and a result that is no error is its length, above zero: nothing is lost or
  repeated. When the copy fails (\<open>-EFAULT\<close>, with the lock taken) the chunk is not empty and is lost: at best a prefix of it has reached the user.
\<close>

theorem usb_read_stream:
  assumes "skel_inv d" "0 < cnt" "fits (length (in_mem d)) evs" "bulk_in_urb d \<noteq> 0" "interface d \<noteq> 0"
  shows "\<exists>res. skel_read d nonblock cnt evs s = Some res \<and>
    (\<forall>rv out d' rest s'. res = Returned rv out d' rest s' \<longrightarrow> skel_inv d' \<and>
       (\<exists>used chunk. evs = used @ rest \<and> pending d @ received used = chunk @ pending d' \<and> int (length chunk) \<le> cnt \<and>
          (if rv = - EFAULT \<and> 0 \<le> ask s then chunk \<noteq> [] \<and> (\<exists>k. out = take k chunk) else out = chunk) \<and>
          (0 \<le> rv \<longrightarrow> 0 < rv \<and> rv = int (length out))))"
proof (cases "ask s < 0")
  case False
  let ?s = "answered (Plain ''mutex_lock_interruptible'' (ask s)) s"
  have "skel_read d nonblock cnt evs s = read_retry d nonblock cnt evs ?s"
    using assms False by (simp add: skel_read_def status_call_def del: read_retry.simps)
  moreover obtain res where "read_retry d nonblock cnt evs ?s = Some res" "read_ok nonblock d cnt evs res"
    using read_retry_ok [OF assms(1-3), of nonblock ?s] by blast
  moreover have "0 \<le> ask s" using False by simp
  ultimately show ?thesis
    unfolding read_ok_def consumes_def by (intro exI [of _ res] conjI allI impI) (simp_all only: read_result.case simp_thms, blast+)
qed (use assms in \<open>simp add: skel_read_def status_call_def\<close>)

text \<open>
  C13: A read returns if it must not block, if there is unread data, or as soon as something happens that ends it: data
  arrives, a transfer fails or a signal comes. The completion reaches a sleeping reader because the callback clears
  \<open>ongoing_read\<close> and wakes \<open>bulk_in_wait\<close>; a read that stays blocked has a transfer under way.
\<close>

theorem usb_read_wakes:
  assumes "skel_inv d" "0 < cnt" "fits (length (in_mem d)) evs"
  shows "(nonblock \<or> pending d \<noteq> [] \<or> (\<exists>e\<in>set evs. decisive e) \<longrightarrow>
      (\<exists>rv out d' rest s'. skel_read d nonblock cnt evs s = Some (Returned rv out d' rest s'))) \<and>
    (\<forall>d' s'. skel_read d nonblock cnt evs s = Some (Blocked d' s') \<longrightarrow> ongoing_read d')"
proof -
  let ?s = "answered (Plain ''mutex_lock_interruptible'' (ask s)) s"
  obtain res where res: "read_retry d nonblock cnt evs ?s = Some res" "read_ok nonblock d cnt evs res"
    using read_retry_ok [OF assms, of nonblock ?s] by blast
  show ?thesis
  proof (cases "bulk_in_urb d = 0 \<or> ask s < 0 \<or> interface d = 0")
    case True
    then show ?thesis using assms(2) by (auto simp: skel_read_def status_call_def)
  next
    case False
    then have "skel_read d nonblock cnt evs s = Some res"
      using assms(2) res(1) by (simp add: skel_read_def status_call_def del: read_retry.simps)
    with res(2) show ?thesis by (cases res) (auto simp: read_ok_def)
  qed
qed

definition sample_skel :: usb_skel where
  "sample_skel = (new_skel 4096 8192 12288)\<lparr>bulk_in_urb := 16384, bulk_in_buffer := 20480, bulk_in_size := 4,
     bulk_in_endpointAddr := 0x81, bulk_out_endpointAddr := 2, in_mem := [0, 0, 0, 0]\<rparr>"

lemma sample_skel_inv: "skel_inv sample_skel"
  by (simp add: skel_inv_def sample_skel_def new_skel_def)

theorem usb_read_stream_witness:
  "\<exists>res. skel_read sample_skel False 3 [Quiet, Completed 0 [7, 8, 9, 10]]
     \<lparr>answers = (\<lambda>_. 0), ncalls = 0, klog = []\<rparr> = Some res"
  using usb_read_stream [OF sample_skel_inv, where cnt = 3 and nonblock = False and
      evs = "[Quiet, Completed 0 [7, 8, 9, 10]]" and s = "\<lparr>answers = (\<lambda>_. 0), ncalls = 0, klog = []\<rparr>"]
  by (auto simp: fits_def sample_skel_def new_skel_def ask_def)

theorem usb_read_wakes_witness:
  "\<exists>rv out d' rest s'. skel_read sample_skel False 3 [Quiet, Completed 0 [7]]
     \<lparr>answers = (\<lambda>_. 0), ncalls = 0, klog = []\<rparr> = Some (Returned rv out d' rest s')"
  using usb_read_wakes [OF sample_skel_inv, where cnt = 3 and nonblock = False and
      evs = "[Quiet, Completed 0 [7]]" and s = "\<lparr>answers = (\<lambda>_. 0), ncalls = 0, klog = []\<rparr>"]
  by (simp add: fits_def sample_skel_def new_skel_def del: read_retry.simps)

text \<open>
  Closing a file while a read-ahead is under way reports \<open>-EIO\<close>, although the device worked: the
  flush itself unlinks the URB and its callback records the unlinking as an error, which the comment
  in the callback says it is not. With no transfer under way and no failed write, flush reports 0.
\<close>

lemma usb_flush_result:
  "if ongoing_read d then fst (skel_flush st (Some d) s) = - EIO
   else errors d = 0 \<and> ask s \<noteq> 0 \<and> (\<forall>i. st i = 0) \<longrightarrow> fst (skel_flush st (Some d) s) = 0"
proof -
  have zero: "errors (fst (complete_writes sts d s)) = 0 \<and> ongoing_read (fst (complete_writes sts d s)) = ongoing_read d"
    if "errors d = 0" "set sts \<subseteq> {0}" for sts d s
    using that by (induction sts d s rule: complete_writes.induct)
      (auto simp: skel_write_bulk_callback_def Let_def kdefs split: list.splits)
  have keep: "ongoing_read (fst (complete_writes sts d s)) = ongoing_read d" for sts d s
    by (induction sts d s rule: complete_writes.induct)
      (auto simp: skel_write_bulk_callback_def Let_def kdefs split: list.splits)
  show ?thesis
    using keep zero [of d "map st [0..<length (submitted d)]"]
    by (auto simp: skel_flush_def skel_draw_down_def usb_kill_anchored_urbs_def usb_kill_in_urb_def
        complete_read_def skel_read_bulk_callback_def kdefs Let_def split_beta image_subset_iff)
qed

end
