(* ===== verification/Usb_Life.thy ===== *)
theory Usb_Life
  imports Usb_Skel
begin

text \<open>
  The life of a device of \<open>usb-skeleton.c\<close> from its probe on: any interleaving of opens, closes, reads,
  writes, completions of URBs, flushes, suspends, resets and the disconnect. A state holds the
  structure (\<open>None\<close> once it is freed), the number of open files and the kernel. Each operation is one
  step, also a write, which holds \<open>io_mutex\<close> only while it submits its URB; the operations that take \<open>io_mutex\<close> are not enabled between \<open>pre_reset\<close> and \<open>post_reset\<close>.
\<close>

subsection \<open>Steps\<close>

record skel_sys =
  sdev :: "usb_skel option"
  opens :: nat
  world :: kworld

inductive skel_step :: "skel_sys \<Rightarrow> skel_sys \<Rightarrow> bool" where
  open_file: "sdev S = Some d \<Longrightarrow> interface d \<noteq> 0 \<Longrightarrow>
    skel_open (interface d) (Some d) f (world S) = (r, d', f', w') \<Longrightarrow>
    skel_step S \<lparr>sdev = d', opens = (if r = 0 then opens S + 1 else opens S), world = w'\<rparr>"
| release_file: "sdev S = Some d \<Longrightarrow> 0 < opens S \<Longrightarrow> \<not> io_mutex d \<Longrightarrow>
    skel_release (Some d) (world S) = (r, d', w') \<Longrightarrow>
    skel_step S \<lparr>sdev = d', opens = opens S - 1, world = w'\<rparr>"
| flush_file: "sdev S = Some d \<Longrightarrow> 0 < opens S \<Longrightarrow> \<not> io_mutex d \<Longrightarrow>
    skel_flush st (Some d) (world S) = (r, d', w') \<Longrightarrow>
    skel_step S \<lparr>sdev = d', opens = opens S, world = w'\<rparr>"
| read_file: "sdev S = Some d \<Longrightarrow> 0 < opens S \<Longrightarrow> \<not> io_mutex d \<Longrightarrow> 0 \<le> cnt \<Longrightarrow>
    fits (length (in_mem d)) evs \<Longrightarrow>
    skel_read d nonblock cnt evs (world S) = Some (Returned rv out d' rest w') \<Longrightarrow>
    skel_step S \<lparr>sdev = Some d', opens = opens S, world = w'\<rparr>"
| write_file: "sdev S = Some d \<Longrightarrow> 0 < opens S \<Longrightarrow> \<not> io_mutex d \<Longrightarrow> 0 \<le> cnt \<Longrightarrow>
    skel_write d nonblock ubuf cnt (world S) = Some (r, d', w') \<Longrightarrow>
    skel_step S \<lparr>sdev = Some d', opens = opens S, world = w'\<rparr>"
| write_done: "sdev S = Some d \<Longrightarrow> submitted d \<noteq> [] \<Longrightarrow>
    complete_writes [status] d (world S) = (d', w') \<Longrightarrow>
    skel_step S \<lparr>sdev = Some d', opens = opens S, world = w'\<rparr>"
| read_done: "sdev S = Some d \<Longrightarrow> ongoing_read d \<Longrightarrow> length data \<le> length (in_mem d) \<Longrightarrow>
    skel_step S (S\<lparr>sdev := Some (fst (complete_read status data d))\<rparr>)"
| disconnected: "sdev S = Some d \<Longrightarrow> interface d \<noteq> 0 \<Longrightarrow> \<not> io_mutex d \<Longrightarrow>
    skel_disconnect (usb_kill_in_urb d) (world S) = (d', w') \<Longrightarrow>
    skel_step S \<lparr>sdev = d', opens = opens S, world = w'\<rparr>"
| suspended: "sdev S = Some d \<Longrightarrow> interface d \<noteq> 0 \<Longrightarrow>
    skel_suspend st (Some d) (world S) = (r, d', w') \<Longrightarrow>
    skel_step S \<lparr>sdev = d', opens = opens S, world = w'\<rparr>"
| pre_reset: "sdev S = Some d \<Longrightarrow> interface d \<noteq> 0 \<Longrightarrow> \<not> io_mutex d \<Longrightarrow>
    skel_pre_reset st d (world S) = (r, d', w') \<Longrightarrow>
    skel_step S \<lparr>sdev = Some d', opens = opens S, world = w'\<rparr>"
| post_reset: "sdev S = Some d \<Longrightarrow> io_mutex d \<Longrightarrow> skel_post_reset d = (r, d') \<Longrightarrow>
    skel_step S (S\<lparr>sdev := Some d'\<rparr>)"

text \<open>
  The core unlinks the URBs of an interface before it calls \<open>disconnect\<close>; what a bulk endpoint's
  descriptor may say is documented: a non-zero address and a packet size below 2048.
\<close>

definition eps_ok :: "endpoint list \<Rightarrow> bool" where
  "eps_ok eps \<longleftrightarrow> (\<forall>ep\<in>set eps. 0 \<le> maxp ep \<and> maxp ep < 2048 \<and> (is_bulk_in ep \<longrightarrow> bEndpointAddress ep \<noteq> 0))"

inductive skel_reachable :: "kworld \<Rightarrow> skel_sys \<Rightarrow> bool" for s0 where
  probed: "eps_ok eps \<Longrightarrow> intf \<noteq> 0 \<Longrightarrow> skel_probe junk intf u eps s0 = (0, Some d, s') \<Longrightarrow>
    skel_reachable s0 \<lparr>sdev = Some d, opens = 0, world = s'\<rparr>"
| next_step: "skel_reachable s0 S \<Longrightarrow> skel_step S S' \<Longrightarrow> skel_reachable s0 S'"

inductive_cases skel_step_elim: "skel_step S S'"

subsection \<open>What a device owns\<close>

definition bufs :: "wurb list \<Rightarrow> res multiset" where
  "bufs us = mset (concat (map (\<lambda>u. objs ''coherent'' (w_buf u)) us))"

definition base :: "usb_skel \<Rightarrow> res multiset" where
  "base d = mem_res (self d) + mem_res (bulk_in_buffer d) + mset (objs ''urb'' (bulk_in_urb d)) +
     mset (objs ''usb_device'' (udev d))"

definition minor_of :: "usb_skel \<Rightarrow> res multiset" where
  "minor_of d = mset (objs ''usb_minor'' (interface d))"

text \<open>The fields that tell what is owned.\<close>

definition ids :: "usb_skel \<Rightarrow> addr \<times> addr \<times> addr \<times> addr \<times> addr \<times> int" where
  "ids d = (self d, udev d, interface d, bulk_in_urb d, bulk_in_buffer d, kref d)"

text \<open>The state of the read side.\<close>

definition rd_side :: "usb_skel \<Rightarrow> int \<times> int \<times> byte list \<times> bool \<times> bool" where
  "rd_side d = (bulk_in_filled d, bulk_in_copied d, in_mem d, ongoing_read d, io_mutex d)"

lemma skel_inv_rd_side: "rd_side d = rd_side d' \<Longrightarrow> skel_inv d \<longleftrightarrow> skel_inv d'"
  by (simp add: rd_side_def skel_inv_def)

lemma bufs_simps [simp]: "bufs [] = {#}" "bufs (u # us) = mset (objs ''coherent'' (w_buf u)) + bufs us"
  "bufs (us @ vs) = bufs us + bufs vs"
  by (simp_all add: bufs_def)

lemma base_ids: "ids d = ids d' \<Longrightarrow> base d = base d' \<and> minor_of d = minor_of d' \<and> kref d = kref d' \<and>
    interface d = interface d' \<and> bulk_in_urb d = bulk_in_urb d'"
  by (simp add: ids_def base_def minor_of_def)

lemma skel_delete_res:
  "resources s = Some (H + base d) \<Longrightarrow> resources (skel_delete d s) = Some H"
  by (simp add: skel_delete_def base_def Let_def kernel_simps ac_simps)

subsection \<open>Operations keep the books\<close>

lemma complete_writes_props:
  assumes "complete_writes sts d s = (d', s')" "length sts \<le> length (submitted d)"
    "resources s = Some (H + bufs (submitted d))"
  shows "resources s' = Some (H + bufs (submitted d')) \<and> submitted d' = drop (length sts) (submitted d) \<and>
    ids d' = ids d \<and> rd_side d' = rd_side d \<and> limit_sem d' = limit_sem d + int (length sts)"
  using assms
proof (induction sts d s rule: complete_writes.induct)
  case (2 st sts d s)
  then obtain u us where su: "submitted d = u # us" by (cases "submitted d") auto
  obtain d1 s1 where cb: "skel_write_bulk_callback st u (d\<lparr>submitted := us\<rparr>) s = (d1, s1)" by (rule prod.exhaust)
  then have "submitted d1 = us" "ids d1 = ids d" "rd_side d1 = rd_side d" "limit_sem d1 = limit_sem d + 1"
    by (auto simp: skel_write_bulk_callback_def ids_def rd_side_def split: if_splits)
  moreover have "resources s1 = Some (H + bufs us)"
    using 2(4) su cb by (auto simp: skel_write_bulk_callback_def Let_def kernel_simps)
  ultimately show ?case using 2(1) [OF su cb [symmetric] refl] 2(2,3) su cb by simp
qed simp

lemma kill_anchored_props:
  assumes "usb_kill_anchored_urbs d s = (d', s')" "resources s = Some (H + bufs (submitted d))"
  shows "resources s' = Some H \<and> submitted d' = [] \<and> ids d' = ids d \<and> rd_side d' = rd_side d \<and>
    limit_sem d' = limit_sem d + int (length (submitted d))"
  using complete_writes_props [OF assms(1) [unfolded usb_kill_anchored_urbs_def] _ assms(2)] by simp

lemma kill_in_urb_props:
  assumes "skel_inv d"
  shows "skel_inv (usb_kill_in_urb d)" "ids (usb_kill_in_urb d) = ids d" "\<not> ongoing_read (usb_kill_in_urb d)"
    "submitted (usb_kill_in_urb d) = submitted d" "limit_sem (usb_kill_in_urb d) = limit_sem d"
    "io_mutex (usb_kill_in_urb d) = io_mutex d"
  using assms
  by (auto simp: usb_kill_in_urb_def complete_read_def skel_read_bulk_callback_def ids_def skel_inv_def overwrite_def)

lemma draw_down_props:
  assumes "skel_draw_down st d s = (d', s')" "resources s = Some (H + bufs (submitted d))" "skel_inv d"
  shows "resources s' = Some H \<and> submitted d' = [] \<and> ids d' = ids d \<and> skel_inv d' \<and> \<not> ongoing_read d' \<and>
    limit_sem d' = limit_sem d + int (length (submitted d)) \<and> io_mutex d' = io_mutex d"
proof -
  let ?s = "answered (Plain ''usb_wait_anchor_empty_timeout'' (ask s)) s"
  let ?sts = "if ask s = 0 then replicate (length (submitted d)) (- ENOENT) else map st [0..<length (submitted d)]"
  obtain d1 s1 where cw: "complete_writes ?sts d ?s = (d1, s1)" by (rule prod.exhaust)
  have "d' = usb_kill_in_urb d1" "s' = s1"
    using assms(1) cw by (auto simp: skel_draw_down_def usb_kill_anchored_urbs_def kdefs split: if_splits)
  moreover have "resources ?s = Some (H + bufs (submitted d))" using assms(2) by (simp add: ksimps)
  note p = complete_writes_props [OF cw _ this]
  moreover from p have "skel_inv d1" using assms(3) skel_inv_rd_side [of d1 d] by (simp split: if_splits)
  ultimately show ?thesis
    using kill_in_urb_props [of d1] by (auto simp: rd_side_def split: if_splits)
qed

lemma kref_put_props:
  assumes "kref_put d s = (d', s')" "resources s = Some (H + base d)"
  shows "case d' of None \<Rightarrow> kref d = 1 \<and> resources s' = Some H
    | Some d1 \<Rightarrow> kref d \<noteq> 1 \<and> d1 = d\<lparr>kref := kref d - 1\<rparr> \<and> resources s' = Some (H + base d1)"
proof -
  have "base (d\<lparr>kref := k\<rparr>) = base d" for k by (simp add: base_def)
  with assms skel_delete_res [of s H "d\<lparr>kref := kref d - 1\<rparr>"] show ?thesis
    by (auto simp: kref_put_def Let_def split: if_splits)
qed

subsection \<open>Reading changes no resources\<close>

lemma do_read_io_res:
  "skel_do_read_io d cnt s = (rv, d', s') \<Longrightarrow> resources s = Some H \<Longrightarrow>
   resources s' = Some H \<and> ids d' = ids d \<and> submitted d' = submitted d \<and> limit_sem d' = limit_sem d \<and> io_mutex d' = io_mutex d"
  by (auto simp: skel_do_read_io_def kernel_simps ids_def Let_def split: if_splits)

lemma read_data_res:
  assumes "read_data d cnt s = Some (oc, d', s')" "resources s = Some H"
  shows "resources s' = Some H \<and> ids d' = ids d \<and> submitted d' = submitted d \<and> limit_sem d' = limit_sem d \<and> io_mutex d' = io_mutex d"
  using assms
  by (auto simp: read_data_def start_io_def Let_def copy_to_user_def skel_do_read_io_def status_call_def
      ksimps ids_def split: if_splits Option.bind_splits)

lemma complete_read_keeps:
  "ids (fst (complete_read st data d)) = ids d \<and> submitted (fst (complete_read st data d)) = submitted d \<and>
   limit_sem (fst (complete_read st data d)) = limit_sem d \<and> io_mutex (fst (complete_read st data d)) = io_mutex d"
  by (simp add: complete_read_def skel_read_bulk_callback_def ids_def Let_def)

lemma sleep_io_res:
  "sleep_io evs d = Go d' evs' \<or> sleep_io evs d = Stop rv d' evs' \<Longrightarrow>
   ids d' = ids d \<and> submitted d' = submitted d \<and> limit_sem d' = limit_sem d \<and> io_mutex d' = io_mutex d"
proof (induction evs)
  case (Cons e evs)
  show ?case
  proof (cases e)
    case (Completed st data)
    then have "d' = fst (complete_read st data d)"
      using Cons.prems unfolding Completed sleep_io_Completed by simp
    then show ?thesis using complete_read_keeps by simp
  qed (use Cons in auto)
qed simp

lemma wait_io_res:
  "wait_io nonblock evs d = Go d' evs' \<or> wait_io nonblock evs d = Stop rv d' evs' \<Longrightarrow>
   ids d' = ids d \<and> submitted d' = submitted d \<and> limit_sem d' = limit_sem d \<and> io_mutex d' = io_mutex d"
  using sleep_io_res [of evs d d' evs' rv] complete_read_keeps [of _ _ d]
  by (auto simp: wait_io_def Let_def split: if_splits list.splits io_event.splits)

lemma read_retry_res:
  assumes "read_retry d nonblock cnt evs s = Some (Returned rv out d' rest s')" "resources s = Some H"
  shows "resources s' = Some H \<and> ids d' = ids d \<and> submitted d' = submitted d \<and> limit_sem d' = limit_sem d \<and> io_mutex d' = io_mutex d"
  using assms
proof (induction d nonblock cnt evs s rule: read_retry.induct)
  case (1 d nonblock cnt evs s)
  show ?case
  proof (cases "wait_io nonblock evs d")
    case (Go d1 evs1)
    obtain oc d2 s2 where r: "read_data d1 cnt s = Some (oc, d2, s2)"
      using 1(2) Go by (cases "read_data d1 cnt s") (auto simp: Go)
    from read_data_res [OF r 1(3)] wait_io_res [OF disjI1, OF Go] show ?thesis
      using 1(1) [OF Go r refl _ refl] 1(2) by (cases oc) (auto simp: Go r)
  next
    case (Stop rv1 d1 evs1)
    then show ?thesis using 1(2,3) wait_io_res [OF disjI2, OF Stop] by simp
  qed (use 1 in auto)
qed

lemma skel_read_res:
  assumes "skel_read d nonblock cnt evs s = Some (Returned rv out d' rest s')" "resources s = Some H"
  shows "resources s' = Some H \<and> ids d' = ids d \<and> submitted d' = submitted d \<and> limit_sem d' = limit_sem d \<and> io_mutex d' = io_mutex d"
  using assms read_retry_res [of d nonblock cnt evs _ rv out d' rest s' H]
  by (auto simp: skel_read_def status_call_def ksimps simp del: read_retry.simps split: if_splits)

subsection \<open>Writing\<close>

lemma write_error_props:
  assumes "write_error r urb buf d s = (r', d', s')"
    "resources s = Some (H + mset (objs ''urb'' urb) + mset (objs ''coherent'' buf))" "urb = 0 \<Longrightarrow> buf = 0"
  shows "r' = r \<and> resources s' = Some H \<and> d' = d\<lparr>limit_sem := limit_sem d + 1\<rparr>"
  using assms by (cases "urb = 0") (auto simp: write_error_def Let_def kernel_simps ac_simps)

text \<open>Either the URB is in flight with the user's bytes, or everything is as before.\<close>

lemma write_locked_props:
  assumes w: "write_locked n ubuf d s = (r, d', s')" and H: "resources s = Some H"
  shows "ids d' = ids d \<and> rd_side d' = rd_side d \<and>
    ((\<exists>u. r = n \<and> interface d \<noteq> 0 \<and> submitted d' = submitted d @ [u] \<and> w_data u = map ubuf [0..<nat n] \<and>
        limit_sem d' = limit_sem d \<and> resources s' = Some (H + bufs [u])) \<or>
     submitted d' = submitted d \<and> limit_sem d' = limit_sem d + 1 \<and> resources s' = Some H)"
proof -
  let ?s1 = "answered (Obtain ''usb_alloc_urb'' (objs ''urb'' (ask s))) s"
  let ?s2 = "answered (Obtain ''usb_alloc_coherent'' (objs ''coherent'' (ask ?s1))) ?s1"
  obtain data s3 where cp: "copy_from_user ubuf (nat n) ?s2 = (ask ?s2, data, s3)"
    "ask ?s2 = 0 \<Longrightarrow> data = map ubuf [0..<nat n]"
    by (rule copy_from_user_cases [of ubuf "nat n" ?s2]) blast
  let ?s4 = "answered (Plain ''usb_submit_urb'' (ask s3)) s3"
  have res: "resources ?s1 = Some (H + mset (objs ''urb'' (ask s)))"
    "\<And>x. x \<in> {?s2, s3, ?s4} \<Longrightarrow>
      resources x = Some (H + mset (objs ''urb'' (ask s)) + mset (objs ''coherent'' (ask ?s1)))"
    using H cp(1) by (auto simp: ksimps copy_from_user_def Let_def)
  have err: "ids d' = ids d \<and> rd_side d' = rd_side d \<and> submitted d' = submitted d \<and>
      limit_sem d' = limit_sem d + 1 \<and> resources s' = Some H"
    if "write_error e urb buf d1 x = (r, d', s')" "d1 \<in> {d, d\<lparr>errors := 0\<rparr>}"
      "resources x = Some (H + mset (objs ''urb'' urb) + mset (objs ''coherent'' buf))" "urb = 0 \<longrightarrow> buf = 0"
    for e urb buf d1 x
    using write_error_props [OF that(1,3)] that(2,4) by (auto simp: ids_def rd_side_def)
  consider "errors d < 0" | "\<not> errors d < 0" "ask s = 0" | "\<not> errors d < 0" "ask s \<noteq> 0" "ask ?s1 = 0"
    | "\<not> errors d < 0" "ask s \<noteq> 0" "ask ?s1 \<noteq> 0" by blast
  then show ?thesis
  proof cases
    case 1
    then have "write_locked n ubuf d s =
        write_error (if errors d = - EPIPE then errors d else - EIO) 0 0 (d\<lparr>errors := 0\<rparr>) s"
      by (cases "errors d = - EPIPE") (simp_all add: write_locked_def)
    then show ?thesis using w H err [of _ 0 0 "d\<lparr>errors := 0\<rparr>" s] by simp
  next
    case 2
    then show ?thesis using w H err [of "- ENOMEM" 0 0 d ?s1] res(1)
      by (simp add: write_locked_def obtain_obj_def)
  next
    case 3
    then show ?thesis using w res err [of "- ENOMEM" "ask s" 0 d ?s2]
      by (simp add: write_locked_def obtain_obj_def)
  next
    case 4
    let ?r = "if ask ?s2 \<noteq> 0 then write_error (- EFAULT) (ask s) (ask ?s1) d s3
      else if interface d = 0 then write_error (- ENODEV) (ask s) (ask ?s1) d s3
      else if ask s3 \<noteq> 0 then write_error (ask s3) (ask s) (ask ?s1) d ?s4
      else (n, d\<lparr>submitted := submitted d @ [\<lparr>w_urb = ask s, w_buf = ask ?s1, w_data = data\<rparr>]\<rparr>,
            giveback_obj ''usb_free_urb'' ''urb'' (ask s) ?s4)"
    have "write_locked n ubuf d s = ?r"
      using 4 cp by (simp add: write_locked_def obtain_obj_def status_call_def)
    with w have r: "?r = (r, d', s')" by simp
    have fin: "resources (giveback_obj ''usb_free_urb'' ''urb'' (ask s) ?s4) =
        Some (H + mset (objs ''coherent'' (ask ?s1)))"
      using res(2) [of ?s4] by (simp add: kernel_simps)
    show ?thesis
    proof (cases "ask ?s2 = 0 \<and> interface d \<noteq> 0 \<and> ask s3 = 0")
      case True
      then show ?thesis using r cp(2) fin by (auto simp: ids_def rd_side_def)
    next
      case False
      then obtain e x where "write_error e (ask s) (ask ?s1) d x = (r, d', s')" "x \<in> {s3, ?s4}"
        using r by (auto split: if_splits)
      with err [of e "ask s" "ask ?s1" d x] res(2) [of x] 4 show ?thesis by blast
    qed
  qed
qed

lemma skel_write_props:
  assumes "skel_write d nonblock ubuf cnt s = Some (r, d', s')" "resources s = Some H"
  shows "ids d' = ids d \<and> rd_side d' = rd_side d \<and>
    ((\<exists>u. r = min cnt MAX_TRANSFER \<and> interface d \<noteq> 0 \<and> 0 < limit_sem d \<and> submitted d' = submitted d @ [u] \<and>
        w_data u = map ubuf [0..<nat r] \<and> limit_sem d' = limit_sem d - 1 \<and> resources s' = Some (H + bufs [u])) \<or>
     submitted d' = submitted d \<and> limit_sem d' = limit_sem d \<and> resources s' = Some H)"
proof -
  have "\<And>k. ids (d\<lparr>limit_sem := k\<rparr>) = ids d \<and> rd_side (d\<lparr>limit_sem := k\<rparr>) = rd_side d"
    by (simp add: ids_def rd_side_def)
  with assms write_locked_props [of "min cnt MAX_TRANSFER" ubuf "d\<lparr>limit_sem := limit_sem d - 1\<rparr>" s r d' s' H]
  show ?thesis by (auto simp: skel_write_def Let_def status_call_def ksimps split: if_splits)
qed

subsection \<open>Probing\<close>

text \<open>What the loop over the endpoints keeps: the buffer and the URB exist once an endpoint is chosen.\<close>

definition probing :: "res multiset \<Rightarrow> addr \<Rightarrow> usb_skel \<Rightarrow> kworld \<Rightarrow> bool" where
  "probing H intf d s \<longleftrightarrow> resources s = Some (H + base d) \<and> interface d = intf \<and> kref d = 1 \<and> limit_sem d = 8 \<and>
     submitted d = [] \<and> \<not> ongoing_read d \<and> \<not> io_mutex d \<and> skel_inv d \<and>
     (bulk_in_endpointAddr d = 0 \<longrightarrow> bulk_in_urb d = 0 \<and> bulk_in_buffer d = 0)  \<and> bulk_in_filled d = 0"

lemma probing_out: "probing H intf (take_bulk_out ep d) s \<longleftrightarrow> probing H intf d s"
  by (simp add: probing_def take_bulk_out_def base_def skel_inv_def)

lemma probing_in:
  assumes "take_bulk_in junk ep d s = (err, d', s')" "probing H intf d s"
    "0 \<le> maxp ep" "maxp ep < 2048" "is_bulk_in ep \<Longrightarrow> bEndpointAddress ep \<noteq> 0"
  shows "probing H intf d' s'"
  using assms
  by (auto simp: take_bulk_in_def probing_def kzalloc_def obtain_obj_def Let_def base_def skel_inv_def ksimps ac_simps
      split: if_splits)

lemma probe_endpoints_props:
  assumes "probe_endpoints junk eps d s = (err, d', s')" "eps_ok eps" "probing H intf d s"
  shows "probing H intf d' s'"
  using assms
proof (induction eps arbitrary: d s)
  case (Cons ep eps)
  obtain e d1 s1 where t: "take_bulk_in junk ep d s = (e, d1, s1)" by (cases "take_bulk_in junk ep d s") auto
  have "probing H intf d1 s1" using probing_in [OF t Cons.prems(3)] Cons.prems(2) by (simp add: eps_ok_def)
  then show ?case
    using Cons t by (auto simp: probing_out eps_ok_def split: if_splits)
qed simp

lemma probe_props:
  assumes "skel_probe junk intf u eps s = (r, d', s')" "eps_ok eps" "resources s = Some H" "intf \<noteq> 0"
  shows "if r = 0 then \<exists>d. d' = Some d \<and> skel_inv d \<and> kref d = 1 \<and> limit_sem d = 8 \<and> submitted d = [] \<and>
      \<not> ongoing_read d \<and> \<not> io_mutex d \<and> interface d = intf \<and> resources s' = Some (H + base d + minor_of d)
    else d' = None \<and> resources s' = Some H"
proof -
  let ?p = "ask s" and ?s1 = "answered (Kzalloc (Sizeof ''usb_skel'') (ask s)) s"
  let ?s2 = "call (Obtain ''usb_get_dev'' (objs ''usb_device'' u)) ?s1"
  obtain err d s3 where pe: "probe_endpoints junk eps (new_skel ?p u intf) ?s2 = (err, d, s3)"
    by (cases "probe_endpoints junk eps (new_skel ?p u intf) ?s2") auto
  have "probing H intf (new_skel ?p u intf) ?s2"
    using assms(3) by (simp add: probing_def ksimps base_def new_skel_def skel_inv_def ac_simps)
  from probe_endpoints_props [OF pe assms(2) this] have d: "resources s3 = Some (H + base d)"
    "interface d = intf" "kref d = 1" "limit_sem d = 8" "submitted d = []" "\<not> ongoing_read d" "\<not> io_mutex d"
    "skel_inv d" by (simp_all add: probing_def)
  have put: "resources (snd (kref_put d x)) = Some H" if "resources x = Some (H + base d)" for x
    using kref_put_props [of d x _ _ H] that d(3) by (cases "kref_put d x") (auto split: option.splits)
  show ?thesis
    using assms(1,3) pe d put assms(4)
    by (auto simp: skel_probe_def kzalloc_def obtain_if_ok_def ksimps minor_of_def objs_nonzero Let_def split: if_splits)
qed

subsection \<open>The invariant of all reachable states\<close>

definition dev_inv :: "res multiset \<Rightarrow> nat \<Rightarrow> usb_skel \<Rightarrow> kworld \<Rightarrow> bool" where
  "dev_inv H n d s \<longleftrightarrow> skel_inv d \<and> kref d = int n + (if interface d = 0 then 0 else 1) \<and> 0 < kref d \<and>
     limit_sem d + int (length (submitted d)) = WRITES_IN_FLIGHT \<and> 0 \<le> limit_sem d \<and>
     (interface d = 0 \<longrightarrow> submitted d = [] \<and> \<not> ongoing_read d) \<and>
     resources s = Some (H + base d + minor_of d + bufs (submitted d))"

definition sys_inv :: "res multiset \<Rightarrow> skel_sys \<Rightarrow> bool" where
  "sys_inv H S = (case sdev S of
     None \<Rightarrow> opens S = 0 \<and> resources (world S) = Some H
   | Some d \<Rightarrow> dev_inv H (opens S) d (world S))"

lemma dev_inv_ids:
  assumes "dev_inv H n d s" "ids d' = ids d" "skel_inv d'" "interface d = 0 \<longrightarrow> submitted d' = [] \<and> \<not> ongoing_read d'"
    "limit_sem d' + int (length (submitted d')) = WRITES_IN_FLIGHT" "0 \<le> limit_sem d'"
    "resources s' = Some (H + base d + minor_of d + bufs (submitted d'))"
  shows "dev_inv H n d' s'"
  using assms base_ids [OF assms(2)] by (simp add: dev_inv_def)

lemma inv_draw_down:
  assumes "dev_inv H n d s" "skel_draw_down st d s = (d', s')"
  shows "dev_inv H n d' s' \<and> \<not> ongoing_read d'"
proof -
  from assms(1) have "resources s = Some (H + base d + minor_of d + bufs (submitted d))" "skel_inv d"
    by (simp_all add: dev_inv_def)
  note dd = draw_down_props [OF assms(2) this]
  show ?thesis
    using dd assms(1) by (intro conjI dev_inv_ids [OF assms(1)]) (auto simp: dev_inv_def)
qed

lemma inv_mutex: "dev_inv H n d s \<Longrightarrow> dev_inv H n (d\<lparr>io_mutex := b\<rparr>) s"
  by (simp add: dev_inv_def skel_inv_def base_def minor_of_def)

lemma inv_errors: "dev_inv H n d s \<Longrightarrow> dev_inv H n (d\<lparr>errors := e\<rparr>) s"
  by (simp add: dev_inv_def skel_inv_def base_def minor_of_def)

lemma inv_flush:
  assumes "dev_inv H n d s" "skel_flush st (Some d) s = (r, d', s')"
  shows "\<exists>d1. d' = Some d1 \<and> dev_inv H n d1 s'"
proof -
  obtain d1 s1 where dd: "skel_draw_down st d s = (d1, s1)" by (rule prod.exhaust)
  with inv_draw_down [OF assms(1) dd] inv_errors [of H n d1 s1 0] assms(2) show ?thesis
    by (auto simp: skel_flush_def dd Let_def)
qed

lemma inv_read:
  assumes "dev_inv H n d s" "skel_read d nonblock cnt evs s = Some (Returned rv out d' rest s')"
    "0 \<le> cnt" "fits (length (in_mem d)) evs"
  shows "dev_inv H n d' s'"
proof (cases "bulk_in_urb d = 0 \<or> cnt = 0 \<or> ask s < 0 \<or> interface d = 0")
  case True
  with assms(1,2) show ?thesis
    by (auto simp: skel_read_def status_call_def dev_inv_def ksimps simp del: read_retry.simps split: if_splits)
next
  case False
  let ?s = "answered (Plain ''mutex_lock_interruptible'' (ask s)) s"
  from False assms(2) have "read_retry d nonblock cnt evs ?s = Some (Returned rv out d' rest s')"
    by (simp add: skel_read_def status_call_def del: read_retry.simps)
  with read_retry_ok [of d cnt evs nonblock ?s] assms False have "skel_inv d'"
    by (auto simp: read_ok_def dev_inv_def)
  moreover from assms(1) have "resources s = Some (H + base d + minor_of d + bufs (submitted d))"
    by (simp add: dev_inv_def)
  note skel_read_res [OF assms(2) this]
  ultimately show ?thesis
    using assms(1) False by (intro dev_inv_ids [OF assms(1)]) (auto simp: dev_inv_def)
qed

lemma inv_write:
  assumes "dev_inv H n d s" "skel_write d nonblock ubuf cnt s = Some (r, d', s')"
  shows "dev_inv H n d' s'"
proof -
  from assms(1) have "resources s = Some (H + base d + minor_of d + bufs (submitted d))"
    by (simp add: dev_inv_def)
  note w = skel_write_props [OF assms(2) this]
  then have "skel_inv d'" "ongoing_read d' = ongoing_read d"
    using assms(1) skel_inv_rd_side [of d' d] by (auto simp: dev_inv_def rd_side_def)
  with w assms(1) show ?thesis
    by (intro dev_inv_ids [OF assms(1)]) (auto simp: dev_inv_def ac_simps)
qed

lemma inv_write_done:
  assumes "dev_inv H n d s" "submitted d \<noteq> []" "complete_writes [status] d s = (d', s')"
  shows "dev_inv H n d' s'"
proof -
  from assms(1) have "resources s = Some (H + base d + minor_of d + bufs (submitted d))"
    by (simp add: dev_inv_def)
  from complete_writes_props [OF assms(3) _ this] assms(2)
  have c: "resources s' = Some (H + base d + minor_of d + bufs (submitted d'))" "ids d' = ids d"
    "rd_side d' = rd_side d" "limit_sem d' = limit_sem d + 1" "submitted d' = tl (submitted d)"
    by (cases "submitted d"; simp)+
  then have "skel_inv d'" "ongoing_read d' = ongoing_read d"
    using assms(1) skel_inv_rd_side [of d' d] by (auto simp: dev_inv_def rd_side_def)
  with c assms(1,2) show ?thesis
    by (intro dev_inv_ids [OF assms(1)]) (cases "submitted d"; auto simp: dev_inv_def)+
qed

lemma inv_read_done:
  assumes "dev_inv H n d s" "ongoing_read d" "length data \<le> length (in_mem d)"
  shows "dev_inv H n (fst (complete_read status data d)) s"
proof -
  have "skel_inv (fst (complete_read status data d))"
    using assms by (intro complete_read_props) (auto simp: dev_inv_def)
  then show ?thesis
    using assms(1,2) by (intro dev_inv_ids [OF assms(1)])
      (auto simp: dev_inv_def complete_read_def skel_read_bulk_callback_def ids_def Let_def)
qed

lemma inv_disconnect:
  assumes "dev_inv H n d s" "interface d \<noteq> 0" "skel_disconnect (usb_kill_in_urb d) s = (d', s')"
  shows "case d' of None \<Rightarrow> n = 0 \<and> resources s' = Some H | Some d1 \<Rightarrow> dev_inv H n d1 s'"
proof -
  let ?d = "usb_kill_in_urb d"
  have "skel_inv d" using assms(1) by (simp add: dev_inv_def)
  note k = kill_in_urb_props [OF this]
  note kb = base_ids [OF k(2)]
  let ?s1 = "call (Giveback ''usb_deregister_dev'' [Obj ''usb_minor'' (interface ?d)]) s"
  obtain d2 s2 where ka: "usb_kill_anchored_urbs (?d\<lparr>interface := 0\<rparr>) ?s1 = (d2, s2)" by (rule prod.exhaust)
  have "resources ?s1 = Some (H + base d + bufs (submitted (?d\<lparr>interface := 0\<rparr>)))"
    using assms(1,2) kb k(4) by (simp add: dev_inv_def ksimps minor_of_def objs_nonzero)
  note p = kill_anchored_props [OF ka this]
  have b2: "base d2 = base d" using p kb by (auto simp: ids_def base_def)
  from assms(3) ka have "kref_put d2 s2 = (d', s')" by (simp add: skel_disconnect_def Let_def)
  from kref_put_props [OF this, of H] p b2 have kp: "case d' of None \<Rightarrow> kref d2 = 1 \<and> resources s' = Some H
    | Some d1 \<Rightarrow> kref d2 \<noteq> 1 \<and> d1 = d2\<lparr>kref := kref d2 - 1\<rparr> \<and> resources s' = Some (H + base d1)" by simp
  have d2: "kref d2 = int n + 1" "interface d2 = 0" "submitted d2 = []" "limit_sem d2 = 8"
    using assms(1,2) k p by (simp_all add: dev_inv_def ids_def)
  have rd: "\<not> ongoing_read d2" "skel_inv d2"
    using p k(1,3) by (simp_all add: rd_side_def skel_inv_def)
  show ?thesis
  proof (cases d')
    case (Some d1)
    then have "d1 = d2\<lparr>kref := kref d2 - 1\<rparr>" "resources s' = Some (H + base d1)" "kref d2 \<noteq> 1" using kp by simp_all
    then show ?thesis using d2 rd Some by (simp add: dev_inv_def minor_of_def skel_inv_def)
  qed (use kp d2 in simp)
qed

lemma inv_release:
  assumes "dev_inv H n d s" "0 < n" "skel_release (Some d) s = (r, d', s')"
  shows "case d' of None \<Rightarrow> n = 1 \<and> resources s' = Some H | Some d1 \<Rightarrow> dev_inv H (n - 1) d1 s'"
proof -
  let ?s = "if interface d \<noteq> 0 then call (Plain ''usb_autopm_put_interface'' (interface d)) s else s"
  from assms(3) have kp: "kref_put d ?s = (d', s')" by (simp add: skel_release_def Let_def split: prod.splits)
  have rs: "resources ?s = Some (H + (minor_of d + bufs (submitted d)) + base d)"
    using assms(1) by (auto simp: dev_inv_def ksimps ac_simps)
  show ?thesis
    using kref_put_props [OF kp rs] assms(1,2)
    by (auto simp: dev_inv_def minor_of_def base_def skel_inv_def ac_simps split: option.splits if_splits)
qed

lemma inv_open:
  assumes "dev_inv H n d s" "skel_open (interface d) (Some d) f s = (r, d', f', s')" "interface d \<noteq> 0"
  shows "\<exists>d1. d' = Some d1 \<and> dev_inv H (if r = 0 then n + 1 else n) d1 s'"
proof -
  have eqs: "base (d\<lparr>kref := k\<rparr>) = base d" "minor_of (d\<lparr>kref := k\<rparr>) = minor_of d"
    "skel_inv (d\<lparr>kref := k\<rparr>) = skel_inv d" for k
    by (simp_all add: base_def minor_of_def skel_inv_def)
  let ?s = "answered (Plain ''usb_autopm_get_interface'' (ask s)) s"
  have "r = ask s" "d' = Some (if r = 0 then d\<lparr>kref := kref d + 1\<rparr> else d)" "s' = ?s"
    using assms(2,3) by (auto simp: skel_open_def status_call_def split: if_splits)
  moreover have "dev_inv H n d ?s" using assms(1) by (simp add: dev_inv_def ksimps)
  then have "dev_inv H (n + 1) (d\<lparr>kref := kref d + 1\<rparr>) ?s" by (simp add: dev_inv_def eqs)
  ultimately show ?thesis using \<open>dev_inv H n d ?s\<close> by (cases "r = 0") auto
qed

lemma sys_inv_simps:
  "sys_inv H \<lparr>sdev = Some d, opens = n, world = s\<rparr> \<longleftrightarrow> dev_inv H n d s"
  "sys_inv H \<lparr>sdev = None, opens = n, world = s\<rparr> \<longleftrightarrow> n = 0 \<and> resources s = Some H"
  "sys_inv H (S\<lparr>sdev := Some d\<rparr>) \<longleftrightarrow> dev_inv H (opens S) d (world S)"
  by (simp_all add: sys_inv_def)

lemma sys_inv_step:
  assumes "skel_step S S'" "sys_inv H S"
  shows "sys_inv H S'"
proof -
  have I: "dev_inv H (opens S) d (world S)" if "sdev S = Some d" for d
    using assms(2) that by (simp add: sys_inv_def)
  from assms(1) show ?thesis
  proof (cases rule: skel_step.cases)
    case (open_file d f r d' f' w')
    from inv_open [OF I [OF open_file(2)] open_file(4,3)]
    show ?thesis by (auto simp: open_file(1) sys_inv_simps)
  next
    case (release_file d r d' w')
    from inv_release [OF I [OF release_file(2)] release_file(3,5)]
    show ?thesis by (cases d') (auto simp: release_file(1) sys_inv_simps)
  next
    case (flush_file d st r d' w')
    from inv_flush [OF I [OF flush_file(2)] flush_file(5)]
    show ?thesis by (auto simp: flush_file(1) sys_inv_simps)
  next
    case (read_file d cnt evs nonblock rv out d' rest w')
    from inv_read [OF I [OF read_file(2)] read_file(7,5,6)]
    show ?thesis by (simp add: read_file(1) sys_inv_simps)
  next
    case (write_file d cnt nonblock ubuf r d' w')
    from inv_write [OF I [OF write_file(2)] write_file(6)]
    show ?thesis by (simp add: write_file(1) sys_inv_simps)
  next
    case (write_done d status d' w')
    from inv_write_done [OF I [OF write_done(2)] write_done(3,4)]
    show ?thesis by (simp add: write_done(1) sys_inv_simps)
  next
    case (read_done d data status)
    from inv_read_done [OF I [OF read_done(2)] read_done(3,4)]
    show ?thesis by (simp add: read_done(1) sys_inv_simps)
  next
    case (disconnected d d' w')
    from inv_disconnect [OF I [OF disconnected(2)] disconnected(3,5)]
    show ?thesis by (cases d') (auto simp: disconnected(1) sys_inv_simps)
  next
    case (suspended d st r d' w')
    obtain d1 s1 where dd: "skel_draw_down st d (world S) = (d1, s1)" by (rule prod.exhaust)
    from inv_draw_down [OF I [OF suspended(2)] dd] suspended(4) show ?thesis
      by (auto simp: suspended(1) sys_inv_simps skel_suspend_def dd)
  next
    case (pre_reset d st r d' w')
    obtain d1 s1 where dd: "skel_draw_down st (d\<lparr>io_mutex := True\<rparr>) (world S) = (d1, s1)" by (rule prod.exhaust)
    from inv_mutex [OF I [OF pre_reset(2)]] have "dev_inv H (opens S) (d\<lparr>io_mutex := True\<rparr>) (world S)" .
    from inv_draw_down [OF this dd] pre_reset(5) show ?thesis
      by (simp add: pre_reset(1) sys_inv_simps skel_pre_reset_def dd)
  next
    case (post_reset d r d')
    from inv_mutex [OF inv_errors [OF I [OF post_reset(2)], of "- EPIPE"], of False] post_reset(4)
    show ?thesis by (auto simp: post_reset(1) sys_inv_simps skel_post_reset_def)
  qed
qed

lemma reachable_sys_inv: "skel_reachable s0 S \<Longrightarrow> resources s0 = Some H \<Longrightarrow> sys_inv H S"
proof (induction rule: skel_reachable.induct)
  case (probed eps intf junk u d s')
  from probe_props [OF probed(3,1,4,2)] show ?case
    using probed(2) by (auto simp: sys_inv_def dev_inv_def)
qed (blast intro: sys_inv_step)

subsection \<open>Properties\<close>

text \<open>
  C11: In every reachable state at most eight writes are in flight, and \<open>limit_sem\<close> counts exactly the
  rest; the reference count is the number of open files plus one while the device is connected, and
  the structure exists exactly as long as one of these references does. Once the device is gone no
  transfer that could touch the structure is under way.
\<close>

theorem usb_reachable_counts:
  assumes "skel_reachable s0 S" "resources s0 = Some H"
  shows "case sdev S of
     None \<Rightarrow> opens S = 0
   | Some d \<Rightarrow> length (submitted d) \<le> 8 \<and> limit_sem d = 8 - int (length (submitted d)) \<and>
       kref d = int (opens S) + (if interface d = 0 then 0 else 1) \<and> 0 < kref d \<and>
       (interface d = 0 \<longrightarrow> submitted d = [] \<and> \<not> ongoing_read d)"
  using reachable_sys_inv [OF assms] by (auto simp: sys_inv_def dev_inv_def split: option.splits)

text \<open>
  C14: In every reachable state the resources held are exactly the structure, the receive buffer, its
  URB, the reference to the USB device, the minor number while connected, and one coherent buffer
  per write in flight; once the structure is freed, nothing is held and nothing was freed twice.
\<close>

theorem usb_reachable_resources:
  assumes "skel_reachable s0 S" "resources s0 = Some H"
  shows "resources (world S) = Some (case sdev S of
     None \<Rightarrow> H | Some d \<Rightarrow> H + base d + minor_of d + bufs (submitted d))"
  using reachable_sys_inv [OF assms] by (auto simp: sys_inv_def dev_inv_def split: option.splits)

definition start :: kworld where
  "start = \<lparr>answers = (\<lambda>n. if n = 3 then 0 else int n + 16), ncalls = 0, klog = []\<rparr>"

definition eps :: "endpoint list" where
  "eps = [\<lparr>is_bulk_in = True, is_bulk_out = False, bEndpointAddress = 0x81, maxp = 2\<rparr>,
          \<lparr>is_bulk_in = False, is_bulk_out = True, bEndpointAddress = 2, maxp = 2\<rparr>]"

definition probed_sys :: skel_sys where
  "probed_sys = (case skel_probe (\<lambda>_. 0) 5 6 eps start of (r, d, s) \<Rightarrow> \<lparr>sdev = d, opens = 0, world = s\<rparr>)"

lemma probed_sys_ok: "\<exists>d s. skel_probe (\<lambda>_. 0) 5 6 eps start = (0, Some d, s)"
  by (simp add: skel_probe_def eps_def start_def kdefs take_bulk_in_def take_bulk_out_def new_skel_def ask_def
      answered_def call_def Let_def)

lemma probed_sys_reachable: "skel_reachable start probed_sys"
proof -
  obtain d s where p: "skel_probe (\<lambda>_. 0) 5 6 eps start = (0, Some d, s)" using probed_sys_ok by auto
  have "eps_ok eps" by (simp add: eps_ok_def eps_def)
  from skel_reachable.probed [OF this _ p] show ?thesis by (simp add: probed_sys_def p)
qed

theorem usb_reachable_counts_witness:
  "case sdev probed_sys of None \<Rightarrow> True | Some d \<Rightarrow> limit_sem d = 8 - int (length (submitted d))"
  using usb_reachable_counts [OF probed_sys_reachable, of "{#}"]
  by (auto simp: resources_def start_def split: option.splits)

theorem usb_reachable_resources_witness:
  "resources (world probed_sys) = Some (case sdev probed_sys of
     None \<Rightarrow> {#} | Some d \<Rightarrow> {#} + base d + minor_of d + bufs (submitted d))"
  by (rule usb_reachable_resources [OF probed_sys_reachable]) (simp add: resources_def start_def)

text \<open>
  C15: A write either hands exactly the first \<open>min count MAX_TRANSFER\<close> bytes of the user's buffer to the
  device, reports that number and takes one of the eight slots, or it leaves the writes in flight,
  the slots and the resources as they were.
\<close>

theorem usb_write_all_or_nothing:
  assumes "skel_write d nonblock ubuf cnt s = Some (r, d', s')" "resources s = Some H"
  shows "(\<exists>u. r = min cnt (4096 - 512) \<and> interface d \<noteq> 0 \<and> 0 < limit_sem d \<and> submitted d' = submitted d @ [u] \<and>
      w_data u = map ubuf [0..<nat r] \<and> limit_sem d' = limit_sem d - 1 \<and>
      resources s' = Some (H + mset (objs ''coherent'' (w_buf u)))) \<or>
    submitted d' = submitted d \<and> limit_sem d' = limit_sem d \<and> resources s' = Some H"
  using skel_write_props [OF assms] by auto

theorem usb_write_all_or_nothing_witness:
  "\<exists>r d' s'. skel_write sample_skel True (\<lambda>i. of_nat i) 2
       \<lparr>answers = (\<lambda>n. if n < 2 then int n + 16 else 0), ncalls = 0, klog = []\<rparr> = Some (r, d', s') \<and>
     r = 2 \<and> limit_sem d' = limit_sem sample_skel - 1 \<and> map w_data (submitted d') = [[0, 1]]"
proof -
  let ?s = "\<lparr>answers = (\<lambda>n. if n < 2 then int n + 16 else 0), ncalls = 0, klog = []\<rparr>"
  let ?w = "skel_write sample_skel True (\<lambda>i. of_nat i) 2 ?s"
  have w: "\<exists>r d' s'. ?w = Some (r, d', s') \<and> submitted d' \<noteq> []"
    by (simp add: skel_write_def write_locked_def kdefs ask_def answered_def call_def Let_def sample_skel_def
        new_skel_def)
  then obtain r d' s' where r: "?w = Some (r, d', s')" "submitted d' \<noteq> []" by blast
  from usb_write_all_or_nothing [OF r(1), of "{#}"] r show ?thesis
    by (auto simp: resources_def sample_skel_def new_skel_def numeral_2_eq_2)
qed

end
