(* ===== verification/Devpts.thy ===== *)
theory Devpts
  imports Interfaces
begin

text \<open>
  The pseudo-terminal file system of \<open>src/fs/inode_orig.c\<close>, with
  \<open>CONFIG_DEVPTS_MULTIPLE_INSTANCES\<close>: mount options and their display, super blocks and their \<open>ptmx\<close>
  node, the allocation of pty numbers with its limits, and the nodes of the ptys.

  The kernel's parsers and identity maps are not part of the repository; they are the fields of \<open>env\<close>.
  A super block is the record \<open>super\<close>; its directory is the list of its entries.
\<close>

subsection \<open>Data\<close>

abbreviation (input) NR_UNIX98_PTY_MAX :: int where "NR_UNIX98_PTY_MAX \<equiv> 2 ^ 20"
abbreviation (input) DEVPTS_SUPER_MAGIC :: int where "DEVPTS_SUPER_MAGIC \<equiv> 0x1cd1"
abbreviation (input) S_IFCHR :: int where "S_IFCHR \<equiv> 0x2000"
abbreviation (input) DEVPTS_DEFAULT_MODE :: int where "DEVPTS_DEFAULT_MODE \<equiv> 0x180"

definition ptmx_dev :: dev_t where "ptmx_dev = MKDEV 5 2"

record pts_mount_opts =
  setuid :: bool
  setgid :: bool
  uid :: int
  gid :: int
  mode :: int
  ptmxmode :: int
  newinstance :: bool
  opt_max :: int

text \<open>
  What \<open>match_token\<close> recognises, with what \<open>match_int\<close> or \<open>match_octal\<close> then makes of the argument
  (\<open>None\<close>: a non-zero return).
\<close>

datatype token =
    Opt_uid "int option" | Opt_gid "int option" | Opt_mode "int option" | Opt_ptmxmode "int option"
  | Opt_newinstance | Opt_max "int option" | Opt_err

record env =
  match_token :: "string \<Rightarrow> token"
  make_kuid :: "int \<Rightarrow> int option"  \<comment> \<open>\<open>None\<close>: not \<open>uid_valid\<close>\<close>
  make_kgid :: "int \<Rightarrow> int option"
  from_kuid :: "int \<Rightarrow> int"
  from_kgid :: "int \<Rightarrow> int"
  in_init_ns :: bool
  fsuid :: int
  fsgid :: int
  ida_pick :: "int list \<Rightarrow> int"  \<comment> \<open>the number \<open>ida_get_new\<close> chooses\<close>

record node =
  n_addr :: addr
  i_ino :: int
  i_mode :: int
  i_uid :: int
  i_gid :: int
  i_rdev :: dev_t
  i_private :: addr

record dent =
  d_addr :: addr
  d_name :: string
  d_inode :: node

record pts_fs_info =
  fsi_addr :: addr
  allocated_ptys :: "int list"
  mount_opts :: pts_mount_opts
  ptmx_dentry :: addr

record super =
  s_magic :: int
  s_fs_info :: "pts_fs_info option"
  s_root :: "addr \<times> node"  \<comment> \<open>the dentry of the root (0: none) and its inode\<close>
  s_dir :: "dent list"

subsection \<open>Mount options\<close>

text \<open>\<open>strsep\<close> with a comma: the fields of the string, empty ones included.\<close>

fun strsep :: "string \<Rightarrow> string list" where
  "strsep [] = [[]]"
| "strsep (c # cs) = (if c = CHR '','' then [] # strsep cs
     else case strsep cs of [] \<Rightarrow> [[c]] | w # ws \<Rightarrow> (c # w) # ws)"

datatype parse_op = PARSE_MOUNT | PARSE_REMOUNT

definition S_IALLUGO_of :: "int \<Rightarrow> int" where
  "S_IALLUGO_of option = take_bit 12 option"

definition parse_option :: "env \<Rightarrow> parse_op \<Rightarrow> token \<Rightarrow> pts_mount_opts \<Rightarrow> int \<times> pts_mount_opts" where
  "parse_option E op tok opts =
     (case tok of
        Opt_uid None \<Rightarrow> (- EINVAL, opts)
      | Opt_uid (Some n) \<Rightarrow>
          (case make_kuid E n of None \<Rightarrow> (- EINVAL, opts)
           | Some u \<Rightarrow> (0, opts\<lparr>uid := u, setuid := True\<rparr>))
      | Opt_gid None \<Rightarrow> (- EINVAL, opts)
      | Opt_gid (Some n) \<Rightarrow>
          (case make_kgid E n of None \<Rightarrow> (- EINVAL, opts)
           | Some u \<Rightarrow> (0, opts\<lparr>gid := u, setgid := True\<rparr>))
      | Opt_mode None \<Rightarrow> (- EINVAL, opts)
      | Opt_mode (Some n) \<Rightarrow> (0, opts\<lparr>mode := S_IALLUGO_of n\<rparr>)
      | Opt_ptmxmode None \<Rightarrow> (- EINVAL, opts)
      | Opt_ptmxmode (Some n) \<Rightarrow> (0, opts\<lparr>ptmxmode := S_IALLUGO_of n\<rparr>)
      | Opt_newinstance \<Rightarrow> (0, if op = PARSE_MOUNT then opts\<lparr>newinstance := True\<rparr> else opts)
      | Opt_max None \<Rightarrow> (- EINVAL, opts)
      | Opt_max (Some n) \<Rightarrow>
          (if n < 0 \<or> n > NR_UNIX98_PTY_MAX then (- EINVAL, opts) else (0, opts\<lparr>opt_max := n\<rparr>))
      | Opt_err \<Rightarrow> (- EINVAL, opts))"

fun parse_words :: "env \<Rightarrow> parse_op \<Rightarrow> string list \<Rightarrow> pts_mount_opts \<Rightarrow> int \<times> pts_mount_opts" where
  "parse_words E op [] opts = (0, opts)"
| "parse_words E op (p # ps) opts =
     (if p = [] then parse_words E op ps opts
      else let (r, opts) = parse_option E op (match_token E p) opts in
      if r \<noteq> 0 then (r, opts) else parse_words E op ps opts)"

definition default_opts :: "pts_mount_opts \<Rightarrow> pts_mount_opts" where
  "default_opts opts = opts\<lparr>setuid := False, setgid := False, uid := 0, gid := 0,
     mode := DEVPTS_DEFAULT_MODE, ptmxmode := 0, opt_max := NR_UNIX98_PTY_MAX\<rparr>"

definition parse_mount_options :: "env \<Rightarrow> string option \<Rightarrow> parse_op \<Rightarrow> pts_mount_opts \<Rightarrow> int \<times> pts_mount_opts" where
  "parse_mount_options E data op opts =
     (let opts = default_opts opts;
        opts = (if op = PARSE_MOUNT then opts\<lparr>newinstance := False\<rparr> else opts)
      in case data of None \<Rightarrow> (0, opts) | Some d \<Rightarrow> parse_words E op (strsep d) opts)"

text \<open>\<open>%u\<close>, \<open>%d\<close> and \<open>%03o\<close> of a non-negative number.\<close>

fun digits :: "nat \<Rightarrow> nat \<Rightarrow> string" where
  "digits b n = (if b < 2 \<or> n < b then [char_of (48 + n)] else digits b (n div b) @ [char_of (48 + n mod b)])"

declare digits.simps [simp del]

definition pad3 :: "string \<Rightarrow> string" where
  "pad3 s = replicate (3 - length s) (CHR ''0'') @ s"

definition devpts_show_options :: "env \<Rightarrow> pts_fs_info \<Rightarrow> string" where
  "devpts_show_options E fsi =
     (let opts = mount_opts fsi in
      (if setuid opts then '',uid='' @ digits 10 (nat (from_kuid E (uid opts))) else []) @
      (if setgid opts then '',gid='' @ digits 10 (nat (from_kgid E (gid opts))) else []) @
      '',mode='' @ pad3 (digits 8 (nat (mode opts))) @
      '',ptmxmode='' @ pad3 (digits 8 (nat (ptmxmode opts))) @
      (if opt_max opts < NR_UNIX98_PTY_MAX then '',max='' @ digits 10 (nat (opt_max opts)) else []))"

subsection \<open>The ptmx node and remounting\<close>

definition update_ptmx_mode :: "super \<Rightarrow> pts_fs_info \<Rightarrow> super" where
  "update_ptmx_mode sb fsi =
     (if ptmx_dentry fsi \<noteq> 0 then
        sb\<lparr>s_dir := map (\<lambda>d. if d_addr d = ptmx_dentry fsi
             then d\<lparr>d_inode := (d_inode d)\<lparr>i_mode := S_IFCHR OR ptmxmode (mount_opts fsi)\<rparr>\<rparr> else d) (s_dir sb)\<rparr>
      else sb)"

text \<open>\<open>None\<close> is a dereference of the missing \<open>s_fs_info\<close>.\<close>

definition devpts_remount :: "env \<Rightarrow> super \<Rightarrow> string option \<Rightarrow> (int \<times> super) option" where
  "devpts_remount E sb data =
     (case s_fs_info sb of None \<Rightarrow> None
      | Some fsi \<Rightarrow>
          (let (err, opts) = parse_mount_options E data PARSE_REMOUNT (mount_opts fsi);
             fsi = fsi\<lparr>mount_opts := opts\<rparr>;
             sb = sb\<lparr>s_fs_info := Some fsi\<rparr>
           in Some (err, update_ptmx_mode sb fsi)))"

definition mknod_ptmx :: "env \<Rightarrow> super \<Rightarrow> pts_fs_info \<Rightarrow> kworld \<Rightarrow> int \<times> super \<times> kworld" where
  "mknod_ptmx E sb fsi s =
     (case (make_kuid E 0, make_kgid E 0) of
        (Some root_uid, Some root_gid) \<Rightarrow>
          (if ptmx_dentry fsi \<noteq> 0 then (0, sb, s)
           else let (dentry, s) = obtain_obj ''d_alloc_name'' ''dentry'' s in
           if dentry = 0 then (- ENOMEM, sb, s)
           else let (inode, s) = obtain_obj ''new_inode'' ''inode'' s in
           if inode = 0 then (- ENOMEM, sb, giveback_obj ''dput'' ''dentry'' dentry s)
           else let node = \<lparr>n_addr = inode, i_ino = 2, i_mode = S_IFCHR OR ptmxmode (mount_opts fsi),
                  i_uid = root_uid, i_gid = root_gid, i_rdev = ptmx_dev, i_private = 0\<rparr>;
                sb = sb\<lparr>s_dir := s_dir sb @ [\<lparr>d_addr = dentry, d_name = ''ptmx'', d_inode = node\<rparr>]\<rparr>;
                sb = sb\<lparr>s_fs_info := Some (fsi\<lparr>ptmx_dentry := dentry\<rparr>)\<rparr>
           in (0, sb, s))
      | _ \<Rightarrow> (- EINVAL, sb, s))"

subsection \<open>Super blocks\<close>

definition zero_opts :: pts_mount_opts where
  "zero_opts = \<lparr>setuid = False, setgid = False, uid = 0, gid = 0, mode = 0, ptmxmode = 0,
     newinstance = False, opt_max = 0\<rparr>"

definition new_pts_fs_info :: "kworld \<Rightarrow> pts_fs_info option \<times> kworld" where
  "new_pts_fs_info s =
     (let (p, s) = kzalloc (Sizeof ''pts_fs_info'') s in
      if p = 0 then (None, s)
      else (Some \<lparr>fsi_addr = p, allocated_ptys = [],
              mount_opts = zero_opts\<lparr>mode := DEVPTS_DEFAULT_MODE, ptmxmode := 0\<rparr>, ptmx_dentry = 0\<rparr>, s))"

text \<open>\<open>d_make_root\<close> gives the inode back when it fails.\<close>

definition devpts_fill_super :: "super \<Rightarrow> kworld \<Rightarrow> int \<times> super \<times> kworld" where
  "devpts_fill_super sb s =
     (let sb = sb\<lparr>s_magic := DEVPTS_SUPER_MAGIC\<rparr>;
        (info, s) = new_pts_fs_info s;
        sb = sb\<lparr>s_fs_info := info\<rparr> in
      if info = None then (- ENOMEM, sb, s)
      else let (inode, s) = obtain_obj ''new_inode'' ''inode'' s in
      if inode = 0 then (- ENOMEM, sb, s)
      else let node = \<lparr>n_addr = inode, i_ino = 1, i_mode = 0x41ed, i_uid = 0, i_gid = 0, i_rdev = 0, i_private = 0\<rparr>;
        (root, s) = obtain_obj ''d_make_root'' ''dentry'' s in
      if root \<noteq> 0 then (0, sb\<lparr>s_root := (root, node)\<rparr>, s)
      else (- ENOMEM, sb, giveback_obj ''iput'' ''inode'' inode s))"

text \<open>
  \<open>devpts_kill_sb\<close> passes the address of a field of \<open>s_fs_info\<close> to \<open>ida_destroy\<close>: without \<open>s_fs_info\<close> this
  is a dereference of \<open>NULL\<close>. \<open>kill_litter_super\<close> gives back the dentries and inodes of the tree.
\<close>

definition tree_objs :: "super \<Rightarrow> res list" where
  "tree_objs sb = (if fst (s_root sb) = 0 then []
       else [Obj ''dentry'' (fst (s_root sb)), Obj ''inode'' (n_addr (snd (s_root sb)))]) @
     concat (map (\<lambda>d. [Obj ''dentry'' (d_addr d), Obj ''inode'' (n_addr (d_inode d))]) (s_dir sb))"

definition devpts_kill_sb :: "super \<Rightarrow> kworld \<Rightarrow> kworld option" where
  "devpts_kill_sb sb s =
     (case s_fs_info sb of None \<Rightarrow> None
      | Some fsi \<Rightarrow>
          (let s = kfree (fsi_addr fsi) s
           in Some (call (Giveback ''kill_litter_super'' (tree_objs sb)) s)))"

definition new_super :: super where
  "new_super = \<lparr>s_magic = 0, s_fs_info = None,
     s_root = (0, \<lparr>n_addr = 0, i_ino = 0, i_mode = 0, i_uid = 0, i_gid = 0, i_rdev = 0, i_private = 0\<rparr>), s_dir = []\<rparr>"

text \<open>
  \<open>sget\<close> looks for a super block that passes the test and makes a new one otherwise. The variable
  \<open>devpts_mnt\<close>, which the test refers to, is the index of the super block of the kernel's own mount.
\<close>

definition compare_init_pts_sb :: "nat option \<Rightarrow> nat \<Rightarrow> bool" where
  "compare_init_pts_sb devpts_mnt i = (case devpts_mnt of Some m \<Rightarrow> m = i | None \<Rightarrow> False)"

definition sget :: "(nat \<Rightarrow> bool) \<Rightarrow> super list \<Rightarrow> nat \<times> super list" where
  "sget test sbs = (case List.find test [0..<length sbs] of
     Some i \<Rightarrow> (i, sbs) | None \<Rightarrow> (length sbs, sbs @ [new_super]))"

datatype 'a outcome = Crash | Done int 'a

text \<open>
  The result is the super block's index or an error; \<open>deactivate_locked_super\<close> drops the last reference
  of a fresh super block, which calls \<open>devpts_kill_sb\<close>.
\<close>

definition undo_sget :: "int \<Rightarrow> super list \<Rightarrow> super \<Rightarrow> kworld \<Rightarrow> (super list \<times> kworld) outcome" where
  "undo_sget error sbs sb s =
     (case devpts_kill_sb sb s of None \<Rightarrow> Crash | Some s \<Rightarrow> Done error (sbs, s))"

definition devpts_mount :: "env \<Rightarrow> nat option \<Rightarrow> string option \<Rightarrow> super list \<Rightarrow> kworld \<Rightarrow>
    (super list \<times> kworld) outcome" where
  "devpts_mount E devpts_mnt data sbs s =
     (let (error, opts) = parse_mount_options E data PARSE_MOUNT zero_opts in
      if error \<noteq> 0 then Done error (sbs, s)
      else if \<not> in_init_ns E \<and> \<not> newinstance opts then Done (- EINVAL) (sbs, s)
      else let (r, s) = status_call ''sget'' s in
      if r < 0 then Done r (sbs, s)
      else let (i, all) = sget (if newinstance opts then (\<lambda>_. False) else compare_init_pts_sb devpts_mnt) sbs;
        sb = all ! i;
        (error, sb, s) = (if fst (s_root sb) = 0 then devpts_fill_super sb s else (0, sb, s)) in
      if error \<noteq> 0 then undo_sget error sbs sb s
      else case s_fs_info sb of None \<Rightarrow> Crash
      | Some fsi \<Rightarrow>
          (let fsi = fsi\<lparr>mount_opts := opts\<rparr>;
             sb = sb\<lparr>s_fs_info := Some fsi\<rparr>;
             (error, sb, s) = mknod_ptmx E sb fsi s
           in if error \<noteq> 0 then undo_sget error sbs sb s
              else Done (int i) (all[i := sb], s)))"

subsection \<open>Pty numbers\<close>

record pty_vars =
  pty_count :: int
  pty_limit :: int
  pty_reserve :: int

text \<open>
  The loop \<open>retry\<close> ends when \<open>ida_get_new\<close> stops asking for another try; \<open>None\<close> is a loop that never ends.
\<close>

partial_function (option) devpts_new_index :: "env \<Rightarrow> pty_vars \<Rightarrow> pts_fs_info option \<Rightarrow> kworld \<Rightarrow>
    (int \<times> pty_vars \<times> pts_fs_info option \<times> kworld) option" where
  "devpts_new_index E v info s =
     (case info of None \<Rightarrow> Some (- ENODEV, v, None, s)
      | Some fsi \<Rightarrow>
          (let (ok, s) = status_call ''ida_pre_get'' s in
           if ok = 0 then Some (- ENOMEM, v, Some fsi, s)
           else if pty_count v \<ge> pty_limit v - (if newinstance (mount_opts fsi) then pty_reserve v else 0)
           then Some (- ENOSPC, v, Some fsi, s)
           else let (ida_ret, s) = status_call ''ida_get_new'' s in
           if ida_ret < 0 then
             (if ida_ret = - EAGAIN then devpts_new_index E v (Some fsi) s else Some (- EIO, v, Some fsi, s))
           else let index = ida_pick E (allocated_ptys fsi); ids = index # allocated_ptys fsi in
           if index \<ge> opt_max (mount_opts fsi) then
             Some (- ENOSPC, v, Some (fsi\<lparr>allocated_ptys := remove1 index ids\<rparr>), s)
           else Some (index, v\<lparr>pty_count := pty_count v + 1\<rparr>, Some (fsi\<lparr>allocated_ptys := ids\<rparr>), s)))"

lemma new_index_None [simp]: "devpts_new_index E v None s = Some (- ENODEV, v, None, s)"
  by (subst devpts_new_index.simps) simp

definition devpts_kill_index :: "pty_vars \<Rightarrow> pts_fs_info \<Rightarrow> int \<Rightarrow> pty_vars \<times> pts_fs_info" where
  "devpts_kill_index v fsi idx =
     (v\<lparr>pty_count := pty_count v - 1\<rparr>, fsi\<lparr>allocated_ptys := remove1 idx (allocated_ptys fsi)\<rparr>)"

subsection \<open>Pty nodes\<close>

text \<open>The inode the caller holds: its super block's magic number, and the super block if it is a devpts.\<close>

definition pts_sb_from_inode :: "nat option \<Rightarrow> super list \<Rightarrow> nat \<Rightarrow> int \<Rightarrow> nat option" where
  "pts_sb_from_inode devpts_mnt sbs i magic =
     (if magic = DEVPTS_SUPER_MAGIC then Some i
      else case devpts_mnt of None \<Rightarrow> None | Some m \<Rightarrow> Some m)"

definition devpts_get_ref :: "nat option \<Rightarrow> super list \<Rightarrow> nat \<Rightarrow> int \<Rightarrow> (nat \<Rightarrow> int) \<Rightarrow> pts_fs_info option \<times> (nat \<Rightarrow> int)" where
  "devpts_get_ref devpts_mnt sbs i magic s_active =
     (case pts_sb_from_inode devpts_mnt sbs i magic of None \<Rightarrow> (None, s_active)
      | Some j \<Rightarrow>
          (case s_fs_info (sbs ! j) of None \<Rightarrow> (None, s_active)
           | Some fsi \<Rightarrow> (Some fsi, s_active(j := s_active j + 1))))"

text \<open>\<open>deactivate_super\<close> drops a reference; with the last one the super block is killed.\<close>

definition devpts_put_ref :: "super list \<Rightarrow> nat \<Rightarrow> (nat \<Rightarrow> int) \<Rightarrow> kworld \<Rightarrow> ((nat \<Rightarrow> int) \<times> kworld) option" where
  "devpts_put_ref sbs j s_active s =
     (let s_active = s_active(j := s_active j - 1) in
      if s_active j = 0 then (case devpts_kill_sb (sbs ! j) s of None \<Rightarrow> None | Some s \<Rightarrow> Some (s_active, s))
      else Some (s_active, s))"

definition devpts_pty_new :: "env \<Rightarrow> super \<Rightarrow> pts_fs_info option \<Rightarrow> dev_t \<Rightarrow> int \<Rightarrow> addr \<Rightarrow> kworld \<Rightarrow>
    (int + node) \<times> super \<times> kworld" where
  "devpts_pty_new E sb fsi device index priv s =
     (case fsi of None \<Rightarrow> (Inl (- ENODEV), sb, s)
      | Some fsi \<Rightarrow>
          (let opts = mount_opts fsi; (inode, s) = obtain_obj ''new_inode'' ''inode'' s in
           if inode = 0 then (Inl (- ENOMEM), sb, s)
           else let node = \<lparr>n_addr = inode, i_ino = index + 3, i_mode = S_IFCHR OR mode opts,
                  i_uid = (if setuid opts then uid opts else fsuid E),
                  i_gid = (if setgid opts then gid opts else fsgid E),
                  i_rdev = device, i_private = priv\<rparr>;
                name = digits 10 (nat index);
                (dentry, s) = obtain_obj ''d_alloc_name'' ''dentry'' s in
           if dentry \<noteq> 0 then
             (Inr node, sb\<lparr>s_dir := s_dir sb @ [\<lparr>d_addr = dentry, d_name = name, d_inode = node\<rparr>]\<rparr>, s)
           else (Inl (- ENOMEM), sb, giveback_obj ''iput'' ''inode'' inode s)))"

definition d_find_alias :: "super \<Rightarrow> node \<Rightarrow> dent option" where
  "d_find_alias sb n = List.find (\<lambda>d. n_addr (d_inode d) = n_addr n) (s_dir sb)"

text \<open>\<open>None\<close> is the \<open>BUG_ON\<close> for the \<open>ptmx\<close> node.\<close>

definition devpts_get_priv :: "super \<Rightarrow> node \<Rightarrow> addr option" where
  "devpts_get_priv sb n =
     (if i_rdev n = ptmx_dev then None
      else case d_find_alias sb n of None \<Rightarrow> Some 0
      | Some d \<Rightarrow> Some (if s_magic sb = DEVPTS_SUPER_MAGIC then i_private n else 0))"

definition devpts_pty_kill :: "super \<Rightarrow> node \<Rightarrow> kworld \<Rightarrow> (super \<times> kworld) option" where
  "devpts_pty_kill sb n s =
     (if i_rdev n = ptmx_dev then None
      else case d_find_alias sb n of None \<Rightarrow> None
      | Some d \<Rightarrow> Some (sb\<lparr>s_dir := filter (\<lambda>e. d_addr e \<noteq> d_addr d) (s_dir sb)\<rparr>,
          call (Giveback ''d_delete'' [Obj ''dentry'' (d_addr d), Obj ''inode'' (n_addr n)]) s))"

subsection \<open>The module\<close>

definition init_example_fs :: "kworld \<Rightarrow> int \<times> kworld" where
  "init_example_fs s =
     (let (err, s) = obtain_if_ok ''register_filesystem'' ''file_system_type'' 1 s in
      if err \<noteq> 0 then (err, call (Plain ''unregister_filesystem'' 1) s) else (err, s))"

definition exit_example_fs :: "kworld \<Rightarrow> kworld" where
  "exit_example_fs s = call (Giveback ''unregister_filesystem'' [Obj ''file_system_type'' 1]) s"

subsection \<open>Options survive being displayed and parsed\<close>

lemma strsep_ne [simp]: "strsep cs \<noteq> []"
  by (cases cs) (auto split: list.splits)

lemma strsep_word: "CHR '','' \<notin> set w \<Longrightarrow> strsep (w @ CHR '','' # rest) = w # strsep rest"
  by (induction w) auto

lemma strsep_last: "CHR '','' \<notin> set w \<Longrightarrow> strsep w = [w]"
  by (induction w) auto

lemma strsep_fields:
  "\<forall>w\<in>set ws. CHR '','' \<notin> set w \<Longrightarrow> strsep (concat (map (\<lambda>w. CHR '','' # w) ws)) = [] # ws"
proof (induction ws)
  case (Cons w ws)
  have "strsep (w @ concat (map (\<lambda>w. CHR '','' # w) ws)) = w # ws"
    using Cons by (cases ws) (simp_all add: strsep_word strsep_last)
  then show ?case by simp
qed simp

lemma digits_no_comma: "2 \<le> b \<Longrightarrow> b \<le> 10 \<Longrightarrow> CHR '','' \<notin> set (digits b n)"
proof (induction b n rule: digits.induct)
  case (1 b n)
  have ne: "CHR '','' \<noteq> char_of (48 + k)" if "k < 10" for k :: nat
  proof
    assume "CHR '','' = char_of (48 + k)"
    then have "of_char (CHR '','') = (of_char (char_of (48 + k) :: char) :: nat)" by simp
    then show False using that by simp
  qed
  have "n mod b < 10" using 1(2,3) mod_less_divisor [of b n] by linarith
  then show ?case
    using 1 ne [of "n mod b"] ne [of n] by (subst digits.simps) auto
qed

text \<open>What the kernel's scanners are documented to do with the formats the driver prints.\<close>

definition scans :: "env \<Rightarrow> bool" where
  "scans E \<longleftrightarrow> (\<forall>n < 2 ^ 31. match_token E (''uid='' @ digits 10 n) = Opt_uid (Some (int n)) \<and>
       match_token E (''gid='' @ digits 10 n) = Opt_gid (Some (int n)) \<and>
       match_token E (''max='' @ digits 10 n) = Opt_max (Some (int n))) \<and>
     (\<forall>n < 2 ^ 12. match_token E (''mode='' @ pad3 (digits 8 n)) = Opt_mode (Some (int n)) \<and>
       match_token E (''ptmxmode='' @ pad3 (digits 8 n)) = Opt_ptmxmode (Some (int n)))"

lemma scansD:
  assumes "scans E"
  shows "0 \<le> k \<Longrightarrow> k < 2 ^ 31 \<Longrightarrow> match_token E (''uid='' @ digits 10 (nat k)) = Opt_uid (Some k)"
    "0 \<le> k \<Longrightarrow> k < 2 ^ 31 \<Longrightarrow> match_token E (''gid='' @ digits 10 (nat k)) = Opt_gid (Some k)"
    "0 \<le> k \<Longrightarrow> k < 2 ^ 31 \<Longrightarrow> match_token E (''max='' @ digits 10 (nat k)) = Opt_max (Some k)"
    "0 \<le> k \<Longrightarrow> k < 2 ^ 12 \<Longrightarrow> match_token E (''mode='' @ pad3 (digits 8 (nat k))) = Opt_mode (Some k)"
    "0 \<le> k \<Longrightarrow> k < 2 ^ 12 \<Longrightarrow> match_token E (''ptmxmode='' @ pad3 (digits 8 (nat k))) = Opt_ptmxmode (Some k)"
  using assms unfolding scans_def by (metis nat_0_le nat_less_iff zless_nat_eq_int_zless of_nat_numeral of_nat_power)+

text \<open>Options as a mount can set them, with identities that have a number in the initial name space.\<close>

definition opts_ok :: "env \<Rightarrow> pts_mount_opts \<Rightarrow> bool" where
  "opts_ok E o' \<longleftrightarrow> 0 \<le> mode o' \<and> mode o' < 2 ^ 12 \<and> 0 \<le> ptmxmode o' \<and> ptmxmode o' < 2 ^ 12 \<and>
     0 \<le> opt_max o' \<and> opt_max o' \<le> NR_UNIX98_PTY_MAX \<and>
     (if setuid o' then 0 \<le> from_kuid E (uid o') \<and> from_kuid E (uid o') < 2 ^ 31 \<and>
        make_kuid E (from_kuid E (uid o')) = Some (uid o') else uid o' = 0) \<and>
     (if setgid o' then 0 \<le> from_kgid E (gid o') \<and> from_kgid E (gid o') < 2 ^ 31 \<and>
        make_kgid E (from_kgid E (gid o')) = Some (gid o') else gid o' = 0)"

definition option_words :: "env \<Rightarrow> pts_mount_opts \<Rightarrow> string list" where
  "option_words E o' =
     (if setuid o' then [''uid='' @ digits 10 (nat (from_kuid E (uid o')))] else []) @
     (if setgid o' then [''gid='' @ digits 10 (nat (from_kgid E (gid o')))] else []) @
     [''mode='' @ pad3 (digits 8 (nat (mode o'))), ''ptmxmode='' @ pad3 (digits 8 (nat (ptmxmode o')))] @
     (if opt_max o' < NR_UNIX98_PTY_MAX then [''max='' @ digits 10 (nat (opt_max o'))] else [])"

lemma show_words:
  "devpts_show_options E fsi = concat (map (\<lambda>w. CHR '','' # w) (option_words E (mount_opts fsi)))"
  by (simp add: devpts_show_options_def option_words_def Let_def)

lemma option_words_no_comma: "\<forall>w\<in>set (option_words E o'). CHR '','' \<notin> set w"
  by (auto simp: option_words_def pad3_def digits_no_comma)

lemma parse_words_ok:
  "parse_words E op xs o' = (0, o'') \<Longrightarrow> parse_words E op (xs @ ys) o' = parse_words E op ys o''"
  by (induction xs arbitrary: o') (auto simp: Let_def split: prod.splits if_splits)

lemma parse_option_words:
  assumes "scans E" "opts_ok E o'"
  shows "parse_words E PARSE_REMOUNT (option_words E o') (default_opts q) = (0, o'\<lparr>newinstance := newinstance q\<rparr>)"
proof -
  let ?W = "\<lambda>ws. parse_words E PARSE_REMOUNT ws"
  note sc = scansD [OF assms(1), simplified]
  note ok = assms(2) [unfolded opts_ok_def]
  have u: "?W (if setuid o' then [''uid='' @ digits 10 (nat (from_kuid E (uid o')))] else []) (default_opts q) =
      (0, (default_opts q)\<lparr>uid := uid o', setuid := setuid o'\<rparr>)"
    using ok sc(1) [of "from_kuid E (uid o')"]
    by (cases "setuid o'") (simp_all add: parse_option_def default_opts_def)
  have g: "?W (if setgid o' then [''gid='' @ digits 10 (nat (from_kgid E (gid o')))] else [])
      ((default_opts q)\<lparr>uid := uid o', setuid := setuid o'\<rparr>) =
      (0, (default_opts q)\<lparr>uid := uid o', setuid := setuid o', gid := gid o', setgid := setgid o'\<rparr>)"
    using ok sc(2) [of "from_kgid E (gid o')"]
    by (cases "setgid o'") (simp_all add: parse_option_def default_opts_def)
  have m: "?W [''mode='' @ pad3 (digits 8 (nat (mode o'))), ''ptmxmode='' @ pad3 (digits 8 (nat (ptmxmode o')))] x =
      (0, x\<lparr>mode := mode o', ptmxmode := ptmxmode o'\<rparr>)" for x
    using ok sc(4) [of "mode o'"] sc(5) [of "ptmxmode o'"]
    by (simp add: parse_option_def S_IALLUGO_of_def take_bit_int_eq_self)
  have x: "?W (if opt_max o' < NR_UNIX98_PTY_MAX then [''max='' @ digits 10 (nat (opt_max o'))] else []) y =
      (0, y\<lparr>opt_max := opt_max o'\<rparr>)" if "opt_max y = NR_UNIX98_PTY_MAX" for y
    using ok that sc(3) [of "opt_max o'"]
    by (cases "opt_max o' < NR_UNIX98_PTY_MAX") (simp_all add: parse_option_def)
  show ?thesis
    unfolding option_words_def
    by (subst parse_words_ok [OF u], subst parse_words_ok [OF g], subst parse_words_ok [OF m], subst x)
      (simp_all add: default_opts_def)
qed

subsection \<open>Pty numbers\<close>

text \<open>The documented contract of \<open>ida_get_new\<close>: an unused number that is not negative.\<close>

definition ida_ok :: "env \<Rightarrow> bool" where
  "ida_ok E \<longleftrightarrow> (\<forall>ids. ida_pick E ids \<notin> set ids \<and> 0 \<le> ida_pick E ids)"

definition new_index_spec :: "pty_vars \<Rightarrow> pts_fs_info \<Rightarrow> int \<Rightarrow> pty_vars \<Rightarrow> pts_fs_info option \<Rightarrow> bool" where
  "new_index_spec v fsi r v' fsi' \<longleftrightarrow> (\<exists>f'. 0 \<le> r \<and> fsi' = Some f' \<and> r \<notin> set (allocated_ptys fsi) \<and> r < opt_max (mount_opts fsi) \<and>
      allocated_ptys f' = r # allocated_ptys fsi \<and> mount_opts f' = mount_opts fsi \<and>
      v' = v\<lparr>pty_count := pty_count v + 1\<rparr> \<and>
      pty_count v < pty_limit v - (if newinstance (mount_opts fsi) then pty_reserve v else 0)) \<or>
    r < 0 \<and> v' = v \<and> fsi' = Some fsi"

lemma new_index_result:
  assumes "devpts_new_index E v info s = Some (r, v', info', s')"
  shows "(ida_ok E \<longrightarrow> (\<forall>fsi. info = Some fsi \<longrightarrow> new_index_spec v fsi r v' info')) \<and>
    (\<forall>H. resources s = Some H \<longrightarrow> resources s' = Some H) \<and> map_option fsi_addr info' = map_option fsi_addr info"
proof -
  have "case y of (r, v', info', s') \<Rightarrow> (ida_ok E \<longrightarrow> (\<forall>fsi. info = Some fsi \<longrightarrow> new_index_spec v fsi r v' info')) \<and>
      (\<forall>H. resources s = Some H \<longrightarrow> resources s' = Some H) \<and> map_option fsi_addr info' = map_option fsi_addr info"
    if "devpts_new_index E v info s = Some y" for y
    using that
  proof (induction rule: devpts_new_index.raw_induct [rotated, consumes 1])
    case (1 f E v info s y)
    show ?case
    proof (cases info)
      case (Some fsi)
      let ?s1 = "answered (Plain ''ida_pre_get'' (ask s)) s"
      let ?s2 = "answered (Plain ''ida_get_new'' (ask ?s1)) ?s1"
      have res: "resources ?s1 = resources s" "resources ?s2 = resources s" by (simp_all add: ksimps)
      show ?thesis
      proof (cases "ask s \<noteq> 0 \<and> pty_count v < pty_limit v - (if newinstance (mount_opts fsi) then pty_reserve v else 0) \<and> ask ?s1 = - EAGAIN")
        case True
        then have "f E v (Some fsi) ?s2 = Some y"
          using 1(2) Some by (simp add: status_call_def Let_def split: if_splits)
        from 1(1) [OF this] show ?thesis unfolding Some res .
      next
        case False
        then show ?thesis
          using 1(2) Some res by (auto simp: status_call_def new_index_spec_def ida_ok_def Let_def split: if_splits)
      qed
    qed (use 1(2) in auto)
  qed
  from this [OF assms] show ?thesis by simp
qed

lemma new_index_cases:
  assumes "devpts_new_index E v (Some fsi) s = Some (r, v', fsi', s')" "ida_ok E"
  shows "(\<exists>f'. 0 \<le> r \<and> fsi' = Some f' \<and> r \<notin> set (allocated_ptys fsi) \<and> r < opt_max (mount_opts fsi) \<and>
      allocated_ptys f' = r # allocated_ptys fsi \<and> mount_opts f' = mount_opts fsi \<and>
      v' = v\<lparr>pty_count := pty_count v + 1\<rparr> \<and>
      pty_count v < pty_limit v - (if newinstance (mount_opts fsi) then pty_reserve v else 0)) \<or>
    r < 0 \<and> v' = v \<and> fsi' = Some fsi"
  using new_index_result [OF assms(1)] assms(2) unfolding new_index_spec_def by blast

text \<open>The loop ends as soon as the allocator stops asking for a retry.\<close>

lemma new_index_returns:
  "answers s (ncalls s + 2 * k + 1) \<noteq> - EAGAIN \<Longrightarrow> devpts_new_index E v (Some fsi) s \<noteq> None"
proof (induction k arbitrary: s)
  case 0
  then have "ask (answered (Plain ''ida_pre_get'' (ask s)) s) \<noteq> - EAGAIN" by (simp add: ask_def answered_def)
  then show ?case by (subst devpts_new_index.simps) (simp add: status_call_def Let_def)
next
  case (Suc k)
  let ?s1 = "answered (Plain ''ida_pre_get'' (ask s)) s"
  let ?s2 = "answered (Plain ''ida_get_new'' (ask ?s1)) ?s1"
  have "answers ?s2 (ncalls ?s2 + 2 * k + 1) \<noteq> - EAGAIN"
    using Suc.prems by (simp add: answered_def)
  note IH = Suc.IH [OF this]
  show ?case
  proof (cases "ask ?s1 = - EAGAIN")
    case True
    with IH show ?thesis by (subst devpts_new_index.simps) (simp add: status_call_def Let_def)
  next
    case False
    then show ?thesis by (subst devpts_new_index.simps) (simp add: status_call_def Let_def)
  qed
qed

definition allocated :: "super \<Rightarrow> int list" where
  "allocated sb = (case s_fs_info sb of None \<Rightarrow> [] | Some fsi \<Rightarrow> allocated_ptys fsi)"

lemma sum_list_update_int:
  "i < length xs \<Longrightarrow> int (sum_list (map f (xs[i := y]))) = int (sum_list (map f xs)) - int (f (xs ! i)) + int (f y)"
  by (induction xs arbitrary: i) (auto split: nat.splits)

text \<open>With \<open>devpts_mnt\<close> unset, \<open>sget\<close> never finds a super block.\<close>

lemma find_False [simp]: "List.find (\<lambda>_. False) xs = None"
  by (induction xs) simp_all

lemma sget_None: "sget (if b then \<lambda>_. False else compare_init_pts_sb None) ss = (length ss, ss @ [new_super])"
proof -
  have "compare_init_pts_sb None = (\<lambda>_. False)" by (simp add: compare_init_pts_sb_def fun_eq_iff)
  then show ?thesis by (simp add: sget_def)
qed

lemma parse_words_status: "fst (parse_words E op ws o') \<in> {0, - EINVAL}"
proof (induction ws arbitrary: o')
  case (Cons w ws)
  have "fst (parse_option E op tok o'') \<in> {0, - EINVAL}" for tok o''
    by (auto simp: parse_option_def split: token.splits option.splits)
  from this [of "match_token E w" o'] Cons show ?case by (auto simp: Let_def split: prod.splits)
qed simp

lemma parse_status: "fst (parse_mount_options E data op o') \<in> {0, - EINVAL}"
  using parse_words_status by (auto simp: parse_mount_options_def Let_def split: option.splits)

text \<open>A new super block: what it holds, and what happens on each failure.\<close>

definition sb_owns :: "super \<Rightarrow> res multiset" where
  "sb_owns sb = mset (tree_objs sb) + (case s_fs_info sb of None \<Rightarrow> {#} | Some fsi \<Rightarrow> mem_res (fsi_addr fsi))"

lemma kill_sb_owns:
  "s_fs_info sb = Some fsi \<Longrightarrow> resources s = Some (H + sb_owns sb) \<Longrightarrow>
   \<exists>s'. devpts_kill_sb sb s = Some s' \<and> resources s' = Some H"
  by (simp add: devpts_kill_sb_def sb_owns_def kfree_def resources_call kstep_kfree kstep_giveback
      add.assoc [symmetric])

lemma fill_super_props:
  assumes "devpts_fill_super new_super s = (r, sb, s')" "resources s = Some H"
  shows "resources s' = Some (H + sb_owns sb) \<and> allocated sb = [] \<and> r \<in> {0, - ENOMEM} \<and> s_dir sb = [] \<and>
    (s_fs_info sb = None \<longleftrightarrow> ask s = 0) \<and> (r = 0 \<longrightarrow> ask s \<noteq> 0 \<and> fst (s_root sb) \<noteq> 0) \<and>
    (\<forall>fsi. s_fs_info sb = Some fsi \<longrightarrow> ptmx_dentry fsi = 0)"
proof -
  let ?p = "ask s" and ?s1 = "answered (Kzalloc (Sizeof ''pts_fs_info'') (ask s)) s"
  let ?i = "ask ?s1" and ?s2 = "answered (Obtain ''new_inode'' (objs ''inode'' (ask ?s1))) ?s1"
  let ?d = "ask ?s2" and ?s3 = "answered (Obtain ''d_make_root'' (objs ''dentry'' (ask ?s2))) ?s2"
  note defs = devpts_fill_super_def new_pts_fs_info_def kzalloc_def obtain_obj_def giveback_obj_def
  note owns = sb_owns_def tree_objs_def allocated_def new_super_def
  consider "?p = 0" | "?p \<noteq> 0" "?i = 0" | "?p \<noteq> 0" "?i \<noteq> 0" "?d = 0" | "?p \<noteq> 0" "?i \<noteq> 0" "?d \<noteq> 0" by blast
  then show ?thesis
  proof cases
    case 1
    then show ?thesis using assms by (auto simp: defs owns ksimps)
  next
    case 2
    then show ?thesis using assms by (auto simp: defs owns ksimps)
  next
    case 3
    then show ?thesis using assms by (auto simp: defs owns ksimps)
  next
    case 4
    then show ?thesis using assms by (auto simp: defs owns ksimps objs_nonzero)
  qed
qed

lemma mknod_ptmx_props:
  assumes "mknod_ptmx E sb fsi s = (r, sb', s')" "resources s = Some (H + sb_owns sb)" "s_fs_info sb = Some fsi"
  shows "resources s' = Some (H + sb_owns sb') \<and> allocated sb' = allocated sb \<and> r \<le> 0 \<and>
    (\<exists>fsi'. s_fs_info sb' = Some fsi') \<and> length (s_dir sb') \<le> Suc (length (s_dir sb))"
  using assms
  by (auto simp: mknod_ptmx_def kernel_simps sb_owns_def tree_objs_def allocated_def objs_nonzero Let_def
      split: if_splits option.splits)

lemma mount_cases:
  assumes "resources s = Some H"
  shows "case devpts_mount E None data ss s of
      Crash \<Rightarrow> ask s \<ge> 0 \<and> answers s (Suc (ncalls s)) = 0
    | Done r (ss', s') \<Rightarrow> (r < 0 \<and> ss' = ss \<and> resources s' = Some H) \<or>
        (r = int (length ss) \<and> (\<exists>sb. ss' = ss @ [sb] \<and> allocated sb = [] \<and> resources s' = Some (H + sb_owns sb) \<and>
          s_fs_info sb \<noteq> None \<and> length (s_dir sb) \<le> 1))"
proof -
  obtain err opts where p: "parse_mount_options E data PARSE_MOUNT zero_opts = (err, opts)" by fastforce
  have err: "err = 0 \<or> err < 0" using parse_status [of E data PARSE_MOUNT zero_opts] p by auto
  let ?s1 = "answered (Plain ''sget'' (ask s)) s"
  have s1: "resources ?s1 = Some H" "ask ?s1 = answers s (Suc (ncalls s))"
    using assms by (simp add: ksimps) (simp add: ask_def answered_def)
  obtain r1 sb1 s2 where f: "devpts_fill_super new_super ?s1 = (r1, sb1, s2)"
    by (cases "devpts_fill_super new_super ?s1") auto
  note fp = fill_super_props [OF f s1(1)]
  consider "err \<noteq> 0 \<or> \<not> in_init_ns E \<and> \<not> newinstance opts \<or> ask s < 0"
    | "err = 0" "in_init_ns E \<or> newinstance opts" "0 \<le> ask s" "r1 \<noteq> 0"
    | "err = 0" "in_init_ns E \<or> newinstance opts" "0 \<le> ask s" "r1 = 0" by fastforce
  then show ?thesis
  proof cases
    case 1
    then show ?thesis using p err assms by (auto simp: devpts_mount_def status_call_def ksimps)
  next
    case 2
    then have "devpts_mount E None data ss s = undo_sget r1 ss sb1 s2"
      using p f by (auto simp: devpts_mount_def status_call_def sget_None new_super_def [symmetric] Let_def)
        (auto simp: new_super_def)
    then show ?thesis
      using fp 2 s1(2) kill_sb_owns [of sb1 _ s2 H]
      by (cases "s_fs_info sb1") (auto simp: undo_sget_def devpts_kill_sb_def [of sb1])
  next
    case 3
    then obtain fsi where fsi: "s_fs_info sb1 = Some fsi" using fp s1(2) by auto
    let ?fsi = "fsi\<lparr>mount_opts := opts\<rparr>" let ?sb = "sb1\<lparr>s_fs_info := Some ?fsi\<rparr>"
    obtain r2 sb2 s3 where k: "mknod_ptmx E ?sb ?fsi s2 = (r2, sb2, s3)"
      by (cases "mknod_ptmx E ?sb ?fsi s2") auto
    have "resources s2 = Some (H + sb_owns ?sb)" "allocated ?sb = []" "s_dir ?sb = []"
      using fp fsi by (simp_all add: sb_owns_def tree_objs_def allocated_def)
    with mknod_ptmx_props [OF k, of H] have m: "resources s3 = Some (H + sb_owns sb2)" "allocated sb2 = []" "r2 \<le> 0"
      "\<exists>fsi'. s_fs_info sb2 = Some fsi'" "length (s_dir sb2) \<le> 1" by auto
    have root: "fst (s_root new_super) = 0" by (simp add: new_super_def)
    have "devpts_mount E None data ss s = (if r2 \<noteq> 0 then undo_sget r2 ss sb2 s3
        else Done (int (length ss)) (ss @ [sb2], s3))"
      using 3 p f fsi k by (auto simp: devpts_mount_def status_call_def sget_None root Let_def)
    then show ?thesis
      using m kill_sb_owns [of sb2 _ s3 H] by (auto simp: undo_sget_def)
  qed
qed

lemma sb_owns_fsi:
  "s_fs_info sb = Some fsi \<Longrightarrow> fsi_addr fsi' = fsi_addr fsi \<Longrightarrow> sb_owns (sb\<lparr>s_fs_info := Some fsi'\<rparr>) = sb_owns sb"
  by (simp add: sb_owns_def tree_objs_def)

lemma update_ptmx_mode_owns [simp]:
  "sb_owns (update_ptmx_mode sb fsi) = sb_owns sb" "allocated (update_ptmx_mode sb fsi) = allocated sb"
proof -
  have "map (\<lambda>d. [Obj ''dentry'' (d_addr d), Obj ''inode'' (n_addr (d_inode d))]) (s_dir (update_ptmx_mode sb fsi)) =
      map (\<lambda>d. [Obj ''dentry'' (d_addr d), Obj ''inode'' (n_addr (d_inode d))]) (s_dir sb)"
    by (simp add: update_ptmx_mode_def)
  moreover have "s_root (update_ptmx_mode sb fsi) = s_root sb" "s_fs_info (update_ptmx_mode sb fsi) = s_fs_info sb"
    by (simp_all add: update_ptmx_mode_def)
  ultimately show "sb_owns (update_ptmx_mode sb fsi) = sb_owns sb" "allocated (update_ptmx_mode sb fsi) = allocated sb"
    by (simp_all add: sb_owns_def tree_objs_def allocated_def)
qed

lemma new_index_res:
  "devpts_new_index E v fsi s = Some (r, v', fsi', s') \<Longrightarrow> resources s = Some H \<Longrightarrow>
   resources s' = Some H \<and> map_option fsi_addr fsi' = map_option fsi_addr fsi"
  using new_index_result by blast

subsection \<open>Registering the file system\<close>

interpretation devpts_mod: module_lifecycle "\<lambda>_ s. case init_example_fs s of (r, s) \<Rightarrow> (r, (), s)"
  "\<lambda>_. exit_example_fs" "\<lambda>_. {#Obj ''file_system_type'' 1#}"
  by unfold_locales
    (auto simp: init_example_fs_def exit_example_fs_def obtain_if_ok_def ksimps Let_def split: if_splits)

subsection \<open>Nodes\<close>

lemma find_alias_append:
  "n_addr n \<notin> (\<lambda>d. n_addr (d_inode d)) ` set (s_dir sb) \<Longrightarrow>
   d_find_alias (sb\<lparr>s_dir := s_dir sb @ [\<lparr>d_addr = a, d_name = nm, d_inode = n\<rparr>]\<rparr>) n =
     Some \<lparr>d_addr = a, d_name = nm, d_inode = n\<rparr>"
proof -
  have "List.find P (xs @ ys) = (case List.find P xs of None \<Rightarrow> List.find P ys | Some x \<Rightarrow> Some x)" for P and xs ys :: "dent list"
    by (induction xs) auto
  moreover assume "n_addr n \<notin> (\<lambda>d. n_addr (d_inode d)) ` set (s_dir sb)"
  then have "List.find (\<lambda>d. n_addr (d_inode d) = n_addr n) (s_dir sb) = None"
    by (auto simp: find_None_iff image_iff)
  ultimately show ?thesis by (simp add: d_find_alias_def)
qed

lemma pty_new_Inr:
  assumes "devpts_pty_new E sb fsi device index priv s = (Inr n, sb', s')" "resources s = Some H"
  shows "i_rdev n = device \<and> i_private n = priv \<and> i_ino n = index + 3 \<and> n_addr n = ask s \<and>
    (\<exists>a. sb' = sb\<lparr>s_dir := s_dir sb @ [\<lparr>d_addr = a, d_name = digits 10 (nat index), d_inode = n\<rparr>]\<rparr> \<and>
       a = answers s (Suc (ncalls s)) \<and>
       resources s' = Some (H + {#Obj ''inode'' (n_addr n), Obj ''dentry'' a#}))"
  using assms
  by (auto simp: devpts_pty_new_def obtain_obj_def ksimps objs_nonzero Let_def answer_simps
      split: option.splits if_splits)

subsection \<open>Properties\<close>


text \<open>
  C20: Asking for a pty number returns, unless the allocator asks for another try each time, forever. A new number is unused
  and below the instance's maximum; an instance of its own never takes the last \<open>pty_reserve\<close> numbers, and every failure
  leaves the numbers and the count as they were.
\<close>

theorem devpts_new_index_fresh:
  assumes "ida_ok E"
  shows "case devpts_new_index E v (Some fsi) s of
      None \<Rightarrow> \<forall>k. answers s (ncalls s + 2 * k + 1) = - EAGAIN
    | Some (r, v', fsi', s') \<Rightarrow>
        if 0 \<le> r
        then r \<notin> set (allocated_ptys fsi) \<and> r < opt_max (mount_opts fsi) \<and>
          map_option allocated_ptys fsi' = Some (r # allocated_ptys fsi) \<and> pty_count v' = pty_count v + 1 \<and>
          pty_count v < pty_limit v - (if newinstance (mount_opts fsi) then pty_reserve v else 0)
        else v' = v \<and> fsi' = Some fsi"
proof (cases "devpts_new_index E v (Some fsi) s")
  case None
  then have "\<forall>k. answers s (ncalls s + 2 * k + 1) = - EAGAIN" using new_index_returns by blast
  then show ?thesis by (simp add: None)
next
  case (Some y)
  obtain r v' fsi' s' where y: "y = (r, v', fsi', s')" by (cases y)
  from new_index_cases [OF Some [unfolded y] assms] show ?thesis by (auto simp: Some y)
qed

text \<open>
  C19: The private data stored with a new pty node is what \<open>devpts_get_priv\<close> returns for it; after
  \<open>devpts_pty_kill\<close> the directory and the resources are as before and the answer is \<open>NULL\<close>.
\<close>

theorem devpts_priv_roundtrip:
  assumes "devpts_pty_new E sb fsi device index priv s = (Inr n, sb', s')" "resources s = Some H"
    and "device \<noteq> ptmx_dev" "s_magic sb = 0x1cd1"
    and "ask s \<notin> (\<lambda>d. n_addr (d_inode d)) ` set (s_dir sb)" "answers s (Suc (ncalls s)) \<notin> d_addr ` set (s_dir sb)"
  shows "devpts_get_priv sb' n = Some priv \<and>
    (\<exists>sb'' s''. devpts_pty_kill sb' n s' = Some (sb'', s'') \<and> s_dir sb'' = s_dir sb \<and>
       resources s'' = Some H \<and> devpts_get_priv sb'' n = Some 0)"
proof -
  from pty_new_Inr [OF assms(1,2)] obtain a where n: "i_rdev n = device" "i_private n = priv" "n_addr n = ask s"
    "sb' = sb\<lparr>s_dir := s_dir sb @ [\<lparr>d_addr = a, d_name = digits 10 (nat index), d_inode = n\<rparr>]\<rparr>"
    "a = answers s (Suc (ncalls s))" "resources s' = Some (H + {#Obj ''inode'' (n_addr n), Obj ''dentry'' a#})"
    by blast
  have al: "d_find_alias sb' n = Some \<lparr>d_addr = a, d_name = digits 10 (nat index), d_inode = n\<rparr>"
    unfolding n(4) by (rule find_alias_append) (use assms(5) n(3) in simp)
  have keep: "filter (\<lambda>e. d_addr e \<noteq> a) (s_dir sb) = s_dir sb"
    using assms(6) n(5) by (intro filter_True) (auto simp: image_iff)
  have gone: "d_find_alias (sb\<lparr>s_dir := s_dir sb\<rparr>) n = None"
    using assms(5) n(3) by (auto simp: d_find_alias_def find_None_iff image_iff)
  show ?thesis
    using n assms(3,4) al keep gone
    by (auto simp: devpts_get_priv_def devpts_pty_kill_def resources_call kstep_giveback)
qed

text \<open>
  C21: A mount that returns has either failed and undone everything, or created a new instance: also
  without \<open>newinstance\<close> no two mounts share an instance, since \<open>devpts_mnt\<close> is never set. It does not
  return (a \<open>NULL\<close> dereference in \<open>devpts_kill_sb\<close>) only if the allocation of \<open>s_fs_info\<close> fails.
\<close>

theorem devpts_mount_outcome:
  assumes "resources s = Some H"
  shows "case devpts_mount E None data ss s of
      Crash \<Rightarrow> answers s (Suc (ncalls s)) = 0
    | Done r (ss', s') \<Rightarrow> (r < 0 \<and> ss' = ss \<and> resources s' = Some H) \<or>
        (r = int (length ss) \<and> (\<exists>sb. ss' = ss @ [sb] \<and> allocated sb = [] \<and> resources s' = Some (H + sb_owns sb)))"
  using mount_cases [OF assms, where E = E and data = data and ss = ss] by (auto split: outcome.splits)

subsection \<open>A kernel that satisfies the hypotheses\<close>

definition undigits :: "nat \<Rightarrow> string \<Rightarrow> int" where
  "undigits b w = foldl (\<lambda>a c. a * int b + (of_char c - 48)) 0 w"

definition sample_match :: "string \<Rightarrow> token" where
  "sample_match w =
     (if take 4 w = ''uid='' then Opt_uid (Some (undigits 10 (drop 4 w)))
      else if take 4 w = ''gid='' then Opt_gid (Some (undigits 10 (drop 4 w)))
      else if take 4 w = ''max='' then Opt_max (Some (undigits 10 (drop 4 w)))
      else if take 5 w = ''mode='' then Opt_mode (Some (undigits 8 (drop 5 w)))
      else if take 9 w = ''ptmxmode='' then Opt_ptmxmode (Some (undigits 8 (drop 9 w)))
      else if w = ''newinstance'' then Opt_newinstance else Opt_err)"

definition sample_env :: env where
  "sample_env = \<lparr>match_token = sample_match, make_kuid = Some, make_kgid = Some, from_kuid = id, from_kgid = id,
     in_init_ns = True, fsuid = 1000, fsgid = 100, ida_pick = (\<lambda>ids. 1 + sum_list (map abs ids))\<rparr>"

lemma undigits_snoc: "undigits b (w @ [c]) = undigits b w * int b + (of_char c - 48)"
  by (simp add: undigits_def)

lemma digit_value: "k < 10 \<Longrightarrow> of_char (char_of (48 + k) :: char) - 48 = int k"
proof -
  assume "k < 10"
  then have "int (of_char (char_of (48 + k) :: char)) = 48 + int k" by simp
  then show ?thesis by (simp only: of_nat_of_char)
qed

lemma undigits_digits: "2 \<le> b \<Longrightarrow> b \<le> 10 \<Longrightarrow> undigits b (digits b n) = int n"
proof (induction b n rule: digits.induct)
  case (1 b n)
  show ?case
  proof (cases "n < b")
    case True
    then have "digits b n = [] @ [char_of (48 + n)]" using 1(2) by (subst digits.simps) simp
    then show ?thesis
      using digit_value [of n] True 1(3) by (simp only: undigits_snoc) (simp add: undigits_def)
  next
    case False
    have "n mod b < 10" using 1(2,3) mod_less_divisor [of b n] by linarith
    moreover have "digits b n = digits b (n div b) @ [char_of (48 + n mod b)]"
      using 1(2) False by (subst digits.simps) simp
    moreover have "int (n div b) * int b + int (n mod b) = int n"
      by (metis div_mult_mod_eq of_nat_add of_nat_mult)
    ultimately show ?thesis
      using 1 False digit_value [of "n mod b"] by (simp add: undigits_snoc)
  qed
qed

lemma undigits_pad3: "undigits b (pad3 w) = undigits b w"
proof -
  have "foldl (\<lambda>a c. a * int b + (of_char c - 48)) 0 (replicate k (CHR ''0'')) = 0" for k
    by (induction k) simp_all
  then show ?thesis by (simp add: undigits_def pad3_def)
qed

lemma sample_env_scans: "scans sample_env"
  by (simp add: scans_def sample_env_def sample_match_def undigits_digits undigits_pad3)

lemma sample_env_ida: "ida_ok sample_env"
proof -
  have nonneg: "0 \<le> sum_list (map abs (ids :: int list))" for ids by (rule sum_list_nonneg) auto
  moreover have "\<bar>i\<bar> \<le> sum_list (map abs ids)" if "i \<in> set ids" for i :: int and ids
    using that by (induction ids) (auto simp: nonneg add_increasing)
  ultimately show ?thesis by (fastforce simp: ida_ok_def sample_env_def)
qed

definition sample_opts :: pts_mount_opts where
  "sample_opts = \<lparr>setuid = True, setgid = False, uid = 5, gid = 0, mode = 0x190, ptmxmode = 0, newinstance = True, opt_max = 64\<rparr>"

definition sample_fsi :: pts_fs_info where
  "sample_fsi = \<lparr>fsi_addr = 4096, allocated_ptys = [1], mount_opts = sample_opts, ptmx_dentry = 0\<rparr>"

definition counting :: kworld where
  "counting = \<lparr>answers = (\<lambda>n. int n + 1), ncalls = 0, klog = []\<rparr>"

lemma counting_empty: "resources counting = Some {#}"
  by (simp add: resources_def counting_def)


theorem devpts_new_index_fresh_witness:
  "\<exists>r v' fsi' s'. devpts_new_index sample_env \<lparr>pty_count = 1, pty_limit = 4096, pty_reserve = 1024\<rparr> (Some sample_fsi) counting
       = Some (r, v', fsi', s') \<and> r \<notin> {1} \<and> pty_count v' = 2"
proof -
  let ?v = "\<lparr>pty_count = 1, pty_limit = 4096, pty_reserve = 1024\<rparr>"
  have "\<exists>v' fsi' s'. devpts_new_index sample_env ?v (Some sample_fsi) counting = Some (2, v', fsi', s')"
    by (subst devpts_new_index.simps)
      (simp add: status_call_def ask_def answered_def counting_def sample_fsi_def sample_opts_def sample_env_def)
  then obtain v' fsi' s' where n: "devpts_new_index sample_env ?v (Some sample_fsi) counting = Some (2, v', fsi', s')"
    by blast
  from devpts_new_index_fresh [OF sample_env_ida, where v = ?v and fsi = sample_fsi and s = counting] n show ?thesis by (simp add: sample_fsi_def)
qed

definition sample_sb :: super where
  "sample_sb = new_super\<lparr>s_magic := 0x1cd1, s_fs_info := Some sample_fsi, s_root := (77, snd (s_root new_super))\<rparr>"

theorem devpts_priv_roundtrip_witness:
  "\<exists>n sb' s'. devpts_pty_new sample_env sample_sb (Some sample_fsi) (MKDEV 136 2) 2 500 counting = (Inr n, sb', s') \<and>
     devpts_get_priv sb' n = Some 500"
proof -
  have "\<exists>n sb' s'. devpts_pty_new sample_env sample_sb (Some sample_fsi) (MKDEV 136 2) 2 500 counting = (Inr n, sb', s')"
    by (simp add: devpts_pty_new_def obtain_obj_def counting_def ask_def answered_def Let_def)
  then obtain n sb' s' where
    n: "devpts_pty_new sample_env sample_sb (Some sample_fsi) (MKDEV 136 2) 2 500 counting = (Inr n, sb', s')" by blast
  have "MKDEV 136 2 \<noteq> ptmx_dev" by (simp add: ptmx_dev_def MKDEV_def)
  from devpts_priv_roundtrip [OF n counting_empty this] n show ?thesis
    by (simp add: sample_sb_def new_super_def)
qed

theorem devpts_mount_outcome_witness:
  "case devpts_mount sample_env None None [sample_sb] counting of
      Crash \<Rightarrow> False | Done r (ss', s') \<Rightarrow> r < 0 \<or> r = 1 \<and> length ss' = 2"
  using devpts_mount_outcome [OF counting_empty, where E = sample_env and data = None and ss = "[sample_sb]"]
  by (auto simp: counting_def split: outcome.splits)

text \<open>
  A remount whose first option is not recognised fails, but the options have been reset: all of them
  except \<open>newinstance\<close> are the defaults afterwards.
\<close>

lemma remount_resets:
  assumes "s_fs_info sb = Some fsi" "w \<noteq> []" "CHR '','' \<notin> set w" "match_token E w = Opt_err"
  shows "\<exists>sb' fsi'. devpts_remount E sb (Some w) = Some (- EINVAL, sb') \<and> s_fs_info sb' = Some fsi' \<and>
    mount_opts fsi' = default_opts (mount_opts fsi)"
  using assms
  by (simp add: devpts_remount_def parse_mount_options_def strsep_last parse_option_def update_ptmx_mode_def Let_def)

end
