(* ===== verification/Devpts_Life.thy ===== *)
theory Devpts_Life
  imports Devpts
begin

text \<open>
  The life of the instances of the pseudo-terminal file system: mounting and unmounting, and the master side of a
  pty, which takes a reference with \<open>devpts_get_ref\<close> and a number with \<open>devpts_new_index\<close> when it is opened and
  gives them back with \<open>devpts_kill_index\<close> and \<open>devpts_put_ref\<close> when it is closed; between the two it may make
  and remove the node of the slave. The instance is killed with its last reference, in
  whatever order its mounts and its ptys go away.
\<close>

subsection \<open>Instances\<close>

record pts_inst =
  x_sb :: super
  x_active :: int  \<comment> \<open>\<open>s_active\<close>\<close>
  x_mounts :: nat

record life =
  l_vars :: pty_vars
  l_insts :: "pts_inst list"
  l_world :: kworld

definition supers :: "life \<Rightarrow> super list" where
  "supers L = map x_sb (l_insts L)"

definition active :: "life \<Rightarrow> nat \<Rightarrow> int" where
  "active L j = x_active (l_insts L ! j)"

definition set_inst :: "nat \<Rightarrow> pts_inst \<Rightarrow> life \<Rightarrow> life" where
  "set_inst i x L = L\<lparr>l_insts := (l_insts L)[i := x]\<rparr>"

text \<open>A node is made at an address that no other entry of the directory has.\<close>

inductive life_step :: "env \<Rightarrow> life \<Rightarrow> life \<Rightarrow> bool" for E where
  mounted: "devpts_mount E None data (supers L) (l_world L) = Done r (sbs', w) \<Longrightarrow> 0 \<le> r \<Longrightarrow>
    life_step E L (L\<lparr>l_insts := l_insts L @ [\<lparr>x_sb = last sbs', x_active = 1, x_mounts = 1\<rparr>], l_world := w\<rparr>)"
| not_mounted: "devpts_mount E None data (supers L) (l_world L) = Done r (sbs', w) \<Longrightarrow> r < 0 \<Longrightarrow>
    life_step E L (L\<lparr>l_world := w\<rparr>)"
| remounted: "i < length (l_insts L) \<Longrightarrow> x = l_insts L ! i \<Longrightarrow> 0 < x_mounts x \<Longrightarrow>
    devpts_remount E (x_sb x) data = Some (err, sb) \<Longrightarrow> life_step E L (set_inst i (x\<lparr>x_sb := sb\<rparr>) L)"
| unmounted: "i < length (l_insts L) \<Longrightarrow> x = l_insts L ! i \<Longrightarrow> 0 < x_mounts x \<Longrightarrow>
    devpts_put_ref (supers L) i (active L) (l_world L) = Some (act, w) \<Longrightarrow>
    life_step E L ((set_inst i (x\<lparr>x_mounts := x_mounts x - 1, x_active := act i\<rparr>) L)\<lparr>l_world := w\<rparr>)"
| opened: "i < length (l_insts L) \<Longrightarrow> x = l_insts L ! i \<Longrightarrow> 0 < x_mounts x \<Longrightarrow>
    devpts_get_ref None (supers L) i DEVPTS_SUPER_MAGIC (active L) = (fsi, act) \<Longrightarrow>
    devpts_new_index E (l_vars L) fsi (l_world L) = Some (r, v, fsi', w) \<Longrightarrow> 0 \<le> r \<Longrightarrow>
    life_step E L ((set_inst i (x\<lparr>x_sb := (x_sb x)\<lparr>s_fs_info := fsi'\<rparr>, x_active := act i\<rparr>) L)\<lparr>l_vars := v, l_world := w\<rparr>)"
| not_opened: "i < length (l_insts L) \<Longrightarrow> x = l_insts L ! i \<Longrightarrow> 0 < x_mounts x \<Longrightarrow>
    devpts_get_ref None (supers L) i DEVPTS_SUPER_MAGIC (active L) = (fsi, act) \<Longrightarrow>
    devpts_new_index E (l_vars L) fsi (l_world L) = Some (r, v, fsi', w) \<Longrightarrow> r < 0 \<Longrightarrow>
    devpts_put_ref (supers L) i act w = Some (act', w') \<Longrightarrow>
    life_step E L ((set_inst i (x\<lparr>x_active := act' i\<rparr>) L)\<lparr>l_vars := v, l_world := w'\<rparr>)"
| node_made: "i < length (l_insts L) \<Longrightarrow> x = l_insts L ! i \<Longrightarrow> idx \<in> set (allocated (x_sb x)) \<Longrightarrow>
    answers (l_world L) (Suc (ncalls (l_world L))) \<notin> d_addr ` set (s_dir (x_sb x)) \<Longrightarrow>
    devpts_pty_new E (x_sb x) (s_fs_info (x_sb x)) device idx priv (l_world L) = (res, sb, w) \<Longrightarrow>
    life_step E L ((set_inst i (x\<lparr>x_sb := sb\<rparr>) L)\<lparr>l_world := w\<rparr>)"
| node_removed: "i < length (l_insts L) \<Longrightarrow> x = l_insts L ! i \<Longrightarrow> 0 < x_active x \<Longrightarrow>
    devpts_pty_kill (x_sb x) n (l_world L) = Some (sb, w) \<Longrightarrow>
    life_step E L ((set_inst i (x\<lparr>x_sb := sb\<rparr>) L)\<lparr>l_world := w\<rparr>)"
| closed: "i < length (l_insts L) \<Longrightarrow> x = l_insts L ! i \<Longrightarrow> s_fs_info (x_sb x) = Some fsi \<Longrightarrow>
    idx \<in> set (allocated_ptys fsi) \<Longrightarrow> devpts_kill_index (l_vars L) fsi idx = (v, fsi') \<Longrightarrow>
    y = x\<lparr>x_sb := (x_sb x)\<lparr>s_fs_info := Some fsi'\<rparr>\<rparr> \<Longrightarrow>
    devpts_put_ref (supers (set_inst i y L)) i (active L) (l_world L) = Some (act, w) \<Longrightarrow>
    life_step E L ((set_inst i (y\<lparr>x_active := act i\<rparr>) L)\<lparr>l_vars := v, l_world := w\<rparr>)"

subsection \<open>The invariant\<close>

text \<open>One reference for each mount and each open pty; a killed instance has none.\<close>

definition inst_ok :: "pts_inst \<Rightarrow> bool" where
  "inst_ok x \<longleftrightarrow> x_active x = int (x_mounts x) + int (length (allocated (x_sb x))) \<and> distinct (allocated (x_sb x)) \<and>
     s_fs_info (x_sb x) \<noteq> None \<and> distinct (map d_addr (s_dir (x_sb x)))"

definition inst_owns :: "pts_inst \<Rightarrow> res multiset" where
  "inst_owns x = (if 0 < x_active x then sb_owns (x_sb x) else {#})"

definition ptys :: "pts_inst \<Rightarrow> nat" where
  "ptys x = length (allocated (x_sb x))"

definition life_inv :: "res multiset \<Rightarrow> life \<Rightarrow> bool" where
  "life_inv H L \<longleftrightarrow> (\<forall>x\<in>set (l_insts L). inst_ok x) \<and> pty_count (l_vars L) = int (sum_list (map ptys (l_insts L))) \<and>
     pty_count (l_vars L) \<le> pty_limit (l_vars L) \<and> 0 \<le> pty_reserve (l_vars L) \<and>
     resources (l_world L) = Some (H + sum_list (map inst_owns (l_insts L)))"

lemma sum_list_update_mset:
  "i < length xs \<Longrightarrow> sum_list (map f (xs[i := y])) = sum_list (map f (take i xs @ drop (Suc i) xs)) + (f y :: 'a multiset)"
  by (induction xs arbitrary: i) (auto simp: ac_simps split: nat.splits)

lemma sum_list_split_mset:
  "i < length xs \<Longrightarrow> sum_list (map f xs) = sum_list (map f (take i xs @ drop (Suc i) xs)) + (f (xs ! i) :: 'a multiset)"
  using sum_list_update_mset [of i xs f "xs ! i"] by simp

text \<open>A step changes one instance; \<open>R\<close> is what the others hold.\<close>

lemma life_inv_update:
  assumes "life_inv H L" "i < length (l_insts L)" "inst_ok y"
    and "\<And>R. resources (l_world L) = Some (R + inst_owns (l_insts L ! i)) \<Longrightarrow> resources w = Some (R + inst_owns y)"
    and "pty_count v = pty_count (l_vars L) - int (ptys (l_insts L ! i)) + int (ptys y)"
    and "pty_count v \<le> pty_limit v" "0 \<le> pty_reserve v"
  shows "life_inv H ((set_inst i y L)\<lparr>l_vars := v, l_world := w\<rparr>)"
proof -
  let ?R = "H + sum_list (map inst_owns (take i (l_insts L) @ drop (Suc i) (l_insts L)))"
  have "resources (l_world L) = Some (?R + inst_owns (l_insts L ! i))"
    using assms(1) sum_list_split_mset [OF assms(2), of inst_owns] by (simp add: life_inv_def add.assoc)
  from assms(4) [OF this] have "resources w = Some (H + sum_list (map inst_owns ((l_insts L)[i := y])))"
    using sum_list_update_mset [OF assms(2), of inst_owns y] by (simp add: add.assoc)
  moreover have "\<forall>x\<in>set ((l_insts L)[i := y]). inst_ok x"
    using assms(1,3) set_update_subset_insert [of "l_insts L" i y] by (auto simp: life_inv_def)
  ultimately show ?thesis
    using assms(1,5-7) sum_list_update_int [OF assms(2), of ptys y] by (simp add: life_inv_def set_inst_def)
qed

subsection \<open>Each operation on one instance\<close>

lemma get_ref_live:
  "devpts_get_ref None ss i DEVPTS_SUPER_MAGIC act = (s_fs_info (ss ! i), case s_fs_info (ss ! i) of None \<Rightarrow> act | Some _ \<Rightarrow> act(i := act i + 1))"
  by (simp add: devpts_get_ref_def pts_sb_from_inode_def split: option.splits)

lemma put_ref_live:
  assumes "0 < act i" "s_fs_info (ss ! i) = Some fsi" "resources s = Some (R + sb_owns (ss ! i))"
  shows "\<exists>s'. devpts_put_ref ss i act s = Some (act(i := act i - 1), s') \<and>
    resources s' = Some (R + (if 0 < act i - 1 then sb_owns (ss ! i) else {#}))"
  using assms(1) kill_sb_owns [OF assms(2,3)] assms(3) by (auto simp: devpts_put_ref_def)

lemma put_ref_unique:
  assumes "devpts_put_ref ss i act s = Some (act', s')" "0 < act i" "s_fs_info (ss ! i) \<noteq> None"
  shows "act' i = act i - 1"
    and "resources s = Some (R + sb_owns (ss ! i)) \<Longrightarrow>
      resources s' = Some (R + (if 0 < act i - 1 then sb_owns (ss ! i) else {#}))"
  using assms put_ref_live [where act = act and i = i, OF assms(2), of ss _ s R]
  by (auto simp: devpts_put_ref_def Let_def split: if_splits option.splits)

lemma remount_keeps:
  assumes "devpts_remount E sb data = Some (err, sb')"
  shows "allocated sb' = allocated sb \<and> sb_owns sb' = sb_owns sb \<and> s_fs_info sb' \<noteq> None \<and>
    map d_addr (s_dir sb') = map d_addr (s_dir sb)"
proof -
  from assms obtain fsi opts where sb': "s_fs_info sb = Some fsi"
    "sb' = update_ptmx_mode (sb\<lparr>s_fs_info := Some (fsi\<lparr>mount_opts := opts\<rparr>)\<rparr>) (fsi\<lparr>mount_opts := opts\<rparr>)"
    by (auto simp: devpts_remount_def Let_def split: option.splits prod.splits)
  have "map d_addr (s_dir sb') = map d_addr (s_dir sb)" "s_fs_info sb' \<noteq> None"
    by (simp_all add: sb'(2) update_ptmx_mode_def comp_def if_distrib)
  moreover have "allocated sb' = allocated sb" "sb_owns sb' = sb_owns sb"
    using sb_owns_fsi [OF sb'(1), of "fsi\<lparr>mount_opts := opts\<rparr>"] unfolding sb'(2) update_ptmx_mode_owns
    by (simp_all add: allocated_def sb'(1))
  ultimately show ?thesis by simp
qed

lemma pty_new_keeps:
  assumes "devpts_pty_new E sb (s_fs_info sb) device idx priv s = (res, sb', s')"
    and "answers s (Suc (ncalls s)) \<notin> d_addr ` set (s_dir sb)" "distinct (map d_addr (s_dir sb))"
  shows "s_fs_info sb' = s_fs_info sb \<and> distinct (map d_addr (s_dir sb')) \<and>
    (\<forall>R. resources s = Some (R + sb_owns sb) \<longrightarrow> resources s' = Some (R + sb_owns sb'))"
  using assms
  by (auto simp: devpts_pty_new_def obtain_obj_def giveback_obj_def ksimps objs_nonzero Let_def answer_simps
      sb_owns_def tree_objs_def split: option.splits if_splits)

lemma filter_addr_split:
  assumes "distinct (map d_addr ds)" "d \<in> set ds"
  shows "mset (concat (map f ds)) = mset (concat (map f (filter (\<lambda>e. d_addr e \<noteq> d_addr d) ds))) + mset (f d)"
  using assms
proof (induction ds)
  case (Cons e ds)
  show ?case
  proof (cases "d = e")
    case True
    then have "filter (\<lambda>e. d_addr e \<noteq> d_addr d) ds = ds" using Cons.prems by (intro filter_True) (auto simp: image_iff)
    then show ?thesis using True by simp
  next
    case False
    then have "d_addr e \<noteq> d_addr d" using Cons.prems by auto
    then show ?thesis using False Cons by simp
  qed
qed simp

lemma pty_kill_keeps:
  assumes "devpts_pty_kill sb n s = Some (sb', s')" "distinct (map d_addr (s_dir sb))"
  shows "s_fs_info sb' = s_fs_info sb \<and> distinct (map d_addr (s_dir sb')) \<and>
    (\<forall>R. resources s = Some (R + sb_owns sb) \<longrightarrow> resources s' = Some (R + sb_owns sb'))"
proof -
  from assms(1) obtain d where d: "d_find_alias sb n = Some d"
    "sb' = sb\<lparr>s_dir := filter (\<lambda>e. d_addr e \<noteq> d_addr d) (s_dir sb)\<rparr>"
    "s' = call (Giveback ''d_delete'' [Obj ''dentry'' (d_addr d), Obj ''inode'' (n_addr n)]) s"
    by (auto simp: devpts_pty_kill_def split: if_splits option.splits)
  have din: "d \<in> set (s_dir sb)" "n_addr (d_inode d) = n_addr n"
    using d(1) by (auto simp: d_find_alias_def find_Some_iff)
  have "sb_owns sb = sb_owns sb' + {#Obj ''dentry'' (d_addr d), Obj ''inode'' (n_addr n)#}"
    using filter_addr_split [OF assms(2) din(1), of "\<lambda>d. [Obj ''dentry'' (d_addr d), Obj ''inode'' (n_addr (d_inode d))]"] din(2)
    by (simp add: sb_owns_def tree_objs_def d(2))
  then show ?thesis
    using assms(2) by (auto simp: d(2,3) resources_call kstep_giveback distinct_map_filter)
qed

subsection \<open>Every step keeps the invariant\<close>

lemma life_invD:
  assumes "life_inv H L" "i < length (l_insts L)" "x = l_insts L ! i"
  shows "inst_ok x" "supers L ! i = x_sb x" "active L i = x_active x"
    "pty_count (l_vars L) \<le> pty_limit (l_vars L)" "0 \<le> pty_reserve (l_vars L)"
  using assms by (auto simp: life_inv_def supers_def active_def)

lemma inst_alive: "inst_ok x \<Longrightarrow> 0 < x_mounts x \<or> idx \<in> set (allocated (x_sb x)) \<Longrightarrow> 0 < x_active x"
  by (auto simp: inst_ok_def) (metis length_pos_if_in_set add_pos_nonneg add_nonneg_pos of_nat_0_less_iff of_nat_0_le_iff)+

lemma life_mounted:
  assumes "life_inv H L" "devpts_mount E None data (supers L) (l_world L) = Done r (sbs', w)"
  shows "0 \<le> r \<Longrightarrow> life_inv H (L\<lparr>l_insts := l_insts L @ [\<lparr>x_sb = last sbs', x_active = 1, x_mounts = 1\<rparr>], l_world := w\<rparr>)"
    and "r < 0 \<Longrightarrow> life_inv H (L\<lparr>l_world := w\<rparr>)"
proof -
  have "resources (l_world L) = Some (H + sum_list (map inst_owns (l_insts L)))" using assms(1) by (simp add: life_inv_def)
  note c = mount_cases [OF this, where E = E and data = data and ss = "supers L", unfolded assms(2)]
  show "life_inv H (L\<lparr>l_world := w\<rparr>)" if "r < 0" using c that assms(1) by (auto simp: life_inv_def)
  assume "0 \<le> r"
  with c obtain sb where sb: "sbs' = supers L @ [sb]" "allocated sb = []" "s_fs_info sb \<noteq> None" "length (s_dir sb) \<le> 1"
    "resources w = Some (H + sum_list (map inst_owns (l_insts L)) + sb_owns sb)" by auto
  have "distinct (map d_addr (s_dir sb))" using sb(4) by (cases "s_dir sb") auto
  then show "life_inv H (L\<lparr>l_insts := l_insts L @ [\<lparr>x_sb = last sbs', x_active = 1, x_mounts = 1\<rparr>], l_world := w\<rparr>)"
    using sb assms(1) by (simp add: life_inv_def inst_ok_def inst_owns_def ptys_def add.assoc)
qed

text \<open>The instance of a pty that is opened, whether or not a number was found.\<close>

lemma open_inst:
  assumes "devpts_new_index E v (s_fs_info sb) s = Some (r, v', fsi', s')" "ida_ok E" "s_fs_info sb \<noteq> None" "0 \<le> pty_reserve v"
  shows "if 0 \<le> r then allocated (sb\<lparr>s_fs_info := fsi'\<rparr>) = r # allocated sb \<and> r \<notin> set (allocated sb) \<and> fsi' \<noteq> None \<and>
        sb_owns (sb\<lparr>s_fs_info := fsi'\<rparr>) = sb_owns sb \<and> v' = v\<lparr>pty_count := pty_count v + 1\<rparr> \<and> pty_count v < pty_limit v
      else v' = v"
    and "resources s = Some R \<Longrightarrow> resources s' = Some R"
proof -
  from assms(3) obtain fsi where fsi: "s_fs_info sb = Some fsi" by blast
  note c = new_index_cases [OF assms(1) [unfolded fsi] assms(2)]
  have a: "map_option fsi_addr fsi' = Some (fsi_addr fsi)"
    using new_index_result [OF assms(1)] by (simp add: fsi)
  show "if 0 \<le> r then allocated (sb\<lparr>s_fs_info := fsi'\<rparr>) = r # allocated sb \<and> r \<notin> set (allocated sb) \<and> fsi' \<noteq> None \<and>
        sb_owns (sb\<lparr>s_fs_info := fsi'\<rparr>) = sb_owns sb \<and> v' = v\<lparr>pty_count := pty_count v + 1\<rparr> \<and> pty_count v < pty_limit v
      else v' = v"
    using c a fsi assms(4) by (auto simp: allocated_def sb_owns_fsi split: if_splits)
  show "resources s = Some R \<Longrightarrow> resources s' = Some R" using new_index_res [OF assms(1)] by blast
qed

lemma set_inst_vars:
  "(set_inst i y L)\<lparr>l_world := w\<rparr> = (set_inst i y L)\<lparr>l_vars := l_vars L, l_world := w\<rparr>"
  "set_inst i y L = (set_inst i y L)\<lparr>l_vars := l_vars L, l_world := l_world L\<rparr>"
  by (simp_all add: set_inst_def)

text \<open>A super block is replaced by one with the same numbers.\<close>

lemma life_inv_sb:
  assumes "life_inv H L" "i < length (l_insts L)" "x = l_insts L ! i" "0 < x_active x"
    and "s_fs_info sb \<noteq> None" "allocated sb = allocated (x_sb x)" "distinct (map d_addr (s_dir sb))"
    and "\<And>R. resources (l_world L) = Some (R + sb_owns (x_sb x)) \<Longrightarrow> resources w = Some (R + sb_owns sb)"
  shows "life_inv H ((set_inst i (x\<lparr>x_sb := sb\<rparr>) L)\<lparr>l_world := w\<rparr>)"
  unfolding set_inst_vars(1)
  by (rule life_inv_update [OF assms(1,2)])
    (use assms life_invD [OF assms(1-3)] in \<open>auto simp: inst_ok_def inst_owns_def ptys_def\<close>)

lemma life_inv_remounted:
  assumes "life_inv H L" "i < length (l_insts L)" "x = l_insts L ! i" "0 < x_mounts x"
    and "devpts_remount E (x_sb x) data = Some (err, sb)"
  shows "life_inv H (set_inst i (x\<lparr>x_sb := sb\<rparr>) L)"
proof -
  note ok = life_invD(1) [OF assms(1-3)]
  have "life_inv H ((set_inst i (x\<lparr>x_sb := sb\<rparr>) L)\<lparr>l_world := l_world L\<rparr>)"
    using remount_keeps [OF assms(5)] ok assms(4)
    by (intro life_inv_sb [OF assms(1-3) inst_alive [OF ok]]) (auto simp: inst_ok_def)
  then show ?thesis by (simp add: set_inst_def)
qed

text \<open>A reference is dropped, by an unmount or by a pty whose number has gone.\<close>

lemma life_inv_put:
  assumes "life_inv H L" "i < length (l_insts L)" "x = l_insts L ! i"
    and y: "s_fs_info (x_sb y) \<noteq> None" "sb_owns (x_sb y) = sb_owns (x_sb x)" "s_dir (x_sb y) = s_dir (x_sb x)"
      "distinct (allocated (x_sb y))"
      "x_active x - 1 = int (x_mounts y) + int (ptys y)" "0 < x_active x"
    and put: "devpts_put_ref ss i act (l_world L) = Some (act', w)" "ss ! i = x_sb y" "act i = x_active x"
    and v: "pty_count v = pty_count (l_vars L) - int (ptys x) + int (ptys y)" "pty_count v \<le> pty_limit v" "0 \<le> pty_reserve v"
  shows "life_inv H ((set_inst i (y\<lparr>x_active := act' i\<rparr>) L)\<lparr>l_vars := v, l_world := w\<rparr>)"
proof (rule life_inv_update [OF assms(1,2)])
  have pr: "act' i = x_active x - 1"
    "\<And>R. resources (l_world L) = Some (R + sb_owns (x_sb x)) \<Longrightarrow>
       resources w = Some (R + (if 0 < x_active x - 1 then sb_owns (x_sb x) else {#}))"
    using put_ref_unique [OF put(1)] y put by auto
  show "inst_ok (y\<lparr>x_active := act' i\<rparr>)"
    using y life_invD(1) [OF assms(1-3)] by (simp add: pr(1) inst_ok_def ptys_def)
  show "resources w = Some (R + inst_owns (y\<lparr>x_active := act' i\<rparr>))"
    if "resources (l_world L) = Some (R + inst_owns (l_insts L ! i))" for R
    using pr(2) [of R] that y assms(3) by (simp add: pr(1) inst_owns_def)
qed (use v assms(3) in \<open>simp_all add: ptys_def\<close>)

lemma life_inv_unmounted:
  assumes "life_inv H L" "i < length (l_insts L)" "x = l_insts L ! i" "0 < x_mounts x"
    and "devpts_put_ref (supers L) i (active L) (l_world L) = Some (act, w)"
  shows "life_inv H ((set_inst i (x\<lparr>x_mounts := x_mounts x - 1, x_active := act i\<rparr>) L)\<lparr>l_world := w\<rparr>)"
proof -
  note ok = life_invD [OF assms(1-3)]
  have "life_inv H ((set_inst i ((x\<lparr>x_mounts := x_mounts x - 1\<rparr>)\<lparr>x_active := act i\<rparr>) L)\<lparr>l_vars := l_vars L, l_world := w\<rparr>)"
    by (rule life_inv_put [OF assms(1-3) _ _ _ _ _ _ assms(5)])
      (use ok assms(4) inst_alive [OF ok(1)] in \<open>auto simp: inst_ok_def ptys_def of_nat_diff\<close>)
  then show ?thesis by (simp add: set_inst_def)
qed

lemma life_inv_closed:
  assumes "life_inv H L" "i < length (l_insts L)" "x = l_insts L ! i" "s_fs_info (x_sb x) = Some fsi"
    and "idx \<in> set (allocated_ptys fsi)" "devpts_kill_index (l_vars L) fsi idx = (v, fsi')"
    and y: "y = x\<lparr>x_sb := (x_sb x)\<lparr>s_fs_info := Some fsi'\<rparr>\<rparr>"
    and put: "devpts_put_ref (supers (set_inst i y L)) i (active L) (l_world L) = Some (act, w)"
  shows "life_inv H ((set_inst i (y\<lparr>x_active := act i\<rparr>) L)\<lparr>l_vars := v, l_world := w\<rparr>)"
proof -
  note ok = life_invD [OF assms(1-3)]
  have al: "allocated (x_sb x) = allocated_ptys fsi" "allocated (x_sb y) = remove1 idx (allocated_ptys fsi)"
    "v = (l_vars L)\<lparr>pty_count := pty_count (l_vars L) - 1\<rparr>" "sb_owns (x_sb y) = sb_owns (x_sb x)"
    using assms(4,6) sb_owns_fsi [OF assms(4), of fsi'] by (auto simp: allocated_def devpts_kill_index_def y)
  have len: "length (allocated (x_sb x)) = Suc (length (allocated (x_sb y)))"
    using assms(5) length_pos_if_in_set [OF assms(5)] by (simp add: al length_remove1)
  have "supers (set_inst i y L) ! i = x_sb y" using assms(2) by (simp add: supers_def set_inst_def)
  then show ?thesis
    using ok al len inst_alive [OF ok(1), of idx] assms(5)
    by (intro life_inv_put [OF assms(1-3) _ _ _ _ _ _ put]) (auto simp: inst_ok_def ptys_def y)
qed

lemma life_inv_opened:
  assumes "life_inv H L" "ida_ok E" "i < length (l_insts L)" "x = l_insts L ! i" "0 < x_mounts x"
    and get: "devpts_get_ref None (supers L) i DEVPTS_SUPER_MAGIC (active L) = (fsi, act)"
    and new: "devpts_new_index E (l_vars L) fsi (l_world L) = Some (r, v, fsi', w)" and "0 \<le> r"
  shows "life_inv H ((set_inst i (x\<lparr>x_sb := (x_sb x)\<lparr>s_fs_info := fsi'\<rparr>, x_active := act i\<rparr>) L)\<lparr>l_vars := v, l_world := w\<rparr>)"
proof (rule life_inv_update [OF assms(1,3)])
  note ok = life_invD [OF assms(1,3,4)]
  have fsi: "fsi = s_fs_info (x_sb x)" "act i = x_active x + 1" "s_fs_info (x_sb x) \<noteq> None"
    using get ok by (auto simp: get_ref_live inst_ok_def)
  note new' = new [unfolded fsi(1)]
  note op = open_inst [OF new' assms(2) fsi(3) ok(5)]
  let ?y = "x\<lparr>x_sb := (x_sb x)\<lparr>s_fs_info := fsi'\<rparr>, x_active := act i\<rparr>"
  show "inst_ok ?y" using op(1) ok(1) fsi(2) assms(8) by (simp add: inst_ok_def)
  show "pty_count v = pty_count (l_vars L) - int (ptys (l_insts L ! i)) + int (ptys ?y)"
    "pty_count v \<le> pty_limit v" "0 \<le> pty_reserve v"
    using op(1) ok(5) assms(4,8) by (simp_all add: ptys_def)
  show "resources w = Some (R + inst_owns ?y)" if "resources (l_world L) = Some (R + inst_owns (l_insts L ! i))" for R
    using op(1) op(2) [OF that] inst_alive [OF ok(1)] assms(4,5,8) fsi(2) by (simp add: inst_owns_def)
qed

text \<open>Without a number, the reference taken for the pty is dropped again; the mount keeps the instance alive.\<close>

lemma life_inv_not_opened:
  assumes "life_inv H L" "ida_ok E" "i < length (l_insts L)" "x = l_insts L ! i" "0 < x_mounts x"
    and get: "devpts_get_ref None (supers L) i DEVPTS_SUPER_MAGIC (active L) = (fsi, act)"
    and new: "devpts_new_index E (l_vars L) fsi (l_world L) = Some (r, v, fsi', w)" and "r < 0"
    and put: "devpts_put_ref (supers L) i act w = Some (act', w')"
  shows "life_inv H ((set_inst i (x\<lparr>x_active := act' i\<rparr>) L)\<lparr>l_vars := v, l_world := w'\<rparr>)"
proof (rule life_inv_update [OF assms(1,3)])
  note ok = life_invD [OF assms(1,3,4)]
  have alive: "0 < x_active x" using inst_alive [OF ok(1)] assms(5) by blast
  have fsi: "fsi = s_fs_info (x_sb x)" "act i = x_active x + 1" "s_fs_info (x_sb x) \<noteq> None"
    using get ok by (auto simp: get_ref_live inst_ok_def)
  note op = open_inst [OF new [unfolded fsi(1)] assms(2) fsi(3) ok(5)]
  have pr: "act' i = x_active x" "w' = w" using put fsi(2) alive by (auto simp: devpts_put_ref_def Let_def)
  show "inst_ok (x\<lparr>x_active := act' i\<rparr>)" using ok(1) by (simp add: pr(1))
  show "pty_count v = pty_count (l_vars L) - int (ptys (l_insts L ! i)) + int (ptys (x\<lparr>x_active := act' i\<rparr>))"
    "pty_count v \<le> pty_limit v" "0 \<le> pty_reserve v"
    using op(1) ok(4,5) assms(4,8) by (simp_all add: pr(1))
  show "resources w' = Some (R + inst_owns (x\<lparr>x_active := act' i\<rparr>))"
    if "resources (l_world L) = Some (R + inst_owns (l_insts L ! i))" for R
    using op(2) [OF that] assms(4) by (simp add: pr)
qed

lemma life_step_inv:
  assumes "life_step E L L'" "life_inv H L" "ida_ok E"
  shows "life_inv H L'"
  using assms(1)
proof (cases rule: life_step.cases)
  case (mounted data r sbs' w)
  then show ?thesis using life_mounted(1) [OF assms(2)] by simp
next
  case (not_mounted data r sbs' w)
  then show ?thesis using life_mounted(2) [OF assms(2)] by simp
next
  case (remounted i x data err sb)
  then show ?thesis using life_inv_remounted [OF assms(2)] by simp
next
  case (unmounted i x act w)
  then show ?thesis using life_inv_unmounted [OF assms(2)] by simp
next
  case (opened i x fsi act r v fsi' w)
  then show ?thesis using life_inv_opened [OF assms(2,3) opened(2-7)] by simp
next
  case (not_opened i x fsi act r v fsi' w act' w')
  then show ?thesis using life_inv_not_opened [OF assms(2,3) not_opened(2-8)] by simp
next
  case (node_made i x idx device priv res sb w)
  note ok = life_invD(1) [OF assms(2) node_made(2,3)]
  have k: "s_fs_info sb = s_fs_info (x_sb x)" "distinct (map d_addr (s_dir sb))"
    "\<forall>R. resources (l_world L) = Some (R + sb_owns (x_sb x)) \<longrightarrow> resources w = Some (R + sb_owns sb)"
    using pty_new_keeps [OF node_made(6,5)] ok by (simp_all add: inst_ok_def)
  show ?thesis
    unfolding node_made(1)
    by (rule life_inv_sb [OF assms(2) node_made(2,3) inst_alive [OF ok]])
      (use k ok node_made(4) in \<open>auto simp: inst_ok_def allocated_def\<close>)
next
  case (node_removed i x n sb w)
  note ok = life_invD(1) [OF assms(2) node_removed(2,3)]
  have k: "s_fs_info sb = s_fs_info (x_sb x)" "distinct (map d_addr (s_dir sb))"
    "\<forall>R. resources (l_world L) = Some (R + sb_owns (x_sb x)) \<longrightarrow> resources w = Some (R + sb_owns sb)"
    using pty_kill_keeps [OF node_removed(5)] ok by (simp_all add: inst_ok_def)
  show ?thesis
    unfolding node_removed(1)
    by (rule life_inv_sb [OF assms(2) node_removed(2-4)]) (use k ok in \<open>auto simp: inst_ok_def allocated_def\<close>)
next
  case (closed i x fsi idx v fsi' y act w)
  then show ?thesis using life_inv_closed [OF assms(2) closed(2-8)] by simp
qed

subsection \<open>References and resources\<close>

text \<open>
  C16: Whatever is mounted, remounted, unmounted, opened and closed, in any order: the global pty count is the number
  of ptys that are open in all instances and stays within the limit; no instance hands out a number twice; an instance
  has one reference for each of its mounts and open ptys; the instances with a reference left, and no others, hold
  exactly their own memory, dentries and inodes; and dropping any of these references does not crash.
\<close>

theorem devpts_life_refs:
  assumes "rtranclp (life_step E) \<lparr>l_vars = \<lparr>pty_count = 0, pty_limit = P, pty_reserve = R\<rparr>, l_insts = [], l_world = s\<rparr> L"
    and "ida_ok E" "0 \<le> P" "0 \<le> R" "resources s = Some H"
  shows "pty_count (l_vars L) = int (sum_list (map ptys (l_insts L))) \<and> pty_count (l_vars L) \<le> pty_limit (l_vars L) \<and>
    (\<forall>x\<in>set (l_insts L). distinct (allocated (x_sb x)) \<and> x_active x = int (x_mounts x) + int (ptys x)) \<and>
    resources (l_world L) = Some (H + sum_list (map inst_owns (l_insts L))) \<and>
    (\<forall>i<length (l_insts L). 0 < active L i \<longrightarrow> devpts_put_ref (supers L) i (active L) (l_world L) \<noteq> None)"
proof -
  have inv: "life_inv H L"
    using assms(1)
  proof (induction rule: rtranclp_induct)
    case base
    then show ?case using assms by (simp add: life_inv_def)
  qed (blast intro: life_step_inv assms(2))
  moreover have "devpts_put_ref (supers L) i (active L) (l_world L) \<noteq> None" if "i < length (l_insts L)" for i
    using life_invD [OF inv that refl]
    by (auto simp: devpts_put_ref_def devpts_kill_sb_def inst_ok_def Let_def split: option.splits)
  ultimately show ?thesis by (auto simp: life_inv_def inst_ok_def ptys_def)
qed

text \<open>A mount whose only pty outlives it: the instance goes with the pty.\<close>

definition pts_sample :: "int list \<Rightarrow> super" where
  "pts_sample ids = \<lparr>s_magic = DEVPTS_SUPER_MAGIC,
     s_fs_info = Some \<lparr>fsi_addr = 2, allocated_ptys = ids, mount_opts = default_opts zero_opts, ptmx_dentry = 5\<rparr>,
     s_root = (4, \<lparr>n_addr = 3, i_ino = 1, i_mode = 0x41ed, i_uid = 0, i_gid = 0, i_rdev = 0, i_private = 0\<rparr>),
     s_dir = [\<lparr>d_addr = 5, d_name = ''ptmx'',
       d_inode = \<lparr>n_addr = 6, i_ino = 2, i_mode = S_IFCHR, i_uid = 0, i_gid = 0, i_rdev = ptmx_dev, i_private = 0\<rparr>\<rparr>]\<rparr>"

definition life_sample :: "int \<Rightarrow> pts_inst list \<Rightarrow> kcall list \<Rightarrow> nat \<Rightarrow> life" where
  "life_sample c xs l n = \<lparr>l_vars = \<lparr>pty_count = c, pty_limit = 4096, pty_reserve = 1024\<rparr>, l_insts = xs,
     l_world = \<lparr>answers = (\<lambda>n. int n + 1), ncalls = n, klog = l\<rparr>\<rparr>"

lemmas life_run = pts_sample_def life_sample_def supers_def active_def set_inst_def get_ref_live
  devpts_mount_def parse_mount_options_def default_opts_def zero_opts_def sample_env_def
  devpts_fill_super_def new_pts_fs_info_def new_super_def mknod_ptmx_def
  obtain_obj_def status_call_def kzalloc_def kfree_def call_def answered_def ask_def
  devpts_kill_index_def devpts_put_ref_def devpts_kill_sb_def Let_def
  sget_None [of False, simplified] sget_None [of True, simplified]

lemma sample_mount: "\<exists>l. life_step sample_env (life_sample 0 [] [] 0) (life_sample 0 [\<lparr>x_sb = pts_sample [], x_active = 1, x_mounts = 1\<rparr>] l 6)"
  by (intro exI, rule back_subst [where P = "life_step _ _"], rule life_step.mounted [where data = None])
    (simp add: life_run)+

lemma sample_open: "\<exists>l' n'. life_step sample_env (life_sample 0 [\<lparr>x_sb = pts_sample [], x_active = 1, x_mounts = 1\<rparr>] l n)
    (life_sample 1 [\<lparr>x_sb = pts_sample [1], x_active = 2, x_mounts = 1\<rparr>] l' n')"
  by (intro exI, rule back_subst [where P = "life_step _ _"], rule life_step.opened [where i = 0])
    ((simp add: life_run)+, subst devpts_new_index.simps, (simp add: life_run)+)

lemma sample_unmount: "life_step sample_env (life_sample 1 [\<lparr>x_sb = pts_sample [1], x_active = 2, x_mounts = 1\<rparr>] l n)
    (life_sample 1 [\<lparr>x_sb = pts_sample [1], x_active = 1, x_mounts = 0\<rparr>] l n)"
  by (rule back_subst [where P = "life_step _ _"], rule life_step.unmounted [where i = 0]) (simp add: life_run)+

lemma sample_close: "\<exists>l' n'. life_step sample_env (life_sample 1 [\<lparr>x_sb = pts_sample [1], x_active = 1, x_mounts = 0\<rparr>] l n)
    (life_sample 0 [\<lparr>x_sb = pts_sample [], x_active = 0, x_mounts = 0\<rparr>] l' n')"
  by (intro exI, rule back_subst [where P = "life_step _ _"], rule life_step.closed [where i = 0 and idx = 1])
    (simp add: life_run)+

theorem devpts_life_refs_witness:
  "\<exists>L. rtranclp (life_step sample_env) (life_sample 0 [] [] 0) L \<and> pty_count (l_vars L) = 0 \<and>
     map x_active (l_insts L) = [0] \<and> resources (l_world L) = Some {#}"
proof -
  obtain l n where "rtranclp (life_step sample_env) (life_sample 0 [] [] 0) (life_sample 0 [\<lparr>x_sb = pts_sample [], x_active = 0, x_mounts = 0\<rparr>] l n)"
    (is "rtranclp _ _ ?L")
    using sample_mount sample_open sample_unmount sample_close
    by (meson converse_rtranclp_into_rtranclp rtranclp.rtrancl_refl)
  moreover from devpts_life_refs [OF this [unfolded life_sample_def] sample_env_ida, of "{#}"]
  have "resources (l_world ?L) = Some {#}"
    by (simp add: life_sample_def inst_owns_def resources_def)
  ultimately show ?thesis by (intro exI [of _ ?L]) (simp add: life_sample_def)
qed

end
