(* ===== verification/Devpts_Single.thy ===== *)
theory Devpts_Single
  imports Devpts
begin

text \<open>
  The pseudo-terminal file system of \<open>src/fs/inode_orig.c\<close> built without \<open>CONFIG_DEVPTS_MULTIPLE_INSTANCES\<close>: the
  \<open>#else\<close> branches. All mounts share one super block through \<open>mount_single\<close>, whose code is quoted in
  \<open>src/fs/super_orig.c\<close>, and the options \<open>ptmxmode\<close>, \<open>newinstance\<close> and \<open>max\<close> do not exist.
  What the two builds share is taken from theory \<open>Devpts\<close>.
\<close>

subsection \<open>Options\<close>

text \<open>The table of tokens is shorter; what it does not have is bogus.\<close>

definition tokens_single :: "env \<Rightarrow> env" where
  "tokens_single E = E\<lparr>match_token := (\<lambda>p. case match_token E p of
     Opt_ptmxmode _ \<Rightarrow> Opt_err | Opt_newinstance \<Rightarrow> Opt_err | Opt_max _ \<Rightarrow> Opt_err | t \<Rightarrow> t)\<rparr>"

definition devpts_show_options_single :: "env \<Rightarrow> pts_fs_info \<Rightarrow> string" where
  "devpts_show_options_single E fsi =
     (let opts = mount_opts fsi in
      (if setuid opts then '',uid='' @ digits 10 (nat (from_kuid E (uid opts))) else []) @
      (if setgid opts then '',gid='' @ digits 10 (nat (from_kgid E (gid opts))) else []) @
      '',mode='' @ pad3 (digits 8 (nat (mode opts))))"

definition update_ptmx_mode_single :: "super \<Rightarrow> pts_fs_info \<Rightarrow> super" where
  "update_ptmx_mode_single sb fsi = sb"

definition devpts_remount_single :: "env \<Rightarrow> super \<Rightarrow> string option \<Rightarrow> (int \<times> super) option" where
  "devpts_remount_single E sb data =
     (case s_fs_info sb of None \<Rightarrow> None
      | Some fsi \<Rightarrow>
          (let (err, opts) = parse_mount_options (tokens_single E) data PARSE_REMOUNT (mount_opts fsi);
             fsi = fsi\<lparr>mount_opts := opts\<rparr>;
             sb = sb\<lparr>s_fs_info := Some fsi\<rparr>
           in Some (err, update_ptmx_mode_single sb fsi)))"

subsection \<open>Mounting\<close>

text \<open>
  \<open>compare_single\<close> accepts any super block of the type. A new one is filled; for an old one \<open>do_remount_sb\<close>, which
  may refuse by itself, calls \<open>devpts_remount\<close>, and its result is ignored. \<open>s_active\<close> is the count of each super block.
\<close>

definition mount_single :: "env \<Rightarrow> string option \<Rightarrow> super list \<Rightarrow> (nat \<Rightarrow> int) \<Rightarrow> kworld \<Rightarrow>
    (super list \<times> (nat \<Rightarrow> int) \<times> kworld) outcome" where
  "mount_single E data ss s_active s =
     (let (r, s) = status_call ''sget'' s in
      if r < 0 then Done r (ss, s_active, s)
      else let (i, all) = sget (\<lambda>_. True) ss; sb = all ! i in
      if fst (s_root sb) = 0 then
        (let (error, sb, s) = devpts_fill_super sb s in
         if error \<noteq> 0 then (case devpts_kill_sb sb s of None \<Rightarrow> Crash | Some s \<Rightarrow> Done error (ss, s_active, s))
         else Done (int i) (all[i := sb], s_active(i := 1), s))
      else let (r, s) = status_call ''do_remount_sb'' s; s_active = s_active(i := s_active i + 1) in
        if r < 0 then Done (int i) (all, s_active, s)
        else case devpts_remount_single E sb data of None \<Rightarrow> Crash
        | Some (_, sb) \<Rightarrow> Done (int i) (all[i := sb], s_active, s))"

definition devpts_mount_single :: "env \<Rightarrow> string option \<Rightarrow> super list \<Rightarrow> (nat \<Rightarrow> int) \<Rightarrow> kworld \<Rightarrow>
    (super list \<times> (nat \<Rightarrow> int) \<times> kworld) outcome" where
  "devpts_mount_single E data ss s_active s = mount_single E data ss s_active s"

subsection \<open>Ptys\<close>

text \<open>Without the test of the inode's own super block only the kernel's mount \<open>devpts_mnt\<close> is left.\<close>

definition pts_sb_from_inode_single :: "nat option \<Rightarrow> nat option" where
  "pts_sb_from_inode_single devpts_mnt = (case devpts_mnt of None \<Rightarrow> None | Some m \<Rightarrow> Some m)"

definition devpts_get_ref_single :: "nat option \<Rightarrow> super list \<Rightarrow> (nat \<Rightarrow> int) \<Rightarrow> pts_fs_info option \<times> (nat \<Rightarrow> int)" where
  "devpts_get_ref_single devpts_mnt ss s_active =
     (case pts_sb_from_inode_single devpts_mnt of None \<Rightarrow> (None, s_active)
      | Some j \<Rightarrow>
          (case s_fs_info (ss ! j) of None \<Rightarrow> (None, s_active)
           | Some fsi \<Rightarrow> (Some fsi, s_active(j := s_active j + 1))))"

text \<open>\<open>None\<close> is the dereference \<open>sb->s_root\<close> of the missing super block, or one of the crashes of \<open>devpts_pty_kill\<close>.\<close>

definition devpts_pty_kill_single :: "nat option \<Rightarrow> super list \<Rightarrow> nat \<Rightarrow> node \<Rightarrow> kworld \<Rightarrow> (super \<times> kworld) option" where
  "devpts_pty_kill_single devpts_mnt ss i n s =
     (case pts_sb_from_inode_single devpts_mnt of None \<Rightarrow> None | Some _ \<Rightarrow> devpts_pty_kill (ss ! i) n s)"

subsection \<open>The life of the shared super block\<close>

record shared =
  g_sbs :: "super list"  \<comment> \<open>the super blocks of the type\<close>
  g_active :: "nat \<Rightarrow> int"
  g_mounts :: nat
  g_world :: kworld

text \<open>A super block that is killed leaves the list of its type.\<close>

inductive shared_step :: "env \<Rightarrow> shared \<Rightarrow> shared \<Rightarrow> bool" for E where
  mounted: "devpts_mount_single E data (g_sbs G) (g_active G) (g_world G) = Done r (ss, act, w) \<Longrightarrow> 0 \<le> r \<Longrightarrow>
    shared_step E G \<lparr>g_sbs = ss, g_active = act, g_mounts = Suc (g_mounts G), g_world = w\<rparr>"
| not_mounted: "devpts_mount_single E data (g_sbs G) (g_active G) (g_world G) = Done r (ss, act, w) \<Longrightarrow> r < 0 \<Longrightarrow>
    shared_step E G \<lparr>g_sbs = ss, g_active = act, g_mounts = g_mounts G, g_world = w\<rparr>"
| unmounted: "i < length (g_sbs G) \<Longrightarrow> 0 < g_mounts G \<Longrightarrow>
    devpts_put_ref (g_sbs G) i (g_active G) (g_world G) = Some (act, w) \<Longrightarrow>
    shared_step E G \<lparr>g_sbs = (if act i = 0 then take i (g_sbs G) @ drop (Suc i) (g_sbs G) else g_sbs G),
      g_active = act, g_mounts = g_mounts G - 1, g_world = w\<rparr>"

definition shared_inv :: "res multiset \<Rightarrow> shared \<Rightarrow> bool" where
  "shared_inv H G \<longleftrightarrow> resources (g_world G) = Some (H + sum_list (map sb_owns (g_sbs G))) \<and>
     (if g_mounts G = 0 then g_sbs G = []
      else \<exists>sb fsi. g_sbs G = [sb] \<and> fst (s_root sb) \<noteq> 0 \<and> s_fs_info sb = Some fsi \<and> g_active G 0 = int (g_mounts G))"

lemma sget_any: "sget (\<lambda>_. True) ss = (if ss = [] then (0, [new_super]) else (0, ss))"
  by (cases ss) (simp_all add: sget_def upt_conv_Cons del: upt_Suc)

lemma remount_single_keeps:
  assumes "s_fs_info sb = Some fsi"
  shows "\<exists>err sb' opts. devpts_remount_single E sb data = Some (err, sb') \<and> s_root sb' = s_root sb \<and>
    s_fs_info sb' = Some (fsi\<lparr>mount_opts := opts\<rparr>) \<and> sb_owns sb' = sb_owns sb \<and>
    parse_mount_options (tokens_single E) data PARSE_REMOUNT (mount_opts fsi) = (err, opts)"
  using assms
  by (auto simp: devpts_remount_single_def update_ptmx_mode_single_def sb_owns_fsi Let_def split: prod.splits)

text \<open>The first mount: the options given to it are not looked at.\<close>

lemma mount_single_first:
  assumes "resources s = Some H"
  shows "case mount_single E data [] act s of Crash \<Rightarrow> answers s (Suc (ncalls s)) = 0
    | Done r (ss, act', s') \<Rightarrow> (r < 0 \<and> ss = [] \<and> act' = act \<and> resources s' = Some H) \<or>
        (r = 0 \<and> act' = act(0 := 1) \<and> (\<exists>sb fsi. ss = [sb] \<and> fst (s_root sb) \<noteq> 0 \<and> s_fs_info sb = Some fsi \<and>
           mount_opts fsi = zero_opts\<lparr>mode := DEVPTS_DEFAULT_MODE\<rparr> \<and> resources s' = Some (H + sb_owns sb)))"
proof -
  let ?s1 = "answered (Plain ''sget'' (ask s)) s"
  have s1: "resources ?s1 = Some H" "ask ?s1 = answers s (Suc (ncalls s))"
    using assms by (simp add: ksimps) (simp add: ask_def answered_def)
  obtain r sb s2 where f: "devpts_fill_super new_super ?s1 = (r, sb, s2)"
    by (cases "devpts_fill_super new_super ?s1") auto
  note fp = fill_super_props [OF f s1(1)]
  have opts: "s_fs_info sb = Some fsi \<Longrightarrow> mount_opts fsi = zero_opts\<lparr>mode := DEVPTS_DEFAULT_MODE\<rparr>" for fsi
    using f by (auto simp: devpts_fill_super_def new_pts_fs_info_def zero_opts_def Let_def split: prod.splits if_splits)
  have m: "mount_single E data [] act s = (if ask s < 0 then Done (ask s) ([], act, ?s1)
      else if r \<noteq> 0 then (case devpts_kill_sb sb s2 of None \<Rightarrow> Crash | Some s \<Rightarrow> Done r ([], act, s))
      else Done 0 ([sb], act(0 := 1), s2))"
    using f by (simp add: mount_single_def status_call_def sget_any Let_def) (simp add: new_super_def)
  consider "ask s < 0" | "0 \<le> ask s" "r \<noteq> 0" | "0 \<le> ask s" "r = 0" by linarith
  then show ?thesis
  proof cases
    case 2
    then show ?thesis
      using fp s1(2) kill_sb_owns [of sb _ s2 H] unfolding m
      by (cases "s_fs_info sb") (auto simp: devpts_kill_sb_def [of sb])
  qed (use fp s1 opts in \<open>auto simp: m\<close>)
qed

text \<open>Every later mount is a remount of the shared super block.\<close>

lemma mount_single_again:
  assumes "s_fs_info sb = Some fsi" "fst (s_root sb) \<noteq> 0" "resources s = Some H"
  shows "\<exists>r sb' fsi' act' s'. mount_single E data [sb] act s = Done r (if r < 0 then [sb] else [sb'], act', s') \<and>
    act' = (if r < 0 then act else act(0 := act 0 + 1)) \<and> r \<le> 0 \<and> resources s' = Some H \<and>
    s_fs_info sb' = Some fsi' \<and> s_root sb' = s_root sb \<and> sb_owns sb' = sb_owns sb \<and>
    (fsi' = fsi \<or> mount_opts fsi' = snd (parse_mount_options (tokens_single E) data PARSE_REMOUNT (mount_opts fsi)))"
proof -
  obtain err sb' opts where r: "devpts_remount_single E sb data = Some (err, sb')" "s_root sb' = s_root sb"
    "s_fs_info sb' = Some (fsi\<lparr>mount_opts := opts\<rparr>)" "sb_owns sb' = sb_owns sb"
    "parse_mount_options (tokens_single E) data PARSE_REMOUNT (mount_opts fsi) = (err, opts)"
    using remount_single_keeps [OF assms(1), of E data] by blast
  let ?s1 = "answered (Plain ''sget'' (ask s)) s" let ?s2 = "answered (Plain ''do_remount_sb'' (ask ?s1)) ?s1"
  have s: "resources ?s1 = Some H" "resources ?s2 = Some H" using assms(3) by (simp_all add: ksimps)
  have m: "mount_single E data [sb] act s = (if ask s < 0 then Done (ask s) ([sb], act, ?s1)
      else if ask ?s1 < 0 then Done 0 ([sb], act(0 := act 0 + 1), ?s2) else Done 0 ([sb'], act(0 := act 0 + 1), ?s2))"
    using assms(2) r(1) by (simp add: mount_single_def status_call_def sget_any Let_def)
  consider "ask s < 0" | "0 \<le> ask s" "ask ?s1 < 0" | "0 \<le> ask s" "0 \<le> ask ?s1" by linarith
  then show ?thesis
  proof cases
    case 1
    then show ?thesis using m s assms(1) by auto
  next
    case 2
    then show ?thesis using m s assms(1) by auto
  next
    case 3
    then show ?thesis using m s r by auto
  qed
qed

lemma shared_inv_mount:
  assumes "shared_inv H G" "devpts_mount_single E data (g_sbs G) (g_active G) (g_world G) = Done r (ss, act, w)"
  shows "shared_inv H \<lparr>g_sbs = ss, g_active = act, g_mounts = (if 0 \<le> r then Suc (g_mounts G) else g_mounts G), g_world = w\<rparr>"
proof (cases "g_mounts G = 0")
  case True
  then have "g_sbs G = []" "resources (g_world G) = Some H" using assms(1) by (simp_all add: shared_inv_def)
  then show ?thesis
    using mount_single_first [of "g_world G" H, where E = E and data = data and act = "g_active G"] assms(2) True
    by (auto simp: devpts_mount_single_def shared_inv_def)
next
  case False
  then obtain sb fsi where sb: "g_sbs G = [sb]" "fst (s_root sb) \<noteq> 0" "s_fs_info sb = Some fsi"
    "g_active G 0 = int (g_mounts G)" "resources (g_world G) = Some (H + sb_owns sb)"
    using assms(1) by (auto simp: shared_inv_def)
  then show ?thesis
    using mount_single_again [OF sb(3,2,5), of E data "g_active G"] assms(2) False
    by (auto simp: devpts_mount_single_def shared_inv_def split: if_splits)
qed

lemma shared_step_inv: "shared_step E G G' \<Longrightarrow> shared_inv H G \<Longrightarrow> shared_inv H G'"
proof (induction rule: shared_step.cases)
  case (mounted data G r ss act w)
  then show ?case using shared_inv_mount [of H G E data r ss act w] by simp
next
  case (not_mounted data G r ss act w)
  then show ?case using shared_inv_mount [of H G E data r ss act w] by simp
next
  case (unmounted i G act w)
  then obtain sb fsi where sb: "g_sbs G = [sb]" "fst (s_root sb) \<noteq> 0" "s_fs_info sb = Some fsi"
    "g_active G 0 = int (g_mounts G)" "resources (g_world G) = Some (H + sb_owns sb)" "i = 0"
    by (auto simp: shared_inv_def)
  from kill_sb_owns [OF sb(3,5)] show ?case
    using unmounted sb by (auto simp: shared_inv_def devpts_put_ref_def Let_def of_nat_diff split: if_splits)
qed

subsection \<open>Properties\<close>

text \<open>
  C17: Built for a single instance, all mounts share at most one super block, which has one reference for each of them,
  holds exactly its own memory, dentry and inode while there is a mount, and nothing after the last unmount. No pty can be
  opened on it: \<open>devpts_mnt\<close> is never set, so that \<open>devpts_get_ref\<close> finds nothing, \<open>devpts_new_index\<close> answers
  \<open>-ENODEV\<close> without a change and \<open>devpts_pty_kill\<close> would dereference \<open>NULL\<close>.
\<close>

theorem devpts_single_shared:
  assumes "rtranclp (shared_step E) \<lparr>g_sbs = [], g_active = act, g_mounts = 0, g_world = s\<rparr> G" "resources s = Some H"
  shows "length (g_sbs G) = (if g_mounts G = 0 then 0 else 1) \<and> (0 < g_mounts G \<longrightarrow> g_active G 0 = int (g_mounts G)) \<and>
    resources (g_world G) = Some (H + sum_list (map sb_owns (g_sbs G))) \<and>
    devpts_new_index E v (fst (devpts_get_ref_single None (g_sbs G) (g_active G))) (g_world G) =
      Some (- ENODEV, v, None, g_world G) \<and>
    devpts_pty_kill_single None (g_sbs G) i n (g_world G) = None"
proof -
  have "shared_inv H G"
    using assms(1)
  proof (induction rule: rtranclp_induct)
    case base
    then show ?case using assms(2) by (simp add: shared_inv_def)
  qed (blast intro: shared_step_inv)
  then show ?thesis
    by (auto simp: shared_inv_def devpts_get_ref_single_def pts_sb_from_inode_single_def devpts_pty_kill_single_def
        split: if_splits)
qed

text \<open>
  The first mount leaves \<open>max\<close> at 0, whatever its options say: no number is below it, until a later mount has
  set the options of all of them.
\<close>

lemma single_first_mount_full:
  assumes "mount_single E data [] act s = Done r (ss, act', s')" "0 \<le> r" "resources s = Some H" "ida_ok E"
  shows "\<exists>sb fsi. ss = [sb] \<and> s_fs_info sb = Some fsi \<and> opt_max (mount_opts fsi) = 0 \<and> mode (mount_opts fsi) = DEVPTS_DEFAULT_MODE \<and>
    (\<forall>v w r v' f w'. devpts_new_index E v (Some fsi) w = Some (r, v', f, w') \<longrightarrow> r < 0 \<and> v' = v)"
proof -
  obtain sb fsi where sb: "ss = [sb]" "s_fs_info sb = Some fsi" "mount_opts fsi = zero_opts\<lparr>mode := DEVPTS_DEFAULT_MODE\<rparr>"
    using mount_single_first [OF assms(3), where E = E and data = data and act = act] assms(1,2) by auto
  moreover have "opt_max (mount_opts fsi) = 0" by (simp add: sb(3) zero_opts_def)
  ultimately show ?thesis using new_index_cases [OF _ assms(4), where fsi = fsi] by fastforce
qed

text \<open>In this build what is displayed restores the options of a remount too.\<close>

lemma single_options_roundtrip:
  assumes "scans E" "opts_ok E (mount_opts fsi)" "ptmxmode (mount_opts fsi) = 0" "opt_max (mount_opts fsi) = NR_UNIX98_PTY_MAX"
  shows "parse_mount_options (tokens_single E) (Some (devpts_show_options_single E fsi)) PARSE_REMOUNT q =
    (0, (mount_opts fsi)\<lparr>newinstance := newinstance q\<rparr>)"
proof -
  let ?o = "mount_opts fsi"
  let ?u = "if setuid ?o then [''uid='' @ digits 10 (nat (from_kuid E (uid ?o)))] else []"
  let ?g = "if setgid ?o then [''gid='' @ digits 10 (nat (from_kgid E (gid ?o)))] else []"
  let ?m = "[''mode='' @ pad3 (digits 8 (nat (mode ?o)))]"
  note sc = scansD [OF assms(1), simplified]
  note ok = assms(2) [unfolded opts_ok_def]
  have words: "devpts_show_options_single E fsi = concat (map (\<lambda>w. CHR '','' # w) (?u @ ?g @ ?m))"
    by (simp add: devpts_show_options_single_def Let_def)
  have "\<forall>w\<in>set (?u @ ?g @ ?m). CHR '','' \<notin> set w" by (auto simp: pad3_def digits_no_comma)
  note sep = strsep_fields [OF this]
  have "parse_words (tokens_single E) PARSE_REMOUNT (?u @ ?g @ ?m) (default_opts q) = (0, ?o\<lparr>newinstance := newinstance q\<rparr>)"
    using ok sc(1) [of "from_kuid E (uid ?o)"] sc(2) [of "from_kgid E (gid ?o)"] sc(4) [of "mode ?o"] assms(3,4)
    by (cases "setuid ?o"; cases "setgid ?o")
      (simp_all add: tokens_single_def parse_option_def default_opts_def S_IALLUGO_of_def take_bit_int_eq_self)
  then show ?thesis
    unfolding parse_mount_options_def words by (simp add: sep [simplified] Let_def)
qed

subsection \<open>Two mounts\<close>

definition shared_sb :: "pts_mount_opts \<Rightarrow> super" where
  "shared_sb opts = \<lparr>s_magic = DEVPTS_SUPER_MAGIC,
     s_fs_info = Some \<lparr>fsi_addr = 2, allocated_ptys = [], mount_opts = opts, ptmx_dentry = 0\<rparr>,
     s_root = (4, \<lparr>n_addr = 3, i_ino = 1, i_mode = 0x41ed, i_uid = 0, i_gid = 0, i_rdev = 0, i_private = 0\<rparr>), s_dir = []\<rparr>"

definition shared_sample :: "super list \<Rightarrow> (nat \<Rightarrow> int) \<Rightarrow> nat \<Rightarrow> kcall list \<Rightarrow> nat \<Rightarrow> shared" where
  "shared_sample ss act k l n = \<lparr>g_sbs = ss, g_active = act, g_mounts = k,
     g_world = \<lparr>answers = (\<lambda>n. int n + 1), ncalls = n, klog = l\<rparr>\<rparr>"

lemmas shared_run = shared_sample_def shared_sb_def devpts_mount_single_def mount_single_def sget_any
  devpts_fill_super_def new_pts_fs_info_def new_super_def zero_opts_def default_opts_def parse_mount_options_def
  devpts_remount_single_def update_ptmx_mode_single_def
  obtain_obj_def status_call_def kzalloc_def answered_def ask_def Let_def

lemma shared_first: "\<exists>l n. shared_step E (shared_sample [] act 0 [] 0)
    (shared_sample [shared_sb (zero_opts\<lparr>mode := DEVPTS_DEFAULT_MODE\<rparr>)] (act(0 := 1)) 1 l n)"
  by (intro exI, rule back_subst [where P = "shared_step _ _"], rule shared_step.mounted [where data = None])
    (simp add: shared_run)+

lemma shared_second: "\<exists>l' n'. shared_step E (shared_sample [shared_sb opts] act k l n)
    (shared_sample [shared_sb (default_opts opts)] (act(0 := act 0 + 1)) (Suc k) l' n')"
  by (intro exI, rule back_subst [where P = "shared_step _ _"], rule shared_step.mounted [where data = None])
    (simp add: shared_run)+

theorem devpts_single_shared_witness:
  "\<exists>G. rtranclp (shared_step sample_env) (shared_sample [] (\<lambda>_. 0) 0 [] 0) G \<and> g_mounts G = 2 \<and> length (g_sbs G) = 1 \<and>
     g_active G 0 = 2"
proof -
  from shared_first [of sample_env "\<lambda>_. 0"] shared_second [of sample_env]
  obtain sb act l n where r: "rtranclp (shared_step sample_env) (shared_sample [] (\<lambda>_. 0) 0 [] 0) (shared_sample [sb] act 2 l n)"
    (is "rtranclp _ _ ?G")
    by (metis (no_types, lifting) One_nat_def Suc_1 converse_rtranclp_into_rtranclp rtranclp.rtrancl_refl)
  have "resources \<lparr>answers = (\<lambda>n. int n + 1), ncalls = 0, klog = []\<rparr> = Some {#}" by (simp add: resources_def)
  from devpts_single_shared [OF r [unfolded shared_sample_def] this] r show ?thesis
    by (intro exI [of _ ?G]) (simp add: shared_sample_def)
qed

end
