(* ===== verification/Pci_Regs.thy ===== *)
theory Pci_Regs
  imports Interfaces
begin

text \<open>
  The register window driver of \<open>src/pci/my_pci2.c\<close>: the I/O registers of a PCI device as a file, and
  the probe and remove methods. The registers behave as memory here: \<open>io\<close> is what \<open>memcpy_fromio\<close>
  would read from \<open>ioaddr\<close> on.
\<close>

subsection \<open>Data\<close>

record mydev =
  regs_len :: int
  ioaddr :: addr
  io :: "byte list"

text \<open>What the PCI core keeps for the device, as far as the driver uses it.\<close>

record pci_dev =
  slot :: "32 word"
  bar_flags :: "nat \<Rightarrow> int"
  bar_len :: "nat \<Rightarrow> int"
  drvdata :: addr
  has_regions :: bool

abbreviation (input) IORESOURCE_IO :: int where "IORESOURCE_IO \<equiv> 0x100"
abbreviation (input) IORESOURCE_MEM :: int where "IORESOURCE_MEM \<equiv> 0x200"

subsection \<open>File operations\<close>

definition my_open :: "inode \<Rightarrow> kfile \<Rightarrow> int \<times> kfile" where
  "my_open inode filp = (0, filp\<lparr>private_data := i_cdev inode\<rparr>)"

definition my_release :: "inode \<Rightarrow> kfile \<Rightarrow> int \<times> kfile" where
  "my_release inode filp = (0, filp)"

definition my_read :: "mydev reader" where
  "my_read d cnt pos s =
     (if size_t pos \<ge> regs_len d then Some (0, pos, [], s)
      else let cnt = min cnt (size_t (regs_len d - pos)) in
      if cnt = 0 then Some (0, pos, [], s)
      else let (kbuf, s) = kzalloc (Bytes cnt) s in
      if kbuf = 0 then Some (- ENOMEM, pos, [], s)
      else do {
        data \<leftarrow> load (ioaddr d) (io d) (ioaddr d + pos) cnt;
        let (r, out, s) = copy_to_user data s in
        if r \<noteq> 0 then Some (- EFAULT, pos, out, kfree kbuf s)
        else Some (cnt, pos + cnt, out, kfree kbuf s)
      })"

definition my_write :: "mydev \<Rightarrow> (nat \<Rightarrow> byte) \<Rightarrow> int \<Rightarrow> int \<Rightarrow> kworld \<Rightarrow> (int \<times> int \<times> mydev \<times> kworld) option" where
  "my_write d buf cnt pos s =
     (if size_t pos \<ge> regs_len d then Some (0, pos, d, s)
      else let cnt = min cnt (size_t (regs_len d - pos)) in
      if cnt = 0 then Some (0, pos, d, s)
      else let (kbuf, s) = kzalloc (Bytes cnt) s in
      if kbuf = 0 then Some (- ENOMEM, pos, d, s)
      else let (r, data, s) = copy_from_user buf (nat cnt) s in
      if r \<noteq> 0 then Some (- EFAULT, pos, d, kfree kbuf s)
      else do {
        mem \<leftarrow> store (ioaddr d) (io d) (ioaddr d + pos) data;
        Some (cnt, pos + cnt, d\<lparr>io := mem\<rparr>, kfree kbuf s)
      })"

definition my_llseek :: "mydev \<Rightarrow> kfile \<Rightarrow> int \<Rightarrow> int \<Rightarrow> int \<times> kfile" where
  "my_llseek d filp offset origin =
     (let offset = (if origin = 1 then loff_t (offset + f_pos filp)
                    else if origin = 2 then loff_t (offset + regs_len d) else offset) in
      if offset < 0 \<or> size_t offset \<ge> regs_len d then (- EINVAL, filp)
      else (offset, filp\<lparr>f_pos := offset\<rparr>))"

subsection \<open>Probing and removing\<close>

definition pci_release_regions :: "pci_dev \<Rightarrow> kworld \<Rightarrow> pci_dev \<times> kworld" where
  "pci_release_regions p s =
     (p\<lparr>has_regions := False\<rparr>,
      if has_regions p then call (Giveback ''pci_release_regions'' [Obj ''regions'' 1]) s
      else call (Plain ''pci_release_regions'' 0) s)"

definition pci_request_regions :: "pci_dev \<Rightarrow> kworld \<Rightarrow> int \<times> pci_dev \<times> kworld" where
  "pci_request_regions p s =
     (let (rc, s) = obtain_if_ok ''pci_request_regions'' ''regions'' 1 s
      in (rc, p\<lparr>has_regions := (rc = 0)\<rparr>, s))"

text \<open>
  The code after the label \<open>err_out\<close>. There is no \<open>return\<close> before it: the successful path falls into
  it as well, with \<open>rc = 0\<close>.
\<close>

definition err_out :: "int \<Rightarrow> bool \<Rightarrow> mydev \<Rightarrow> pci_dev \<Rightarrow> kworld \<Rightarrow> int \<times> mydev \<times> pci_dev \<times> kworld" where
  "err_out rc disable_dev_on_err d p s =
     (let s = (if ioaddr d \<noteq> 0 then call (Giveback ''pci_iounmap'' [Obj ''iomap'' (ioaddr d)]) s else s);
        (p, s) = pci_release_regions p s;
        p = p\<lparr>drvdata := 0\<rparr>;
        s = (if disable_dev_on_err then call (Giveback ''pci_disable_device'' [Obj ''enabled'' 1]) s else s)
      in (rc, d, p, s))"

text \<open>
  From the label \<open>retry\<close> on, with the value the global \<open>use_io\<close> has at the end; \<open>tries\<close> is the number of passes left. A pass with \<open>use_io\<close> does not jump
  back, so two passes are enough. \<open>None\<close> is a loop that needs more.
\<close>

definition with_io :: "bool \<Rightarrow> int \<times> mydev \<times> pci_dev \<times> kworld \<Rightarrow> int \<times> bool \<times> mydev \<times> pci_dev \<times> kworld" where
  "with_io use_io r = (fst r, use_io, snd r)"

fun probe_retry :: "nat \<Rightarrow> bool \<Rightarrow> bool \<Rightarrow> addr \<Rightarrow> mydev \<Rightarrow> pci_dev \<Rightarrow> kworld \<Rightarrow>
    (int \<times> bool \<times> mydev \<times> pci_dev \<times> kworld) option" where
  "probe_retry 0 use_io disable self d p s = None"
| "probe_retry (Suc tries) use_io disable self d p s =
     (if use_io \<and> bar_flags p 0 AND IORESOURCE_IO = 0 then
        (Some (with_io use_io (err_out (- ENODEV) disable d p s)))
      else if \<not> use_io \<and> bar_flags p 1 AND IORESOURCE_MEM = 0 then
        (Some (with_io use_io (err_out (- ENODEV) disable d p s)))
      else let (rc, p, s) = pci_request_regions p s in
      if rc \<noteq> 0 then
        (Some (with_io use_io (err_out rc disable d p s)))
      else let disable = True; s = call (Plain ''pci_set_master'' 0) s;
        (a, s) = obtain_obj ''pci_iomap'' ''iomap'' s; d = d\<lparr>ioaddr := a\<rparr> in
      if use_io then
        (if a = 0 then (Some (with_io use_io (err_out (- EIO) disable d p s)))
         else let d = d\<lparr>regs_len := bar_len p 0\<rparr>; s = cdev_add self (MKDEV 80 (slot p)) 1 s
         in (Some (with_io use_io (err_out rc disable d p s))))
      else if a = 0 then
        (let (p, s) = pci_release_regions p s in probe_retry tries True disable self d p s)
      else let d = d\<lparr>regs_len := bar_len p 1\<rparr>; s = cdev_add self (MKDEV 80 (slot p)) 1 s
      in (Some (with_io use_io (err_out rc disable d p s))))"

definition my_probe :: "bool \<Rightarrow> pci_dev \<Rightarrow> kworld \<Rightarrow> (int \<times> bool \<times> addr \<times> mydev \<times> pci_dev \<times> kworld) option" where
  "my_probe use_io p s =
     (let d = \<lparr>regs_len = 0, ioaddr = 0, io = []\<rparr>; (self, s) = kzalloc (Sizeof ''mydev'') s in
      if self = 0 then Some (- ENOMEM, use_io, self, d, p, s)
      else let p = p\<lparr>drvdata := self\<rparr>; (rc, s) = obtain_if_ok ''pci_enable_device'' ''enabled'' 1 s in
      if rc \<noteq> 0 then Some (rc, use_io, self, d, p\<lparr>drvdata := 0\<rparr>, kfree self s)
      else map_option (\<lambda>(rc, use_io, d, p, s). (rc, use_io, self, d, p, s)) (probe_retry 2 use_io False self d p s))"

text \<open>\<open>None\<close>: the driver data is \<open>NULL\<close> and its \<open>cdev\<close> is dereferenced.\<close>

definition my_remove :: "mydev \<Rightarrow> pci_dev \<Rightarrow> kworld \<Rightarrow> (pci_dev \<times> kworld) option" where
  "my_remove d p s =
     (if drvdata p = 0 then None
      else let self = drvdata p; s = cdev_del self s;
        s = (if ioaddr d \<noteq> 0 then call (Giveback ''pci_iounmap'' [Obj ''iomap'' (ioaddr d)]) s else s);
        (p, s) = pci_release_regions p s;
        p = p\<lparr>drvdata := 0\<rparr>;
        s = call (Giveback ''pci_disable_device'' [Obj ''enabled'' 1]) s
      in Some (p, kfree self s))"

definition my_init :: "kworld \<Rightarrow> int \<times> kworld" where
  "my_init s = obtain_if_ok ''pci_register_driver'' ''pci_driver'' 1 s"

definition my_exit :: "kworld \<Rightarrow> kworld" where
  "my_exit s = call (Giveback ''pci_unregister_driver'' [Obj ''pci_driver'' 1]) s"

subsection \<open>The register file\<close>

definition win_inv :: "mydev \<Rightarrow> bool" where
  "win_inv d \<longleftrightarrow> regs_len d = int (length (io d)) \<and> regs_len d < 2 ^ 63"

lemma pci_read_step:
  assumes inv: "win_inv d" and "0 \<le> cnt" "0 \<le> pos" "pos < 2 ^ 63"
  obtains r pos' out s' where "my_read d cnt pos s = Some (r, pos', out, s')"
    "r < 0 \<Longrightarrow> pos' = pos" "regs_len d \<le> pos \<Longrightarrow> r = 0 \<and> pos' = pos \<and> out = [] \<and> s' = s"
    "0 \<le> r \<Longrightarrow> pos \<le> regs_len d \<Longrightarrow> r = min cnt (regs_len d - pos) \<and> pos' = pos + r \<and>
      out = take (nat r) (drop (nat pos) (io d))"
proof -
  define n where "n = min cnt (regs_len d - pos)"
  show thesis
  proof (cases "pos < regs_len d \<and> n \<noteq> 0")
    case False
    then have "my_read d cnt pos s = Some (0, pos, [], s)"
      using assms by (auto simp: my_read_def Let_def win_inv_def n_def)
    then show thesis by (rule that) (use False assms in \<open>auto simp: n_def\<close>)
  next
    case True
    let ?s1 = "answered (Kzalloc (Bytes n) (ask s)) s"
    have sz: "size_t pos = pos" "size_t (regs_len d - pos) = regs_len d - pos"
      using True assms by (auto simp: win_inv_def)
    have n: "0 < n" "pos + n \<le> regs_len d" using True assms by (auto simp: n_def)
    have ld: "load (ioaddr d) (io d) (ioaddr d + pos) n = Some (take (nat n) (drop (nat pos) (io d)))"
      using inv n assms(3) by (subst load_eq_Some) (auto simp: win_inv_def)
    obtain out s2 where cp: "copy_to_user (take (nat n) (drop (nat pos) (io d))) ?s1 = (ask ?s1, out, s2)"
      "ask ?s1 = 0 \<Longrightarrow> out = take (nat n) (drop (nat pos) (io d))"
      by (rule copy_to_user_cases) blast
    have "my_read d cnt pos s = Some (if ask s = 0 then (- ENOMEM, pos, [], ?s1)
        else if ask ?s1 \<noteq> 0 then (- EFAULT, pos, out, kfree (ask s) s2) else (n, pos + n, out, kfree (ask s) s2))"
      using True sz ld cp(1) by (simp add: my_read_def Let_def n_def [symmetric] kzalloc_def)
    then show thesis
      by (cases "ask s = 0"; cases "ask ?s1 = 0"; simp; elim that)
        (use n cp(2) True in \<open>auto simp: n_def\<close>)
  qed
qed

interpretation pci_rd: seek_reader my_read io win_inv
proof (unfold_locales, goal_cases)
  case (1 d c pos s)
  then have "pos < 2 ^ 63" by (simp add: win_inv_def)
  from 1(1-3) this show ?case by (rule pci_read_step [of d c pos s]) simp
next
  case (2 d c pos s r pos' out s')
  then have "pos < 2 ^ 63" by (simp add: win_inv_def)
  from 2(1-3) this show ?case
    by (rule pci_read_step [of d c pos s]) (use 2 in \<open>auto simp: win_inv_def\<close>)
next
  case (3 d c pos s r pos' out s')
  then have "pos < 2 ^ 63" by (simp add: win_inv_def)
  from 3(1-3) this show ?case by (rule pci_read_step [of d c pos s]) (use 3 in auto)
qed

text \<open>A write at a position inside the window.\<close>

lemma pci_write_step:
  assumes inv: "win_inv d" and "0 \<le> cnt" "0 \<le> pos" "pos < regs_len d"
  obtains r pos' d' s' where "my_write d buf cnt pos s = Some (r, pos', d', s')" "win_inv d'" "ioaddr d' = ioaddr d"
    "r < 0 \<Longrightarrow> d' = d \<and> pos' = pos"
    "0 \<le> r \<Longrightarrow> r = min cnt (regs_len d - pos) \<and> pos' = pos + r \<and>
      io d' = overwrite (io d) (nat pos) (map buf [0..<nat r])"
proof -
  define n where "n = min cnt (regs_len d - pos)"
  have sz: "size_t pos = pos" "size_t (regs_len d - pos) = regs_len d - pos"
    using assms by (auto simp: win_inv_def)
  have n: "0 \<le> n" "pos + n \<le> regs_len d" using assms by (auto simp: n_def)
  show thesis
  proof (cases "n = 0")
    case True
    then have "my_write d buf cnt pos s = Some (0, pos, d, s)"
      using assms sz by (simp add: my_write_def n_def [symmetric])
    then show thesis by (rule that) (use True inv in \<open>auto simp: n_def overwrite_def\<close>)
  next
    case False
    let ?s1 = "answered (Kzalloc (Bytes n) (ask s)) s"
    obtain data s2 where cp: "copy_from_user buf (nat n) ?s1 = (ask ?s1, data, s2)" "length data = nat n"
      "ask ?s1 = 0 \<Longrightarrow> data = map buf [0..<nat n]" by (rule copy_from_user_cases [of buf "nat n" ?s1]) blast
    have st: "store (ioaddr d) (io d) (ioaddr d + pos) data = Some (overwrite (io d) (nat pos) data)"
      using inv n cp(2) assms(3) by (subst store_eq_Some) (auto simp: win_inv_def)
    have len: "length (overwrite (io d) (nat pos) data) = length (io d)"
      using inv n cp(2) assms(3) by (auto simp: win_inv_def)
    have "my_write d buf cnt pos s = Some (if ask s = 0 then (- ENOMEM, pos, d, ?s1)
        else if ask ?s1 \<noteq> 0 then (- EFAULT, pos, d, kfree (ask s) s2)
        else (n, pos + n, d\<lparr>io := overwrite (io d) (nat pos) data\<rparr>, kfree (ask s) s2))"
      using False assms(4) sz st cp(1) by (simp add: my_write_def Let_def n_def [symmetric] kzalloc_def)
    then show thesis
      by (cases "ask s = 0"; cases "ask ?s1 = 0"; simp; elim that)
        (use n cp(3) inv len in \<open>auto simp: n_def win_inv_def\<close>)
  qed
qed

interpretation pci_mod: module_lifecycle "\<lambda>_ s. case my_init s of (r, s) \<Rightarrow> (r, (), s)"
  "\<lambda>_. my_exit" "\<lambda>_. {#Obj ''pci_driver'' 1#}"
  by unfold_locales (auto simp: my_init_def my_exit_def obtain_if_ok_def ksimps split: if_splits)

subsection \<open>The probe\<close>

text \<open>What is held when the code after \<open>err_out\<close> is reached, and when it is done.\<close>

definition held :: "bool \<Rightarrow> mydev \<Rightarrow> pci_dev \<Rightarrow> res multiset" where
  "held enabled d p = (if enabled then {#Obj ''enabled'' 1#} else {#}) + mset (objs ''iomap'' (ioaddr d)) +
     (if has_regions p then {#Obj ''regions'' 1#} else {#})"

lemma err_out_props:
  assumes "err_out rc dis d p s = (r, d', p', s')" "resources s = Some (H + held True d p)"
  shows "r = rc \<and> d' = d \<and> drvdata p' = 0 \<and> \<not> has_regions p' \<and>
    resources s' = Some (H + (if dis then {#} else {#Obj ''enabled'' 1#}))"
  using assms
  by (cases "ioaddr d = 0"; cases "has_regions p"; cases dis)
    (auto simp: err_out_def pci_release_regions_def held_def ksimps objs_nonzero Let_def)

text \<open>What a pass that reaches \<open>err_out\<close> leaves; \<open>on\<close> tells whether the device stays enabled.\<close>

definition leaves :: "res multiset \<Rightarrow> addr \<Rightarrow> (int \<times> bool \<times> mydev \<times> pci_dev \<times> kworld) option \<Rightarrow> bool" where
  "leaves H self res = (case res of None \<Rightarrow> False
     | Some (rc, u, d, p, s) \<Rightarrow> drvdata p = 0 \<and> \<not> has_regions p \<and>
         (if rc = 0 then resources s = Some (H + {#Cdev self#}) \<and> ioaddr d \<noteq> 0
          else \<exists>on. resources s = Some (H + (if on then {#Obj ''enabled'' 1#} else {#}))))"

lemma leaves_err:
  assumes "resources s = Some (H + held True d p)" "rc \<noteq> 0"
  shows "leaves H self (Some (with_io u (err_out rc dis d p s)))"
proof -
  obtain r d' p' s' where e: "err_out rc dis d p s = (r, d', p', s')" by (cases "err_out rc dis d p s") auto
  from err_out_props [OF e assms(1)] assms(2) show ?thesis
    by (auto simp: leaves_def with_io_def e intro!: exI [of _ "\<not> dis"])
qed

lemma leaves_ok:
  assumes "resources s = Some (H + held True d p + {#Cdev self#})" "ioaddr d \<noteq> 0"
  shows "leaves H self (Some (with_io u (err_out 0 True d p s)))"
proof -
  obtain r d' p' s' where e: "err_out 0 True d p s = (r, d', p', s')" by (cases "err_out 0 True d p s") auto
  have "resources s = Some (H + {#Cdev self#} + held True d p)" using assms(1) by (simp add: ac_simps)
  from err_out_props [OF e this] assms(2) show ?thesis by (auto simp: leaves_def with_io_def e)
qed

text \<open>The state after the regions were requested and the map was tried.\<close>

lemma mapped_res:
  assumes "resources s = Some (H + held True d p)" "ioaddr d = 0" "\<not> has_regions p" "ask s = 0"
  defines "s1 \<equiv> call (Plain ''pci_set_master'' 0) (answered (Obtain ''pci_request_regions'' [Obj ''regions'' 1]) s)"
  shows "resources (answered (Obtain ''pci_iomap'' (objs ''iomap'' (ask s1))) s1) =
    Some (H + held True (d\<lparr>ioaddr := ask s1, regs_len := n\<rparr>) (p\<lparr>has_regions := True\<rparr>))"
  using assms(1-4) by (simp add: s1_def ksimps held_def ac_simps)

lemma probe_retry_io:
  assumes "resources s = Some (H + held True d p)" "ioaddr d = 0" "\<not> has_regions p" "0 < tries"
  shows "leaves H self (probe_retry tries True dis self d p s)"
proof -
  obtain t where t: "tries = Suc t" using assms(4) by (cases tries) auto
  let ?s0 = "answered (Obtain ''pci_request_regions'' [Obj ''regions'' 1]) s"
  let ?s1 = "call (Plain ''pci_set_master'' 0) ?s0"
  let ?s2 = "answered (Obtain ''pci_iomap'' (objs ''iomap'' (ask ?s1))) ?s1"
  let ?p = "p\<lparr>has_regions := True\<rparr>"
  consider "bar_flags p 0 AND IORESOURCE_IO = 0" | "bar_flags p 0 AND IORESOURCE_IO \<noteq> 0" "ask s \<noteq> 0"
    | "bar_flags p 0 AND IORESOURCE_IO \<noteq> 0" "ask s = 0" by blast
  then show ?thesis
  proof cases
    case 1
    then show ?thesis using leaves_err [OF assms(1), of "- ENODEV"] by (simp add: t)
  next
    case 2
    let ?s = "answered (Obtain ''pci_request_regions'' []) s"
    have "resources ?s = Some (H + held True d (p\<lparr>has_regions := False\<rparr>))"
      using assms(1,3) by (simp add: ksimps held_def)
    from leaves_err [OF this, of "ask s"] 2 show ?thesis
      by (simp add: t pci_request_regions_def obtain_if_ok_def)
  next
    case 3
    note r = mapped_res [OF assms(1-3) 3(2)]
    have eq: "probe_retry tries True dis self d p s = (if ask ?s1 = 0
        then (Some (with_io True (err_out (- EIO) True (d\<lparr>ioaddr := ask ?s1\<rparr>) ?p ?s2)))
        else (Some (with_io True (err_out 0 True (d\<lparr>ioaddr := ask ?s1, regs_len := bar_len p 0\<rparr>) ?p
          (cdev_add self (MKDEV 80 (slot p)) 1 ?s2)))))"
      using 3 by (simp add: t pci_request_regions_def obtain_if_ok_def obtain_obj_def Let_def)
    show ?thesis
    proof (cases "ask ?s1 = 0")
      case True
      have "resources ?s2 = Some (H + held True (d\<lparr>ioaddr := ask ?s1\<rparr>) ?p)"
        using r [of 0] by (simp add: held_def)
      from leaves_err [OF this, of "- EIO"] True show ?thesis by (simp add: eq)
    next
      case False
      have "resources (cdev_add self (MKDEV 80 (slot p)) 1 ?s2) =
          Some (H + held True (d\<lparr>ioaddr := ask ?s1, regs_len := bar_len p 0\<rparr>) ?p + {#Cdev self#})"
        using r [of "bar_len p 0"] by (simp add: cdev_add_def ksimps)
      from leaves_ok [OF this] False show ?thesis by (simp add: eq)
    qed
  qed
qed

lemma probe_retry_mem:
  assumes "resources s = Some (H + held True d p)" "ioaddr d = 0" "\<not> has_regions p" "1 < tries"
  shows "leaves H self (probe_retry tries False dis self d p s)"
proof -
  obtain t where t: "tries = Suc t" "0 < t" using assms(4) by (cases tries) auto
  let ?s0 = "answered (Obtain ''pci_request_regions'' [Obj ''regions'' 1]) s"
  let ?s1 = "call (Plain ''pci_set_master'' 0) ?s0"
  let ?s2 = "answered (Obtain ''pci_iomap'' (objs ''iomap'' (ask ?s1))) ?s1"
  let ?p = "p\<lparr>has_regions := True\<rparr>"
  consider "bar_flags p 1 AND IORESOURCE_MEM = 0" | "bar_flags p 1 AND IORESOURCE_MEM \<noteq> 0" "ask s \<noteq> 0"
    | "bar_flags p 1 AND IORESOURCE_MEM \<noteq> 0" "ask s = 0" by blast
  then show ?thesis
  proof cases
    case 1
    then show ?thesis using leaves_err [OF assms(1), of "- ENODEV"] by (simp add: t)
  next
    case 2
    let ?s = "answered (Obtain ''pci_request_regions'' []) s"
    have "resources ?s = Some (H + held True d (p\<lparr>has_regions := False\<rparr>))"
      using assms(1,3) by (simp add: ksimps held_def)
    from leaves_err [OF this, of "ask s"] 2 show ?thesis
      by (simp add: t pci_request_regions_def obtain_if_ok_def)
  next
    case 3
    note r = mapped_res [OF assms(1-3) 3(2)]
    let ?s3 = "call (Giveback ''pci_release_regions'' [Obj ''regions'' 1]) ?s2"
    have eq: "probe_retry tries False dis self d p s = (if ask ?s1 = 0
        then probe_retry t True True self (d\<lparr>ioaddr := 0\<rparr>) (?p\<lparr>has_regions := False\<rparr>) ?s3
        else (Some (with_io False (err_out 0 True (d\<lparr>ioaddr := ask ?s1, regs_len := bar_len p 1\<rparr>) ?p
          (cdev_add self (MKDEV 80 (slot p)) 1 ?s2)))))"
      using 3 by (simp add: t pci_request_regions_def pci_release_regions_def obtain_if_ok_def obtain_obj_def Let_def)
    show ?thesis
    proof (cases "ask ?s1 = 0")
      case True
      have "resources ?s3 = Some (H + held True (d\<lparr>ioaddr := 0\<rparr>) (?p\<lparr>has_regions := False\<rparr>))"
        using r [of 0] True by (simp add: held_def ksimps)
      from probe_retry_io [OF this _ _ t(2)] True show ?thesis by (simp add: eq)
    next
      case False
      have "resources (cdev_add self (MKDEV 80 (slot p)) 1 ?s2) =
          Some (H + held True (d\<lparr>ioaddr := ask ?s1, regs_len := bar_len p 1\<rparr>) ?p + {#Cdev self#})"
        using r [of "bar_len p 1"] by (simp add: cdev_add_def ksimps)
      from leaves_ok [OF this] False show ?thesis by (simp add: eq)
    qed
  qed
qed

lemma my_probe_leaves:
  assumes "resources s = Some H" "\<not> has_regions p"
  shows "case my_probe use_io p s of None \<Rightarrow> False
    | Some (rc, u, self, d, p', s') \<Rightarrow> (rc = 0 \<longrightarrow> drvdata p' = 0 \<and> ioaddr d \<noteq> 0 \<and> \<not> has_regions p' \<and>
        self \<noteq> 0 \<and> resources s' = Some (H + {#Mem self, Cdev self#}))"
proof -
  let ?s1 = "answered (Kzalloc (Sizeof ''mydev'') (ask s)) s"
  let ?s2 = "answered (Obtain ''pci_enable_device'' [Obj ''enabled'' 1]) ?s1"
  let ?d = "\<lparr>regs_len = 0, ioaddr = 0, io = []\<rparr>"
  show ?thesis
  proof (cases "ask s \<noteq> 0 \<and> ask ?s1 = 0")
    case True
    let ?p = "p\<lparr>drvdata := ask s\<rparr>"
    have "resources ?s2 = Some (H + {#Mem (ask s)#} + held True ?d ?p)"
      using assms True by (simp add: ksimps held_def mem_res_def)
    then have "leaves (H + {#Mem (ask s)#}) (ask s) (probe_retry 2 use_io False (ask s) ?d ?p ?s2)"
      using assms(2) probe_retry_io [of ?s2 _ ?d ?p 2] probe_retry_mem [of ?s2 _ ?d ?p 2] by (cases use_io) auto
    moreover have "my_probe use_io p s = map_option (\<lambda>(rc, u, d, p, s'). (rc, u, ask s, d, p, s'))
        (probe_retry 2 use_io False (ask s) ?d ?p ?s2)"
      using True by (simp add: my_probe_def kzalloc_def obtain_if_ok_def)
    ultimately show ?thesis
      using True by (auto simp: leaves_def ac_simps split: option.splits)
  next
    case False
    then show ?thesis by (cases "ask s = 0") (auto simp: my_probe_def kzalloc_def obtain_if_ok_def Let_def)
  qed
qed

subsection \<open>Properties\<close>

text \<open>
  C22: A probe always returns, and when it reports success it has torn the device down: the successful
  path falls through the label \<open>err_out\<close>. The registers are unmapped and the regions released, the
  device is disabled and its driver data is \<open>NULL\<close>, while the character device stays registered; the
  only resources left are the structure and its \<open>cdev\<close>. Removing the device then dereferences \<open>NULL\<close>.
\<close>

theorem pci_probe_tears_down:
  assumes "resources s = Some H" "\<not> has_regions p"
  shows "\<exists>rc u self d p' s'. my_probe use_io p s = Some (rc, u, self, d, p', s') \<and>
    (rc = 0 \<longrightarrow> ioaddr d \<noteq> 0 \<and> resources s' = Some (H + {#Mem self, Cdev self#}) \<and> my_remove d p' s' = None)"
proof -
  have "drvdata q = 0 \<Longrightarrow> my_remove d q t = None" for d q t by (simp add: my_remove_def)
  with my_probe_leaves [OF assms, of use_io] show ?thesis by (auto split: option.splits)
qed

theorem pci_probe_tears_down_witness:
  "\<exists>u self d p' s'. my_probe False \<lparr>slot = 3, bar_flags = (\<lambda>_. 0x200), bar_len = (\<lambda>_. 256), drvdata = 0, has_regions = False\<rparr>
      \<lparr>answers = (\<lambda>n. if n = 0 then 4096 else if n = 3 then 8192 else 0), ncalls = 0, klog = []\<rparr> =
    Some (0, u, self, d, p', s') \<and> my_remove d p' s' = None"
proof -
  let ?p = "\<lparr>slot = 3, bar_flags = (\<lambda>_. 0x200), bar_len = (\<lambda>_. 256), drvdata = 0, has_regions = False\<rparr>"
  let ?s = "\<lparr>answers = (\<lambda>n. if n = 0 then 4096 else if n = 3 then 8192 else 0), ncalls = 0, klog = []\<rparr>"
  have "\<exists>u self d p' s'. my_probe False ?p ?s = Some (0, u, self, d, p', s')"
    by (auto simp: my_probe_def kzalloc_def obtain_if_ok_def obtain_obj_def pci_request_regions_def numeral_2_eq_2
        pci_release_regions_def ask_def answered_def call_def cdev_add_def err_out_def with_io_def Let_def)
  moreover have "resources ?s = Some {#}" by (simp add: resources_def)
  ultimately show ?thesis using pci_probe_tears_down [of ?s "{#}" ?p False] by auto
qed



end
