(* ===== verification/Pci_Any.thy ===== *)
theory Pci_Any
  imports Interfaces
begin

text \<open>
  The driver of \<open>pci/any.c\<close>, which binds to every PCI device and drives the RTL8139: the probe
  function \<open>girlp\<close>, the remove function \<open>girlf\<close> that it also calls on its errors, and the character
  device through which the register window is read.

  The private structure lives in the net device, so it exists from \<open>alloc_etherdev\<close> on; its fields are
  zero until they are set. What the kernel hands out is an object of the log: the net device and its
  registration, the enabled PCI device, the two regions, the mapping, the device number, the
  character device and the class device. \<open>device_create\<close>, whose result is ignored, is taken to succeed.
\<close>

subsection \<open>Data\<close>

record pci_dev =
  vendor :: nat
  device :: nat
  res0_start :: int
  res0_end :: int
  res1_start :: int
  res1_end :: int

record pci_test =
  cds_dev :: dev_t
  io_resource :: addr
  mem_resource :: addr
  iomem_start :: addr
  pt_ndev :: addr

definition rtl8139 :: "pci_dev \<Rightarrow> bool" where
  "rtl8139 dev = (vendor dev = 0x10ec \<and> device dev = 0x8139)"

definition obj_obtain :: "string \<Rightarrow> string \<Rightarrow> int \<Rightarrow> kworld \<Rightarrow> kworld" where
  [kdefs]: "obj_obtain f kind x s = call (Obtain f [Obj kind x]) s"

definition obj_giveback :: "string \<Rightarrow> string \<Rightarrow> int \<Rightarrow> kworld \<Rightarrow> kworld" where
  [kdefs]: "obj_giveback f kind x s = call (Giveback f [Obj kind x]) s"

subsection \<open>Removing\<close>

text \<open>
  \<open>driver_data\<close> is \<open>None\<close> for \<open>NULL\<close>. Whatever stage the probe had reached, all of it is taken down;
  the registration of the net device is not.
\<close>

definition girlf :: "pci_dev \<Rightarrow> pci_test option \<Rightarrow> kworld \<Rightarrow> (pci_test option \<times> kworld) option" where
  "girlf dev driver_data s =
     (if rtl8139 dev then
        (case driver_data of
           None \<Rightarrow> None
         | Some pt \<Rightarrow>
             let s = obj_giveback ''device_destroy'' ''device'' (uint (cds_dev pt)) s;
                 s = obj_giveback ''cdev_del'' ''cdev'' (pt_ndev pt) s;
                 s = obj_giveback ''unregister_chrdev_region'' ''chrdev'' (uint (cds_dev pt)) s;
                 s = obj_giveback ''iounmap'' ''iomap'' (iomem_start pt) s;
                 s = obj_giveback ''pci_disable_device'' ''enabled'' 0 s;
                 s = obj_giveback ''release_region'' ''io_region'' (res0_start dev) s;
                 s = obj_giveback ''release_mem_region'' ''mem_region'' (res1_start dev) s;
                 s = obj_giveback ''free_netdev'' ''netdev'' (pt_ndev pt) s
             in Some (None, s))
      else Some (driver_data, s))"

subsection \<open>Probing\<close>

text \<open>The loop that asks for a device number until it gets one; the number is the second answer.\<close>

partial_function (option) chrdev_loop :: "32 word \<Rightarrow> kworld \<Rightarrow> (dev_t \<times> kworld) option" where
  "chrdev_loop minor s =
     (let rc = ask s; d = MKDEV (word_of_int (answers s (Suc (ncalls s)))) minor;
          s = (answered (Obtain ''alloc_chrdev_region'' (if rc = 0 then [Obj ''chrdev'' (uint d)] else [])) s)
                \<lparr>ncalls := Suc (Suc (ncalls s))\<rparr>
      in if rc \<noteq> 0 then chrdev_loop (minor + 1) s else Some (d, s))"

text \<open>A failure at any stage calls \<open>girlf\<close> and returns.\<close>

definition fail_with :: "int \<Rightarrow> pci_dev \<Rightarrow> pci_test option \<Rightarrow> kworld \<Rightarrow> (int \<times> pci_test option \<times> kworld) option" where
  "fail_with rc dev driver_data s = do {
     (dd, s) \<leftarrow> girlf dev driver_data s;
     Some (rc, dd, s)
   }"

definition probe_chrdev :: "pci_dev \<Rightarrow> pci_test \<Rightarrow> kworld \<Rightarrow> (int \<times> pci_test option \<times> kworld) option" where
  "probe_chrdev dev pt s = do {
     (d, s) \<leftarrow> chrdev_loop 0 s;
     let pt = pt\<lparr>cds_dev := d\<rparr>;
     let (rc, s) = obtain_if_ok ''cdev_add'' ''cdev'' (pt_ndev pt) s;
     if rc \<noteq> 0 then fail_with (- 1) dev (Some pt) s
     else Some (0, Some pt, obj_obtain ''device_create'' ''device'' (uint d) s)
   }"

definition probe_regions :: "pci_dev \<Rightarrow> pci_test \<Rightarrow> kworld \<Rightarrow> (int \<times> pci_test option \<times> kworld) option" where
  "probe_regions dev pt s =
     (let io = ask s;
          s = answered (Obtain ''request_region'' (if io = 0 then [] else [Obj ''io_region'' (res0_start dev)])) s;
          pt = pt\<lparr>io_resource := io\<rparr> in
      if io = 0 then fail_with (- 1) dev (Some pt) s
      else
        let mem = ask s;
            s = answered (Obtain ''request_mem_region'' (if mem = 0 then [] else [Obj ''mem_region'' (res1_start dev)])) s;
            pt = pt\<lparr>mem_resource := mem\<rparr> in
        if mem = 0 then fail_with (- 1) dev (Some pt) s
        else
          let (p, s) = obtain_obj ''ioremap'' ''iomap'' s;
              pt = pt\<lparr>iomem_start := p\<rparr> in
          if p = 0 then fail_with (- 1) dev (Some pt) s
          else probe_chrdev dev pt s)"

definition girlp :: "pci_dev \<Rightarrow> pci_test option \<Rightarrow> kworld \<Rightarrow> (int \<times> pci_test option \<times> kworld) option" where
  "girlp dev driver_data s =
     (if rtl8139 dev then
        let (ndev, s) = obtain_obj ''alloc_etherdev'' ''netdev'' s in
        if ndev = 0 then fail_with (- ENOMEM) dev driver_data s
        else
          let pt = \<lparr>cds_dev = 0, io_resource = 0, mem_resource = 0, iomem_start = 0, pt_ndev = ndev\<rparr>;
              (rc, s) = obtain_if_ok ''register_netdev'' ''netdev_registered'' ndev s in
          if rc \<noteq> 0 then fail_with (- 1) dev (Some pt) s
          else
            let (rc, s) = obtain_if_ok ''pci_enable_device'' ''enabled'' 0 s in
            if rc \<noteq> 0 then fail_with (- 1) dev (Some pt) s
            else probe_regions dev pt s
      else Some (0, driver_data, s))"

subsection \<open>The character device\<close>

text \<open>The window: its length, as the resource gives it, and its bytes at \<open>iomem_start\<close>.\<close>

record window =
  w_start :: int
  w_end :: int
  w_mem :: "byte list"

definition cr :: "window reader" where
  "cr w len offer s =
     (let buffer_len = w_end w - w_start w + 1;
          target_len = (if len > size_t (buffer_len - offer) then buffer_len - offer else len) in
      if offer \<ge> buffer_len then Some (0, offer, [], s)
      else do {
        src \<leftarrow> load 0 (w_mem w) offer target_len;
        let (r, out, s) = copy_to_user src s;
        if r \<noteq> 0 then Some (- 1, offer, out, s)
        else Some (target_len, offer + target_len, out, s)
      })"

definition co :: "inode \<Rightarrow> kfile \<Rightarrow> int \<times> kfile" where
  "co inp fp = (0, fp\<lparr>private_data := i_cdev inp\<rparr>)"

definition cre :: "inode \<Rightarrow> kfile \<Rightarrow> int" where
  "cre inp fp = 0"

subsection \<open>The module\<close>

text \<open>\<open>pci_register_driver\<close> fails without undoing the class; an error pointer is negative.\<close>

definition igp :: "addr \<Rightarrow> kworld \<Rightarrow> int \<times> addr \<times> kworld" where
  "igp pf_class s =
     (let pf_class = ask s;
          s = answered (Obtain ''class_create'' (if pf_class < 0 then [] else [Obj ''class'' pf_class])) s in
      if pf_class < 0 then (pf_class, pf_class, s)
      else
        let (rc, s) = obtain_if_ok ''pci_register_driver'' ''pci_driver'' 1 s
        in (rc, pf_class, s))"

definition rgp :: "addr \<Rightarrow> kworld \<Rightarrow> kworld" where
  "rgp pf_class s =
     obj_giveback ''pci_unregister_driver'' ''pci_driver'' 1 (obj_giveback ''class_destroy'' ''class'' pf_class s)"

subsection \<open>Reading the window\<close>

definition w_inv :: "window \<Rightarrow> bool" where
  "w_inv w \<longleftrightarrow> int (length (w_mem w)) = w_end w - w_start w + 1 \<and> w_end w - w_start w + 1 < 2 ^ 31"

lemma cr_inside:
  assumes "w_inv w" "0 \<le> c" "0 \<le> pos" "pos < int (length (w_mem w))"
    and "n = min c (int (length (w_mem w)) - pos)"
  shows "cr w c pos s =
    (let (r, out, s) = copy_to_user (take (nat n) (drop (nat pos) (w_mem w))) s
     in if r \<noteq> 0 then Some (- 1, pos, out, s) else Some (n, pos + n, out, s))"
proof -
  have "size_t (w_end w - w_start w + 1 - pos) = int (length (w_mem w)) - pos"
    using assms(1,3,4) by (simp add: w_inv_def)
  then have n: "(if c > size_t (w_end w - w_start w + 1 - pos) then w_end w - w_start w + 1 - pos else c) = n"
    using assms(1,5) by (simp add: w_inv_def min_def)
  have "load 0 (w_mem w) pos n = Some (take (nat n) (drop (nat pos) (w_mem w)))"
    using assms(2-5) by (simp add: load_def min_def)
  then show ?thesis unfolding cr_def Let_def n using assms(1,4) by (simp add: w_inv_def)
qed

lemma cr_end: "w_inv w \<Longrightarrow> int (length (w_mem w)) \<le> pos \<Longrightarrow> cr w c pos s = Some (0, pos, [], s)"
  by (simp add: cr_def w_inv_def)

interpretation any_rd: total_reader cr w_mem w_inv
proof (unfold_locales, goal_cases)
  case (1 d c pos s)
  then show ?case
    by (cases "pos < int (length (w_mem d))") (auto simp: cr_inside cr_end copy_to_user_def)
next
  case (2 d c pos s r pos' out s')
  then show ?case
    by (cases "pos < int (length (w_mem d))")
      (auto simp: cr_inside cr_end copy_to_user_def split: if_splits)
next
  case (3 d c pos s r pos' out s')
  then show ?case
    by (cases "pos < int (length (w_mem d))")
      (auto simp: cr_inside cr_end copy_to_user_def split: if_splits)
next
  case (4 d c pos s)
  then show ?case by (simp add: cr_end)
qed

subsection \<open>What a failed probe leaves\<close>

definition no_device :: "res multiset \<Rightarrow> bool" where
  "no_device H \<longleftrightarrow> (\<forall>x. Obj ''device'' x \<notin># H)"

text \<open>The class device is created last, so on an error \<open>girlf\<close> destroys one that was never created.\<close>

lemma girlf_unheld:
  assumes "girlf dev (Some pt) s = Some (dd, s')" "rtl8139 dev" "resources s = Some K" "no_device K"
  shows "resources s' = None"
proof -
  have "kstep (Giveback f [Obj ''device'' x]) K = None" for f x
    using assms(4) by (simp add: kstep_def no_device_def)
  then show ?thesis
    using assms(1-3) by (auto simp: girlf_def Let_def kdefs ksimps)
qed

lemma fail_with_unheld:
  assumes "fail_with rc dev (Some pt) s = Some (r, dd, s')" "rtl8139 dev" "resources s = Some K" "no_device K"
    "rc \<noteq> 0"
  shows "r \<noteq> 0 \<and> resources s' = None"
  using assms girlf_unheld [OF _ assms(2-4)] by (auto simp: fail_with_def split: Option.bind_splits)

lemma chrdev_loop_holds:
  "chrdev_loop minor s = Some (d, s') \<Longrightarrow> resources s = Some K \<Longrightarrow>
   resources s' = Some (add_mset (Obj ''chrdev'' (uint d)) K)"
proof -
  have "\<forall>K. resources s = Some K \<longrightarrow> resources (snd y) = Some (add_mset (Obj ''chrdev'' (uint (fst y))) K)"
    if "chrdev_loop minor s = Some y" for y
    using that
  proof (induction rule: chrdev_loop.raw_induct [rotated, consumes 1])
    case (1 cl minor s y)
    from 1(2) show ?case
      by (auto simp: Let_def ksimps split: if_splits dest!: 1(1))
  qed
  then show "chrdev_loop minor s = Some (d, s') \<Longrightarrow> resources s = Some K \<Longrightarrow>
    resources s' = Some (add_mset (Obj ''chrdev'' (uint d)) K)" by fastforce
qed

text \<open>The loop for a device number ends exactly when the kernel ever grants one.\<close>

lemma chrdev_loop_grant:
  "answers s (ncalls s + 2 * k) = 0 \<Longrightarrow> \<exists>d s'. chrdev_loop minor s = Some (d, s')"
proof (induction k arbitrary: minor s)
  case 0
  then show ?case by (subst chrdev_loop.simps) (simp add: ask_def Let_def)
next
  case (Suc k)
  show ?case
  proof (cases "ask s = 0")
    case True
    then show ?thesis by (subst chrdev_loop.simps) (simp add: Let_def)
  next
    case False
    let ?s = "(answered (Obtain ''alloc_chrdev_region'' []) s)\<lparr>ncalls := Suc (Suc (ncalls s))\<rparr>"
    have "answers ?s (ncalls ?s + 2 * k) = 0" using Suc.prems by (simp add: answered_def)
    from Suc.IH [OF this, of "minor + 1"] False show ?thesis
      by (subst chrdev_loop.simps) (simp add: Let_def)
  qed
qed

definition any_owns :: "pci_dev \<Rightarrow> pci_test \<Rightarrow> res multiset" where
  "any_owns dev pt = {#Obj ''netdev'' (pt_ndev pt), Obj ''netdev_registered'' (pt_ndev pt),
     Obj ''enabled'' 0, Obj ''io_region'' (res0_start dev), Obj ''mem_region'' (res1_start dev),
     Obj ''iomap'' (iomem_start pt), Obj ''chrdev'' (uint (cds_dev pt)), Obj ''cdev'' (pt_ndev pt),
     Obj ''device'' (uint (cds_dev pt))#}"

definition settled :: "pci_dev \<Rightarrow> res multiset \<Rightarrow> int \<times> pci_test option \<times> kworld \<Rightarrow> bool" where
  "settled dev H = (\<lambda>(r, dd, s). if r = 0 then \<exists>pt. dd = Some pt \<and> resources s = Some (H + any_owns dev pt)
     else resources s = None)"

lemma probe_chrdev_settled:
  assumes "probe_chrdev dev pt s = Some y" "rtl8139 dev" "no_device H"
    and "resources s = Some (H + {#Obj ''netdev'' (pt_ndev pt), Obj ''netdev_registered'' (pt_ndev pt),
     Obj ''enabled'' 0, Obj ''io_region'' (res0_start dev), Obj ''mem_region'' (res1_start dev),
     Obj ''iomap'' (iomem_start pt)#})"
  shows "settled dev H y"
proof -
  obtain d s1 where c: "chrdev_loop 0 s = Some (d, s1)"
    using assms(1) by (auto simp: probe_chrdev_def split: Option.bind_splits)
  note s1 = chrdev_loop_holds [OF c assms(4)]
  show ?thesis
  proof (cases "ask s1 = 0")
    case True
    with assms(1) c s1 show ?thesis
      by (auto simp: probe_chrdev_def settled_def any_owns_def kdefs ksimps Let_def)
  next
    case False
    have "resources (answered (Obtain ''cdev_add'' []) s1) = resources s1" by (simp add: s1 ksimps)
    with False assms(1,2,3) c s1 show ?thesis
      by (auto simp: probe_chrdev_def settled_def no_device_def obtain_if_ok_def Let_def
          dest!: fail_with_unheld)
  qed
qed

lemma probe_regions_settled:
  assumes "probe_regions dev pt s = Some y" "rtl8139 dev" "no_device H"
    and "resources s = Some (H + {#Obj ''netdev'' (pt_ndev pt), Obj ''netdev_registered'' (pt_ndev pt),
     Obj ''enabled'' 0#})"
  shows "settled dev H y"
proof -
  have failed: "settled dev H y"
    if "fail_with (- 1) dev (Some pt') s' = Some y" "resources s' = Some (H + K)" "no_device K" for pt' s' K
    using that assms(2,3) fail_with_unheld [of "- 1" dev pt' s' _ _ _ "H + K"]
    by (cases y) (auto simp: settled_def no_device_def)
  define s1 where "s1 = answered (Obtain ''request_region'' (if ask s = 0 then [] else [Obj ''io_region'' (res0_start dev)])) s"
  define s2 where "s2 = answered (Obtain ''request_mem_region'' (if ask s1 = 0 then [] else [Obj ''mem_region'' (res1_start dev)])) s1"
  define s3 where "s3 = answered (Obtain ''ioremap'' (objs ''iomap'' (ask s2))) s2"
  define pt1 where "pt1 = pt\<lparr>io_resource := ask s\<rparr>"
  define pt2 where "pt2 = pt1\<lparr>mem_resource := ask s1\<rparr>"
  define pt3 where "pt3 = pt2\<lparr>iomem_start := ask s2\<rparr>"
  have run: "probe_regions dev pt s =
      (if ask s = 0 then fail_with (- 1) dev (Some pt1) s1
       else if ask s1 = 0 then fail_with (- 1) dev (Some pt2) s2
       else if ask s2 = 0 then fail_with (- 1) dev (Some pt3) s3
       else probe_chrdev dev pt3 s3)"
    by (simp only: probe_regions_def Let_def obtain_obj_def prod.case s1_def s2_def s3_def pt1_def pt2_def pt3_def)
  note held = assms(4) s1_def s2_def s3_def ksimps objs_def no_device_def
  consider "ask s = 0" | "ask s \<noteq> 0" "ask s1 = 0" | "ask s \<noteq> 0" "ask s1 \<noteq> 0" "ask s2 = 0"
    | "ask s \<noteq> 0" "ask s1 \<noteq> 0" "ask s2 \<noteq> 0" by blast
  then show ?thesis
  proof cases
    case 1
    with assms(1) show ?thesis by (intro failed [where K = "{#Obj ''netdev'' (pt_ndev pt),
      Obj ''netdev_registered'' (pt_ndev pt), Obj ''enabled'' 0#}"]) (auto simp: run held)
  next
    case 2
    with assms(1) show ?thesis by (intro failed [where K = "{#Obj ''netdev'' (pt_ndev pt),
      Obj ''netdev_registered'' (pt_ndev pt), Obj ''enabled'' 0, Obj ''io_region'' (res0_start dev)#}"])
        (auto simp: run held)
  next
    case 3
    with assms(1) show ?thesis by (intro failed [where K = "{#Obj ''netdev'' (pt_ndev pt),
      Obj ''netdev_registered'' (pt_ndev pt), Obj ''enabled'' 0, Obj ''io_region'' (res0_start dev),
      Obj ''mem_region'' (res1_start dev)#}"]) (auto simp: run held)
  next
    case 4
    with assms(1) have "probe_chrdev dev pt3 s3 = Some y" by (simp add: run)
    from probe_chrdev_settled [OF this assms(2,3)] 4 show ?thesis
      by (simp add: held pt1_def pt2_def pt3_def)
  qed
qed

lemma girlp_settled:
  assumes "girlp dev None s = Some y" "rtl8139 dev" "no_device H" "resources s = Some H"
  shows "settled dev H y"
proof -
  have failed: "settled dev H y"
    if "fail_with (- 1) dev (Some pt') s' = Some y" "resources s' = Some (H + K)" "no_device K" for pt' s' K
    using that assms(2,3) fail_with_unheld [of "- 1" dev pt' s' _ _ _ "H + K"]
    by (cases y) (auto simp: settled_def no_device_def)
  define s1 where "s1 = answered (Obtain ''alloc_etherdev'' (objs ''netdev'' (ask s))) s"
  define s2 where "s2 = answered (Obtain ''register_netdev''
    (if ask s1 = 0 then [Obj ''netdev_registered'' (ask s)] else [])) s1"
  define s3 where "s3 = answered (Obtain ''pci_enable_device'' (if ask s2 = 0 then [Obj ''enabled'' 0] else [])) s2"
  define pt where "pt = \<lparr>cds_dev = 0, io_resource = 0, mem_resource = 0, iomem_start = 0, pt_ndev = ask s\<rparr>"
  have run: "girlp dev None s =
      (if ask s = 0 then fail_with (- ENOMEM) dev None s1
       else if ask s1 \<noteq> 0 then fail_with (- 1) dev (Some pt) s2
       else if ask s2 \<noteq> 0 then fail_with (- 1) dev (Some pt) s3
       else probe_regions dev pt s3)"
    using assms(2) by (simp only: girlp_def if_True Let_def obtain_obj_def obtain_if_ok_def prod.case
        s1_def s2_def s3_def pt_def)
  note held = assms(4) s1_def s2_def s3_def ksimps objs_def no_device_def
  have "ask s \<noteq> 0"
    using assms(1,2) by (auto simp: run fail_with_def girlf_def split: if_splits)
  then consider "ask s \<noteq> 0" "ask s1 \<noteq> 0" | "ask s \<noteq> 0" "ask s1 = 0" "ask s2 \<noteq> 0"
    | "ask s \<noteq> 0" "ask s1 = 0" "ask s2 = 0" by blast
  then show ?thesis
  proof cases
    case 1
    with assms(1) show ?thesis
      by (intro failed [where K = "{#Obj ''netdev'' (ask s)#}"]) (auto simp: run held)
  next
    case 2
    with assms(1) show ?thesis
      by (intro failed [where K = "{#Obj ''netdev'' (ask s), Obj ''netdev_registered'' (ask s)#}"])
        (auto simp: run held)
  next
    case 3
    with assms(1) have "probe_regions dev pt s3 = Some y" by (simp add: run)
    from probe_regions_settled [OF this assms(2,3)] 3 show ?thesis by (simp add: held pt_def)
  qed
qed

text \<open>
  C38: The probe of the RTL8139 never fails cleanly: whenever it returns an error it has given back
  something it did not hold (and when the net device cannot be allocated it dereferences \<open>NULL\<close>
  instead of returning). After a successful probe the remove function gives everything back except
  the registration of the net device it frees.
\<close>

theorem pci_any_probe:
  assumes "girlp dev None s = Some (r, dd, s')" "rtl8139 dev" "no_device H" "resources s = Some H"
  shows "if r = 0 then
      \<exists>pt s''. dd = Some pt \<and> girlf dev dd s' = Some (None, s'') \<and>
        resources s'' = Some (add_mset (Obj ''netdev_registered'' (pt_ndev pt)) H)
    else resources s' = None"
proof (cases "r = 0")
  case True
  with girlp_settled [OF assms] obtain pt
    where pt: "dd = Some pt" "resources s' = Some (H + any_owns dev pt)" by (auto simp: settled_def)
  with assms(2) True show ?thesis
    by (auto simp: girlf_def any_owns_def kdefs ksimps Let_def)
next
  case False
  with girlp_settled [OF assms] show ?thesis by (simp add: settled_def)
qed

definition sample_8139 :: pci_dev where
  "sample_8139 = \<lparr>vendor = 0x10ec, device = 0x8139, res0_start = 0xC000, res0_end = 0xC0FF,
     res1_start = 0xF0000000, res1_end = 0xF00000FF\<rparr>"

theorem pci_any_probe_witness:
  "\<exists>r dd s'. girlp sample_8139 None \<lparr>answers = (\<lambda>n. if n = 0 then 5 else 1), ncalls = 0, klog = []\<rparr> =
      Some (r, dd, s') \<and> r = - 1 \<and> resources s' = None"
proof -
  let ?s = "\<lparr>answers = (\<lambda>n. if n = 0 then 5 else 1), ncalls = 0, klog = []\<rparr> :: kworld"
  obtain dd s' where g: "girlp sample_8139 None ?s = Some (- 1, dd, s')"
    by (auto simp: girlp_def rtl8139_def sample_8139_def obtain_obj_def obtain_if_ok_def ask_def
        answered_def fail_with_def girlf_def Let_def)
  have "rtl8139 sample_8139" by (simp add: rtl8139_def sample_8139_def)
  from pci_any_probe [OF g this, of "{#}"] g show ?thesis
    by (simp add: no_device_def resources_def)
qed

text \<open>The window is read as the shared contract of readers says.\<close>

lemma any_read_stream:
  assumes "w_inv w" "0 \<le> pos" "\<forall>c\<in>set cs. 0 \<le> c"
  shows "\<exists>out pos' s'. read_seq cr w cs pos s = Some (out, pos', s') \<and> pos \<le> pos' \<and>
    out = take (nat (pos' - pos)) (drop (nat pos) (w_mem w))"
  using assms by (rule any_rd.read_seq_total)

end
