(* ===== verification/Fake_Pata.thy ===== *)
theory Fake_Pata
  imports Kernel_Log
begin

text \<open>
  The emulated disk of \<open>src/platform/fake_pata.c\<close>: a kernel thread polls a window of 32 bytes that stands
  for the registers of an ATA disk, reports which of them the host changed, and answers the identify
  command. One pass of the thread's loop is \<open>thread_pass\<close>; the text buffers it formats into are
  bounded, and \<open>None\<close> is writing past their end.
\<close>

subsection \<open>Data\<close>

abbreviation (input) RES_MEM_LENGTH :: nat where "RES_MEM_LENGTH \<equiv> 32"
abbreviation (input) ATA_REG_DATA :: nat where "ATA_REG_DATA \<equiv> 0"
abbreviation (input) ATA_REG_STATUS :: nat where "ATA_REG_STATUS \<equiv> 7"

record report =
  r_index :: nat
  r_name :: string
  r_old :: byte
  r_new :: byte
  r_text :: string

record fake =
  va :: "byte list"
  va_l :: "byte list"
  va_ctl :: "byte list"
  va_ctl_l :: "byte list"
  start_offset :: nat
  enable_read :: bool

text \<open>
  \<open>Identify_Drive_Information\<close>: nine numbered strings of ten bytes, the rest of the 512 bytes is zero.
\<close>

definition chars :: "string \<Rightarrow> byte list" where
  "chars w = map of_char w"

definition Identify_Drive_Information :: "byte list" where
  "Identify_Drive_Information =
     concat (map (\<lambda>i. chars (''FAKEDISK'' @ [char_of (48 + i)]) @ [0]) [1..<10 :: nat]) @ replicate 422 0"

subsection \<open>Answering\<close>

definition read_things :: "fake \<Rightarrow> fake" where
  "read_things f =
     (if enable_read f then
        let i = start_offset f;
          v = (va f)[ATA_REG_STATUS := 0x80,
                ATA_REG_DATA := Identify_Drive_Information ! i,
                ATA_REG_DATA + 1 := Identify_Drive_Information ! (i + 1),
                ATA_REG_DATA + 2 := Identify_Drive_Information ! (i + 2),
                ATA_REG_DATA + 3 := Identify_Drive_Information ! (i + 3),
                ATA_REG_STATUS := 8];
          i = (i + 4 + 1) mod 512
        in f\<lparr>va := v, start_offset := i, enable_read := (if i > 40 then False else enable_read f)\<rparr>
      else f)"

definition refresh_status :: "fake \<Rightarrow> fake" where
  "refresh_status f = f\<lparr>va := (va f)[ATA_REG_STATUS := 0x40]\<rparr>"

subsection \<open>One changed register\<close>

text \<open>A buffer of 32 characters: the text and its terminating zero have to fit.\<close>

definition text32 :: "string \<Rightarrow> string option" where
  "text32 w = (if length w < 32 then Some w else None)"

definition command_text :: "byte \<Rightarrow> string" where
  "command_text c =
     (if c = 0x08 then ''Dev Reset'' else if c = 0xE5 then ''Check Power'' else if c = 0xE2 then ''Standby !''
      else if c = 0xE3 then ''Idle !'' else if c = 0xEC then ''Identify Drive !''
      else if c = 0xA0 then ''Packet![TODO: not implement]'' else if c = 0xA1 then ''Try ATAPI'' else ''Unknown !'')"

definition reg_name :: "nat \<Rightarrow> string" where
  "reg_name i = (if i < 8 then [''ATA_REG_DATA'', ''ATA_REG_ERR'', ''ATA_REG_NSECT'', ''ATA_REG_LBAL'', ''ATA_REG_LBAM'',
     ''ATA_REG_LBAH'', ''ATA_REG_DEVICE'', ''ATA_REG_CMD''] ! i else ''Unknown'')"

definition io_changed :: "nat \<Rightarrow> fake \<Rightarrow> (report \<times> fake) option" where
  "io_changed i f =
     (let c = va f ! i;
        f' = (if i = ATA_REG_STATUS \<and> c = 0xEC then f\<lparr>start_offset := 0, enable_read := True\<rparr>
              else f\<lparr>enable_read := False\<rparr>) in do {
      name \<leftarrow> text32 (reg_name i);
      txt \<leftarrow> text32 (if i = ATA_REG_STATUS then command_text c else []);
      Some (\<lparr>r_index = i, r_name = name, r_old = va_l f ! i, r_new = c, r_text = txt\<rparr>, f')
    })"

definition ctl_changed :: "nat \<Rightarrow> fake \<Rightarrow> report option" where
  "ctl_changed i f =
     (let c = va_ctl f ! i in do {
      (name, txt) \<leftarrow>
        (if i = 0 then do {
           txt \<leftarrow> text32 (if bit c 1 then ''Enable Interupt'' else ''Disable Interupt'');
           txt \<leftarrow> (if bit c 2 then text32 (txt @ '', software reset'') else Some txt);
           Some (''Device Control'', txt)
         }
         else Some (if i = 1 then ''Drive Address[?]'' else ''Unknown'', []));
      Some \<lparr>r_index = i, r_name = name, r_old = va_ctl_l f ! i, r_new = c, r_text = txt\<rparr>
    })"

subsection \<open>A pass of the thread\<close>

fun scan_io :: "nat list \<Rightarrow> fake \<Rightarrow> (report list \<times> fake) option" where
  "scan_io [] f = Some ([], f)"
| "scan_io (i # is) f =
     (if va_l f ! i \<noteq> va f ! i then do {
        (r, f) \<leftarrow> io_changed i f;
        (rs, f) \<leftarrow> scan_io is f;
        Some (r # rs, f)
      }
      else scan_io is f)"

fun scan_ctl :: "nat list \<Rightarrow> fake \<Rightarrow> report list option" where
  "scan_ctl [] f = Some []"
| "scan_ctl (i # is) f =
     (if va_ctl_l f ! i \<noteq> va_ctl f ! i then do {
        r \<leftarrow> ctl_changed i f;
        rs \<leftarrow> scan_ctl is f;
        Some (r # rs)
      }
      else scan_ctl is f)"

definition compare_io :: "fake \<Rightarrow> (report list \<times> fake) option" where
  "compare_io f = do {
     (rs, f) \<leftarrow> (if va_l f \<noteq> va f then scan_io [0..<RES_MEM_LENGTH] f else Some ([], f));
     let f = (if enable_read f then read_things f else refresh_status f) in
     Some (rs, f\<lparr>va_l := va f\<rparr>)
   }"

definition compare_ctl :: "fake \<Rightarrow> (report list \<times> fake) option" where
  "compare_ctl f = do {
     rs \<leftarrow> (if va_ctl_l f \<noteq> va_ctl f then scan_ctl [0..<RES_MEM_LENGTH] f else Some []);
     Some (rs, f\<lparr>va_ctl_l := va_ctl f\<rparr>)
   }"

definition thread_pass :: "fake \<Rightarrow> (report list \<times> report list \<times> fake) option" where
  "thread_pass f = do {
     (io, f) \<leftarrow> compare_io f;
     (ctl, f) \<leftarrow> compare_ctl f;
     Some (io, ctl, f)
   }"

text \<open>The thread runs until it is asked to stop; here for a number of passes, with what the host writes between them.\<close>

fun thread_function :: "(fake \<Rightarrow> fake) list \<Rightarrow> fake \<Rightarrow> (report list \<times> fake) option" where
  "thread_function [] f = Some ([], f)"
| "thread_function (host # hs) f = do {
     (io, ctl, f) \<leftarrow> thread_pass f;
     (rs, f) \<leftarrow> thread_function hs (host f);
     Some (io @ ctl @ rs, f)
   }"

subsection \<open>The module\<close>

record handles =
  last_phy_page :: addr
  last_ctl_phy_page :: addr
  base_map :: addr
  ctl_map :: addr
  tsk :: int  \<comment> \<open>negative: \<open>IS_ERR\<close>\<close>

definition init_fake_device :: "handles \<Rightarrow> kworld \<Rightarrow> handles \<times> kworld" where
  "init_fake_device h s =
     (let (b, s) = obtain_obj ''ioremap'' ''iomap'' s; (c, s) = obtain_obj ''ioremap'' ''iomap'' s
      in (h\<lparr>base_map := b, ctl_map := c\<rparr>, s))"

text \<open>Neither the pages nor the mappings are checked: \<open>None\<close> is a copy from or to \<open>NULL\<close>.\<close>

definition fake_pata_init :: "handles \<Rightarrow> kworld \<Rightarrow> (int \<times> handles \<times> kworld) option" where
  "fake_pata_init h s =
     (let (p, s) = obtain_obj ''alloc_page'' ''page'' s; (q, s) = obtain_obj ''alloc_page'' ''page'' s;
        h = h\<lparr>last_phy_page := p, last_ctl_phy_page := q\<rparr>;
        (h, s) = init_fake_device h s in
      if p = 0 \<or> q = 0 \<or> base_map h = 0 \<or> ctl_map h = 0 then None
      else let t = ask s;
        s = answered (Obtain ''kthread_run'' (if t < 0 then [] else [Obj ''kthread'' 1])) s;
        h = h\<lparr>tsk := t\<rparr>;
        (r, s) = obtain_if_ok ''platform_device_register'' ''platform_device'' 1 s
      in Some (r, h, s))"

definition fake_pata_exit :: "handles \<Rightarrow> kworld \<Rightarrow> kworld" where
  "fake_pata_exit h s =
     (let s = call (Giveback ''platform_device_unregister'' [Obj ''platform_device'' 1]) s
      in if tsk h \<ge> 0 then call (Giveback ''kthread_stop'' [Obj ''kthread'' 1]) s else s)"

subsection \<open>Scanning\<close>

lemma scan_io_same: "\<forall>i\<in>set is. va_l f ! i = va f ! i \<Longrightarrow> scan_io is f = Some ([], f)"
  by (induction "is") auto

lemma scan_io_append:
  "scan_io (is @ js) f = do { (rs, g) \<leftarrow> scan_io is f; (ss, h) \<leftarrow> scan_io js g; Some (rs @ ss, h) }"
  by (induction "is" arbitrary: f) (auto split: Option.bind_splits)

lemma io_changed_defined: "i < 32 \<Longrightarrow> \<exists>r f'. io_changed i f = Some (r, f') \<and> va f' = va f \<and> va_l f' = va_l f \<and>
    va_ctl f' = va_ctl f \<and> va_ctl_l f' = va_ctl_l f"
proof -
  have "length (reg_name i) < 32" by (auto simp: reg_name_def less_Suc_eq numeral_eq_Suc)
  moreover have "length (command_text c) < 32" for c by (simp add: command_text_def)
  ultimately show ?thesis by (auto simp: io_changed_def text32_def Let_def)
qed

lemma scan_io_defined:
  "\<forall>i\<in>set is. i < 32 \<Longrightarrow> \<exists>rs f'. scan_io is f = Some (rs, f') \<and> va f' = va f \<and> va_l f' = va_l f \<and>
    va_ctl f' = va_ctl f \<and> va_ctl_l f' = va_ctl_l f"
proof (induction "is" arbitrary: f)
  case (Cons i "is")
  then obtain r g where g: "io_changed i f = Some (r, g)" "va g = va f" "va_l g = va_l f" "va_ctl g = va_ctl f"
    "va_ctl_l g = va_ctl_l f" using io_changed_defined [of i f] by auto
  from Cons obtain rs h where "scan_io is g = Some (rs, h)" "va h = va g" "va_l h = va_l g" "va_ctl h = va_ctl g"
    "va_ctl_l h = va_ctl_l g" by force
  with g Cons show ?case by auto
qed simp

lemma compare_io_defined:
  "\<exists>rs f'. compare_io f = Some (rs, f') \<and> va_ctl f' = va_ctl f \<and> va_ctl_l f' = va_ctl_l f"
proof -
  obtain rs g where "scan_io [0..<32] f = Some (rs, g)" "va_ctl g = va_ctl f" "va_ctl_l g = va_ctl_l f"
    using scan_io_defined [of "[0..<32]" f] by auto
  then show ?thesis
    by (cases "va_l f = va f") (auto simp: compare_io_def read_things_def refresh_status_def Let_def)
qed

text \<open>The text for the device control register is the only one that may not fit.\<close>

definition overflows :: "byte \<Rightarrow> bool" where
  "overflows c \<longleftrightarrow> bit c 2 \<and> \<not> bit c 1"

lemma ctl_changed_None: "ctl_changed i f = None \<longleftrightarrow> i = 0 \<and> overflows (va_ctl f ! 0)"
  by (auto simp: ctl_changed_def text32_def overflows_def Let_def)

lemma scan_ctl_None:
  "scan_ctl is f = None \<longleftrightarrow> 0 \<in> set is \<and> va_ctl_l f ! 0 \<noteq> va_ctl f ! 0 \<and> overflows (va_ctl f ! 0)"
proof (induction "is")
  case (Cons i "is")
  then show ?case
    using ctl_changed_None [of i f] by (cases "ctl_changed i f") (auto split: Option.bind_splits)
qed simp

lemma compare_ctl_same: "va_ctl_l f = va_ctl f \<Longrightarrow> compare_ctl f = Some ([], f)"
  by (simp add: compare_ctl_def)

subsection \<open>The identify command\<close>

text \<open>The state after the \<open>k\<close>-th answer.\<close>

definition answered_id :: "nat \<Rightarrow> fake \<Rightarrow> bool" where
  "answered_id k f \<longleftrightarrow> length (va f) = 32 \<and> va_l f = va f \<and> va_ctl_l f = va_ctl f \<and> start_offset f = 5 * k \<and>
     (enable_read f \<longleftrightarrow> k < 9) \<and> take 4 (va f) = take 4 (drop (5 * (k - 1)) Identify_Drive_Information) \<and> va f ! 7 = 8"

lemma length_Identify: "length Identify_Drive_Information = 512"
  by (simp add: Identify_Drive_Information_def chars_def upt_rec)

lemma take4: "4 \<le> length xs \<Longrightarrow> take 4 xs = [xs ! 0, xs ! 1, xs ! 2, xs ! 3]"
  by (rule nth_equalityI) (auto simp: less_Suc_eq numeral_eq_Suc)

lemma read_things_answers:
  assumes "enable_read f" "start_offset f = 5 * k" "k < 9" "length (va f) = 32"
  shows "answered_id (Suc k) ((read_things f)\<lparr>va_l := va (read_things f), va_ctl_l := va_ctl f\<rparr>)"
  using assms length_Identify
  by (auto simp: answered_id_def read_things_def Let_def take4 nth_list_update)

lemma thread_pass_answers:
  assumes "answered_id k f" "0 < k" "k < 9"
  shows "\<exists>f'. thread_pass f = Some ([], [], f') \<and> answered_id (Suc k) f'"
proof -
  let ?g = "(read_things f)\<lparr>va_l := va (read_things f)\<rparr>"
  have f: "enable_read f" "start_offset f = 5 * k" "length (va f) = 32" "va_l f = va f" "va_ctl_l f = va_ctl f"
    using assms by (auto simp: answered_id_def)
  have ctl: "va_ctl ?g = va_ctl f" "va_ctl_l ?g = va_ctl_l f" by (simp_all add: read_things_def Let_def)
  have "thread_pass f = Some ([], [], ?g)"
    using f ctl by (simp add: thread_pass_def compare_io_def compare_ctl_same Let_def)
  moreover have "?g = ?g\<lparr>va_ctl_l := va_ctl f\<rparr>" using f(5) ctl by simp
  with read_things_answers [OF f(1,2) assms(3) f(3)] have "answered_id (Suc k) ?g" by simp
  ultimately show ?thesis by blast
qed

text \<open>
  The host has written the identify command since the last pass. It may have set any register below it
  in the same interval, but none above it.
\<close>

definition identify_written :: "fake \<Rightarrow> bool" where
  "identify_written f \<longleftrightarrow> length (va f) = 32 \<and> length (va_l f) = 32 \<and> va_ctl_l f = va_ctl f \<and> va f ! 7 = 0xEC \<and>
     va_l f ! 7 \<noteq> 0xEC \<and> (\<forall>i\<in>{8..<32}. va_l f ! i = va f ! i)"

text \<open>The scan reaches the command last: what it found before does not matter.\<close>

lemma scan_io_identify:
  assumes "identify_written f"
  shows "\<exists>rs. scan_io [0..<32] f = Some (rs, f\<lparr>start_offset := 0, enable_read := True\<rparr>)"
proof -
  have f: "va f ! 7 = 0xEC" "va_l f ! 7 \<noteq> va f ! 7" using assms by (auto simp: identify_written_def)
  obtain rs g where g: "scan_io [0..<7] f = Some (rs, g)" "va g = va f" "va_l g = va_l f" "va_ctl g = va_ctl f"
    "va_ctl_l g = va_ctl_l f" using scan_io_defined [of "[0..<7]" f] by auto
  let ?h = "g\<lparr>start_offset := 0, enable_read := True\<rparr>"
  have h: "?h = f\<lparr>start_offset := 0, enable_read := True\<rparr>" using g(2-5) by (cases f, cases g) simp
  obtain r where "io_changed 7 g = Some (r, ?h)"
    using f g(2) by (auto simp: io_changed_def text32_def reg_name_def command_text_def Let_def)
  moreover have "scan_io [8..<32] ?h = Some ([], ?h)"
    using assms g(2,3) by (intro scan_io_same) (simp add: identify_written_def)
  moreover have "[0..<32] = [0..<7] @ 7 # [8..<32 :: nat]" by (simp add: upt_rec)
  ultimately have "scan_io [0..<32] f = Some (rs @ [r], ?h)"
    using f g by (simp add: scan_io_append)
  then show ?thesis using h by auto
qed

lemma thread_pass_identify:
  assumes "identify_written f"
  shows "\<exists>io f'. thread_pass f = Some (io, [], f') \<and> answered_id 1 f'"
proof -
  have f: "length (va f) = 32" "va_l f \<noteq> va f" "va_ctl_l f = va_ctl f"
    using assms by (auto simp: identify_written_def)
  let ?f = "f\<lparr>start_offset := 0, enable_read := True\<rparr>"
  let ?g = "(read_things ?f)\<lparr>va_l := va (read_things ?f)\<rparr>"
  obtain rs where "scan_io [0..<32] f = Some (rs, ?f)" using scan_io_identify [OF assms] by blast
  then have io: "compare_io f = Some (rs, ?g)" using f by (simp add: compare_io_def Let_def)
  have ctl: "va_ctl ?g = va_ctl f" "va_ctl_l ?g = va_ctl_l f" by (simp_all add: read_things_def Let_def)
  have "thread_pass f = Some (rs, [], ?g)"
    using io ctl f(3) by (simp add: thread_pass_def compare_ctl_same)
  moreover have "?g = ?g\<lparr>va_ctl_l := va_ctl ?f\<rparr>" using f(3) ctl by simp
  with read_things_answers [of ?f 0] f(1) have "answered_id 1 ?g" by simp
  ultimately show ?thesis by blast
qed

lemma identify_passes:
  assumes "identify_written f" "0 < k" "k \<le> 9"
  shows "\<exists>rs f'. thread_function (replicate k id) f = Some (rs, f') \<and> answered_id k f'"
proof -
  have rest: "answered_id m g \<Longrightarrow> 0 < m \<Longrightarrow> m + n \<le> 9 \<Longrightarrow>
      \<exists>rs h. thread_function (replicate n id) g = Some (rs, h) \<and> answered_id (m + n) h" for m n g
  proof (induction n arbitrary: m g)
    case (Suc n)
    from thread_pass_answers [OF Suc.prems(1,2)] Suc.prems(3) obtain g1
      where "thread_pass g = Some ([], [], g1)" "answered_id (Suc m) g1" by auto
    with Suc.IH [of "Suc m" g1] Suc.prems(3) show ?case by auto
  qed simp
  obtain io g where g: "thread_pass f = Some (io, [], g)" "answered_id 1 g"
    using thread_pass_identify [OF assms(1)] by blast
  obtain n where k: "k = Suc n" using assms(2) by (cases k) auto
  from rest [OF g(2), of n] assms(3) k obtain rs h
    where "thread_function (replicate n id) g = Some (rs, h)" "answered_id k h" by auto
  then show ?thesis using g(1) k by auto
qed

subsection \<open>Any host\<close>

text \<open>
  What a host does between two passes: stores into the two windows. A store outside of them reaches
  memory that the thread does not look at.
\<close>

datatype hstore = Io nat byte | Ctl nat byte

fun host_store :: "hstore \<Rightarrow> fake \<Rightarrow> fake" where
  "host_store (Io i v) f = f\<lparr>va := (va f)[i := v]\<rparr>"
| "host_store (Ctl i v) f = f\<lparr>va_ctl := (va_ctl f)[i := v]\<rparr>"

definition host_stores :: "hstore list \<Rightarrow> fake \<Rightarrow> fake" where
  "host_stores ws f = fold host_store ws f"

text \<open>The windows have their size, and the thread reads the identify block inside its 512 bytes.\<close>

definition fake_wf :: "fake \<Rightarrow> bool" where
  "fake_wf f \<longleftrightarrow> length (va f) = 32 \<and> length (va_l f) = 32 \<and> length (va_ctl f) = 32 \<and> length (va_ctl_l f) = 32 \<and>
     start_offset f < 512 \<and> (enable_read f \<longrightarrow> start_offset f + 3 < length Identify_Drive_Information \<and> start_offset f \<le> 40)"

text \<open>A text is still to be printed for the device control register only if it fits.\<close>

definition ctl_fits :: "fake \<Rightarrow> bool" where
  "ctl_fits f \<longleftrightarrow> va_ctl_l f ! 0 = va_ctl f ! 0 \<or> \<not> overflows (va_ctl f ! 0)"

fun store_fits :: "hstore \<Rightarrow> bool" where
  "store_fits (Ctl i v) = (i = 0 \<longrightarrow> \<not> overflows v)"
| "store_fits (Io i v) = True"

lemma update_first: "xs \<noteq> [] \<Longrightarrow> xs[i := v] ! 0 = (if i = 0 then v else xs ! 0)"
  by (cases xs; cases i) auto

lemma host_stores_wf:
  "fake_wf f \<Longrightarrow> ctl_fits f \<Longrightarrow> list_all store_fits ws \<Longrightarrow> fake_wf (host_stores ws f) \<and> ctl_fits (host_stores ws f)"
proof (induction ws arbitrary: f)
  case (Cons w ws)
  have "fake_wf (host_store w f) \<and> ctl_fits (host_store w f)"
  proof (cases w)
    case (Ctl i v)
    have "va_ctl f \<noteq> []" using Cons.prems(1) by (auto simp: fake_wf_def)
    then show ?thesis using Cons.prems Ctl by (auto simp: fake_wf_def ctl_fits_def update_first)
  qed (use Cons.prems in \<open>simp add: fake_wf_def ctl_fits_def\<close>)
  with Cons show ?case by (simp add: host_stores_def)
qed (simp add: host_stores_def)

lemma io_changed_wf: "fake_wf f \<Longrightarrow> io_changed i f = Some (r, f') \<Longrightarrow> fake_wf f'"
  by (auto simp: io_changed_def fake_wf_def length_Identify Let_def split: if_splits Option.bind_splits)

lemma scan_io_wf: "fake_wf f \<Longrightarrow> scan_io is f = Some (rs, f') \<Longrightarrow> fake_wf f'"
proof (induction "is" arbitrary: f rs)
  case (Cons i "is")
  show ?case
  proof (cases "va_l f ! i = va f ! i")
    case False
    then obtain r g ss where "io_changed i f = Some (r, g)" "scan_io is g = Some (ss, f')"
      using Cons.prems(2) by (auto split: Option.bind_splits)
    with Cons.IH [of g ss] io_changed_wf [OF Cons.prems(1)] show ?thesis by blast
  qed (use Cons in auto)
qed simp

lemma answer_wf: "fake_wf f \<Longrightarrow> fake_wf (if enable_read f then read_things f else refresh_status f)"
  by (auto simp: fake_wf_def read_things_def refresh_status_def length_Identify Let_def)

lemma compare_io_wf:
  assumes "fake_wf f" "compare_io f = Some (rs, f')"
  shows "fake_wf f'"
proof -
  obtain g where g: "fake_wf g" "f' = (let h = if enable_read g then read_things g else refresh_status g in h\<lparr>va_l := va h\<rparr>)"
    using assms by (auto simp: compare_io_def Let_def split: if_splits Option.bind_splits dest: scan_io_wf)
  from answer_wf [OF g(1)] show ?thesis by (auto simp: g(2) fake_wf_def Let_def)
qed

text \<open>A pass that has nothing too long to print ends, in a state as good as it found.\<close>

lemma thread_pass_wf:
  assumes "fake_wf f" "ctl_fits f"
  shows "\<exists>io ctl f'. thread_pass f = Some (io, ctl, f') \<and> fake_wf f' \<and> ctl_fits f'"
proof -
  obtain io g where g: "compare_io f = Some (io, g)" "va_ctl g = va_ctl f" "va_ctl_l g = va_ctl_l f"
    using compare_io_defined [of f] by auto
  have wf: "fake_wf g" by (rule compare_io_wf [OF assms(1) g(1)])
  have "scan_ctl [0..<32] g \<noteq> None"
    using assms(2) g(2,3) by (auto simp: scan_ctl_None ctl_fits_def)
  then have "\<exists>rs. compare_ctl g = Some (rs, g\<lparr>va_ctl_l := va_ctl g\<rparr>)"
    by (cases "va_ctl_l g = va_ctl g") (auto simp: compare_ctl_def)
  then obtain rs where "compare_ctl g = Some (rs, g\<lparr>va_ctl_l := va_ctl g\<rparr>)" by blast
  moreover have "fake_wf (g\<lparr>va_ctl_l := va_ctl g\<rparr>)" using wf by (simp add: fake_wf_def)
  ultimately show ?thesis using g(1) by (simp add: thread_pass_def ctl_fits_def)
qed

subsection \<open>Properties\<close>

text \<open>
  Whatever a host stores into the two windows between the passes of the thread, the state stays
  well-formed: the windows keep their size and, while an identify command is being answered, all four
  bytes that the next pass copies lie inside the 512 bytes of the block. As long as the host does not
  ask for a software reset with bit 1 clear, no pass fails and the thread runs on.
\<close>

lemma fake_thread_safe:
  assumes "fake_wf f" "ctl_fits f" "list_all (list_all store_fits) wss"
  shows "\<exists>rs f'. thread_function (map host_stores wss) f = Some (rs, f') \<and> fake_wf f' \<and> ctl_fits f'"
  using assms
proof (induction wss arbitrary: f)
  case (Cons ws wss)
  obtain io ctl g where g: "thread_pass f = Some (io, ctl, g)" "fake_wf g" "ctl_fits g"
    using thread_pass_wf [OF Cons.prems(1,2)] by blast
  have "fake_wf (host_stores ws g) \<and> ctl_fits (host_stores ws g)"
    using host_stores_wf [OF g(2,3)] Cons.prems(3) by simp
  with Cons.IH [of "host_stores ws g"] Cons.prems(3) g(1) show ?case by auto
qed simp

text \<open>
  After the host writes the identify command, with or without registers below it, and while it then
  writes nothing else, the emulated disk answers in exactly nine passes of the thread. The \<open>k\<close>-th answer puts four bytes of the identify block
  into the data register and its three neighbours, starting at offset \<open>5 * (k - 1)\<close>: every fifth byte of
  the block is skipped, and nothing from offset 44 on is ever delivered.
\<close>

lemma fake_identify_answers:
  assumes "identify_written f" "0 < k" "k \<le> 9"
  shows "\<exists>rs f'. thread_function (replicate k id) f = Some (rs, f') \<and> va f' ! 7 = 8 \<and>
    take 4 (va f') = take 4 (drop (5 * (k - 1)) Identify_Drive_Information) \<and> (enable_read f' \<longleftrightarrow> k < 9)"
  using identify_passes [OF assms] by (auto simp: answered_id_def)

definition sample_fake :: fake where
  "sample_fake = \<lparr>va = (replicate 32 0)[7 := 0xEC], va_l = (replicate 32 0)[7 := 0x40], va_ctl = replicate 32 0,
     va_ctl_l = replicate 32 0, start_offset = 0, enable_read = False\<rparr>"

text \<open>
  A pass of the thread writes past the end of its 32-byte text buffer exactly when the host has changed
  the device control register to a value with the software reset bit set and bit 1 clear: the text
  \<open>Disable Interupt, software reset\<close> needs 33 bytes. No other register value can overflow a buffer.
\<close>

lemma fake_ctl_overflow:
  assumes "length (va_ctl f) = 32" "length (va_ctl_l f) = 32"
  shows "thread_pass f = None \<longleftrightarrow>
    va_ctl_l f ! 0 \<noteq> va_ctl f ! 0 \<and> bit (va_ctl f ! 0) 2 \<and> \<not> bit (va_ctl f ! 0) 1"
proof -
  obtain io g where g: "compare_io f = Some (io, g)" "va_ctl g = va_ctl f" "va_ctl_l g = va_ctl_l f"
    using compare_io_defined [of f] by auto
  have "thread_pass f = None \<longleftrightarrow> compare_ctl g = None"
    using g(1) by (auto simp: thread_pass_def split: Option.bind_splits)
  also have "\<dots> \<longleftrightarrow> va_ctl_l g \<noteq> va_ctl g \<and> scan_ctl [0..<32] g = None"
    by (auto simp: compare_ctl_def split: Option.bind_splits)
  also have "\<dots> \<longleftrightarrow> va_ctl_l f ! 0 \<noteq> va_ctl f ! 0 \<and> overflows (va_ctl f ! 0)"
    by (auto simp: scan_ctl_None g)
  finally show ?thesis by (simp add: overflows_def)
qed

text \<open>
  The module gives back neither its pages nor its mappings, and a failed registration leaves its
  thread running.
\<close>

lemma fake_pata_leaks:
  assumes "fake_pata_init h s = Some (r, h', s')" "resources s = Some H"
  shows "resources (if r = 0 then fake_pata_exit h' s' else s') =
    Some (H + {#Obj ''page'' (last_phy_page h'), Obj ''page'' (last_ctl_phy_page h'),
      Obj ''iomap'' (base_map h'), Obj ''iomap'' (ctl_map h')#} +
      (if r \<noteq> 0 \<and> 0 \<le> tsk h' then {#Obj ''kthread'' 1#} else {#}))"
  using assms
  by (auto simp: fake_pata_init_def fake_pata_exit_def init_fake_device_def obtain_obj_def obtain_if_ok_def ksimps
      objs_nonzero Let_def split: if_splits)

end
