(* ===== verification/Pata.thy ===== *)
theory Pata
  imports Kernel_Log
begin

text \<open>
  The platform PATA drivers: \<open>src/platform/pata_platform.c\<close> and its variant for the emulated disk,
  \<open>src/platform/fake_pata_driver.c\<close>, which replaces the mapping of the I/O resources by an address
  computation. The lookup of a platform device's resources and the activation of the host are
  kernel code: parameters.
\<close>

subsection \<open>Data\<close>

abbreviation (input) IORESOURCE_IO :: int where "IORESOURCE_IO \<equiv> 0x100"
abbreviation (input) IORESOURCE_MEM :: int where "IORESOURCE_MEM \<equiv> 0x200"
abbreviation (input) IORESOURCE_IRQ :: int where "IORESOURCE_IRQ \<equiv> 0x400"
abbreviation (input) IRQF_TRIGGER_MASK :: int where "IRQF_TRIGGER_MASK \<equiv> 15"

record resource =
  r_start :: int
  r_end :: int
  r_flags :: int

record platform_device =
  num_resources :: nat
  get_resource :: "int \<Rightarrow> nat \<Rightarrow> resource option"  \<comment> \<open>\<open>platform_get_resource\<close>\<close>
  platdata_shift :: "nat option"  \<comment> \<open>\<open>ioport_shift\<close> of the platform data, if there is any\<close>

record ata_ioports =
  cmd_addr :: addr
  ctl_addr :: addr
  altstatus_addr :: addr
  data_addr :: addr
  error_addr :: addr
  feature_addr :: addr
  nsect_addr :: addr
  lbal_addr :: addr
  lbam_addr :: addr
  lbah_addr :: addr
  device_addr :: addr
  status_addr :: addr
  command_addr :: addr

record ata_port =
  pio_mask :: int
  slave_poss :: bool
  pio_polling :: bool
  ioaddr :: ata_ioports

text \<open>What \<open>ata_host_activate\<close> is called with.\<close>

record activation =
  a_host :: addr
  a_port :: ata_port
  a_irq :: int
  a_interrupt :: bool  \<comment> \<open>\<open>ata_sff_interrupt\<close>, or no handler\<close>
  a_irq_flags :: int

record ata_dev =
  enabled :: bool
  pio_mode :: int
  xfer_mode :: int
  xfer_shift :: int
  dflag_pio :: bool

subsection \<open>Transfer modes\<close>

abbreviation (input) XFER_PIO_0 :: int where "XFER_PIO_0 \<equiv> 8"
abbreviation (input) ATA_SHIFT_PIO :: int where "ATA_SHIFT_PIO \<equiv> 0"

definition pata_platform_set_mode :: "ata_dev list \<Rightarrow> int \<times> ata_dev list" where
  "pata_platform_set_mode link =
     (0, map (\<lambda>dev. if enabled dev
        then dev\<lparr>pio_mode := XFER_PIO_0, xfer_mode := XFER_PIO_0, xfer_shift := ATA_SHIFT_PIO, dflag_pio := True\<rparr>
        else dev) link)"

subsection \<open>Wiring up the port\<close>

definition pata_platform_setup_port :: "ata_ioports \<Rightarrow> nat \<Rightarrow> ata_ioports" where
  "pata_platform_setup_port io shift = io\<lparr>
     data_addr := cmd_addr io + push_bit shift 0,
     error_addr := cmd_addr io + push_bit shift 1,
     feature_addr := cmd_addr io + push_bit shift 1,
     nsect_addr := cmd_addr io + push_bit shift 2,
     lbal_addr := cmd_addr io + push_bit shift 3,
     lbam_addr := cmd_addr io + push_bit shift 4,
     lbah_addr := cmd_addr io + push_bit shift 5,
     device_addr := cmd_addr io + push_bit shift 6,
     status_addr := cmd_addr io + push_bit shift 7,
     command_addr := cmd_addr io + push_bit shift 7\<rparr>"

definition no_ports :: ata_ioports where
  "no_ports = \<lparr>cmd_addr = 0, ctl_addr = 0, altstatus_addr = 0, data_addr = 0, error_addr = 0, feature_addr = 0,
     nsect_addr = 0, lbal_addr = 0, lbam_addr = 0, lbah_addr = 0, device_addr = 0, status_addr = 0, command_addr = 0\<rparr>"

text \<open>
  The mapping functions \<open>devm_ioremap\<close> and \<open>devm_ioport_map\<close> (start and size to an address, \<open>NULL\<close> on
  failure) and \<open>ata_host_activate\<close> are arguments; the host comes from \<open>ata_host_alloc\<close>.
\<close>

record ata_kernel =
  devm_ioremap :: "int \<Rightarrow> int \<Rightarrow> addr"
  devm_ioport_map :: "int \<Rightarrow> int \<Rightarrow> addr"
  ata_host_activate :: "activation \<Rightarrow> int"

definition resource_size :: "resource \<Rightarrow> int" where
  "resource_size r = r_end r - r_start r + 1"

definition irq_of :: "resource option \<Rightarrow> int \<times> int" where
  "irq_of irq_res = (case irq_res of
     Some r \<Rightarrow> if r_start r > 0 then (r_start r, r_flags r AND IRQF_TRIGGER_MASK) else (0, 0)
   | None \<Rightarrow> (0, 0))"

text \<open>From the check of the mapped addresses to the activation, which both drivers share.\<close>

definition wire_up :: "ata_kernel \<Rightarrow> addr \<Rightarrow> addr \<Rightarrow> addr \<Rightarrow> int \<Rightarrow> int \<Rightarrow> nat \<Rightarrow> int \<Rightarrow> int \<times> activation option" where
  "wire_up K host cmd ctl irq irq_flags ioport_shift pmask =
     (let ap = \<lparr>pio_mask = pmask, slave_poss = True, pio_polling = (irq = 0),
            ioaddr = no_ports\<lparr>cmd_addr := cmd, ctl_addr := ctl\<rparr>\<rparr> in
      if cmd = 0 \<or> ctl = 0 then (- ENOMEM, None)
      else let
        io = (ioaddr ap)\<lparr>altstatus_addr := ctl\<rparr>;
        ap = ap\<lparr>ioaddr := pata_platform_setup_port io ioport_shift\<rparr>;
        act = \<lparr>a_host = host, a_port = ap, a_irq = irq, a_interrupt = (irq \<noteq> 0), a_irq_flags = irq_flags\<rparr>
      in (ata_host_activate K act, Some act))"

definition pata_probe :: "ata_kernel \<Rightarrow> resource \<Rightarrow> resource \<Rightarrow> resource option \<Rightarrow> nat \<Rightarrow> int \<Rightarrow> kworld \<Rightarrow>
    int \<times> activation option \<times> kworld" where
  "pata_probe K io_res ctl_res irq_res ioport_shift pmask s =
     (let mmio = (r_flags io_res = IORESOURCE_MEM \<and> r_flags ctl_res = IORESOURCE_MEM);
        (irq, irq_flags) = irq_of irq_res;
        (host, s) = obtain_obj ''ata_host_alloc'' ''ata_host'' s in
      if host = 0 then (- ENOMEM, None, s)
      else let
        m = (if mmio then devm_ioremap K else devm_ioport_map K);
        cmd = m (r_start io_res) (resource_size io_res);
        ctl = m (r_start ctl_res) (resource_size ctl_res);
        (r, act) = wire_up K host cmd ctl irq irq_flags ioport_shift pmask
      in (r, act, s))"

definition pata_platform_probe :: "ata_kernel \<Rightarrow> int \<Rightarrow> platform_device \<Rightarrow> kworld \<Rightarrow> int \<times> activation option \<times> kworld" where
  "pata_platform_probe K pmask pdev s =
     (if num_resources pdev \<noteq> 3 \<and> num_resources pdev \<noteq> 2 then (- EINVAL, None, s)
      else let io_res = (case get_resource pdev IORESOURCE_IO 0 of
                 None \<Rightarrow> get_resource pdev IORESOURCE_MEM 0 | r \<Rightarrow> r) in
      case io_res of None \<Rightarrow> (- EINVAL, None, s)
      | Some io_res \<Rightarrow>
          (let ctl_res = (case get_resource pdev IORESOURCE_IO 1 of
                 None \<Rightarrow> get_resource pdev IORESOURCE_MEM 1 | r \<Rightarrow> r) in
           case ctl_res of None \<Rightarrow> (- EINVAL, None, s)
           | Some ctl_res \<Rightarrow>
               pata_probe K io_res ctl_res (get_resource pdev IORESOURCE_IRQ 0)
                 (case platdata_shift pdev of Some n \<Rightarrow> n | None \<Rightarrow> 0) pmask s))"

subsection \<open>The driver of the emulated disk\<close>

definition fake_set_mode :: "ata_dev list \<Rightarrow> int \<times> ata_dev list" where
  "fake_set_mode link =
     (0, map (\<lambda>dev. if enabled dev
        then dev\<lparr>pio_mode := XFER_PIO_0, xfer_mode := XFER_PIO_0, xfer_shift := ATA_SHIFT_PIO, dflag_pio := True\<rparr>
        else dev) link)"

definition fake_setup_port :: "ata_ioports \<Rightarrow> nat \<Rightarrow> ata_ioports" where
  "fake_setup_port io shift =
     (let io = io\<lparr>data_addr := cmd_addr io + push_bit shift 0\<rparr>;
        io = io\<lparr>error_addr := cmd_addr io + push_bit shift 1\<rparr>;
        io = io\<lparr>feature_addr := cmd_addr io + push_bit shift 1\<rparr>;
        io = io\<lparr>nsect_addr := cmd_addr io + push_bit shift 2\<rparr>;
        io = io\<lparr>lbal_addr := cmd_addr io + push_bit shift 3\<rparr>;
        io = io\<lparr>lbam_addr := cmd_addr io + push_bit shift 4\<rparr>;
        io = io\<lparr>lbah_addr := cmd_addr io + push_bit shift 5\<rparr>;
        io = io\<lparr>device_addr := cmd_addr io + push_bit shift 6\<rparr>;
        io = io\<lparr>status_addr := cmd_addr io + push_bit shift 7\<rparr>
      in io\<lparr>command_addr := cmd_addr io + push_bit shift 7\<rparr>)"

text \<open>\<open>page_offset\<close> is the start of the kernel's direct map. The port comes zeroed with the host.\<close>

definition fake_probe :: "ata_kernel \<Rightarrow> addr \<Rightarrow> resource option \<Rightarrow> resource option \<Rightarrow> resource option \<Rightarrow> nat \<Rightarrow> int \<Rightarrow>
    kworld \<Rightarrow> int \<times> activation option \<times> kworld" where
  "fake_probe K page_offset io_res ctl_res irq_res ioport_shift pmask s =
     (case (io_res, ctl_res) of
        (Some io_res, Some ctl_res) \<Rightarrow>
          (let (irq, irq_flags) = (case irq_res of
               Some r \<Rightarrow> if r_start r > 0 then (r_start r, r_flags r AND IRQF_TRIGGER_MASK) else (0, 0)
             | None \<Rightarrow> (0, 0));
             (host, s) = obtain_obj ''ata_host_alloc'' ''ata_host'' s in
           if host = 0 then (- ENOMEM, None, s)
           else let
             ap = \<lparr>pio_mask = pmask, slave_poss = True, pio_polling = False, ioaddr = no_ports\<rparr>;
             ap = (if irq = 0 then ap\<lparr>pio_polling := True\<rparr> else ap);
             io = (ioaddr ap)\<lparr>cmd_addr := r_start io_res + page_offset\<rparr>;
             io = io\<lparr>ctl_addr := r_start ctl_res + page_offset\<rparr> in
           if cmd_addr io = 0 \<or> ctl_addr io = 0 then (- ENOMEM, None, s)
           else let
             io = io\<lparr>altstatus_addr := ctl_addr io\<rparr>;
             ap = ap\<lparr>ioaddr := fake_setup_port io ioport_shift\<rparr>;
             act = \<lparr>a_host = host, a_port = ap, a_irq = irq, a_interrupt = (irq \<noteq> 0), a_irq_flags = irq_flags\<rparr>
           in (ata_host_activate K act, Some act, s))
      | _ \<Rightarrow> (- EINVAL, None, s))"

definition fake_pata_platform_probe :: "ata_kernel \<Rightarrow> addr \<Rightarrow> int \<Rightarrow> platform_device \<Rightarrow> kworld \<Rightarrow>
    int \<times> activation option \<times> kworld" where
  "fake_pata_platform_probe K page_offset pmask pdev s =
     (case get_resource pdev IORESOURCE_MEM 0 of None \<Rightarrow> (- EINVAL, None, s)
      | Some io_res \<Rightarrow>
          (case get_resource pdev IORESOURCE_MEM 1 of None \<Rightarrow> (- EINVAL, None, s)
           | Some ctl_res \<Rightarrow>
               fake_probe K page_offset (Some io_res) (Some ctl_res) (get_resource pdev IORESOURCE_IRQ 0)
                 (case platdata_shift pdev of Some n \<Rightarrow> n | None \<Rightarrow> 0) pmask s))"

text \<open>The port is wired as in the original driver.\<close>

lemma fake_wiring: "fake_set_mode link = pata_platform_set_mode link" "fake_setup_port io shift = pata_platform_setup_port io shift"
  by (simp_all add: fake_set_mode_def pata_platform_set_mode_def fake_setup_port_def pata_platform_setup_port_def Let_def)

lemma fake_probe_wire_up:
  "fake_probe K page_offset (Some io_res) (Some ctl_res) irq_res ioport_shift pmask s =
     (let (irq, irq_flags) = irq_of irq_res;
        (host, s) = obtain_obj ''ata_host_alloc'' ''ata_host'' s in
      if host = 0 then (- ENOMEM, None, s)
      else let (r, act) = wire_up K host (r_start io_res + page_offset) (r_start ctl_res + page_offset) irq irq_flags ioport_shift pmask
        in (r, act, s))"
  by (auto simp: fake_probe_def irq_of_def wire_up_def fake_wiring Let_def split: prod.splits option.splits)

subsection \<open>Properties\<close>

definition registers :: "ata_ioports \<Rightarrow> addr list" where
  "registers io = [data_addr io, error_addr io, nsect_addr io, lbal_addr io, lbam_addr io, lbah_addr io,
     device_addr io, status_addr io]"

lemma setup_port_registers:
  "registers (pata_platform_setup_port io shift) = map (\<lambda>i. cmd_addr io + int i * 2 ^ shift) [0..<8]"
  "feature_addr (pata_platform_setup_port io shift) = error_addr (pata_platform_setup_port io shift)"
  "command_addr (pata_platform_setup_port io shift) = status_addr (pata_platform_setup_port io shift)"
  by (simp_all add: registers_def pata_platform_setup_port_def push_bit_eq_mult upt_rec)

lemma wire_up_cases:
  "wire_up K host cmd ctl irq flags shift pmask = (if cmd = 0 \<or> ctl = 0 then (- ENOMEM, None)
   else let act = \<lparr>a_host = host, a_port = \<lparr>pio_mask = pmask, slave_poss = True, pio_polling = (irq = 0),
        ioaddr = pata_platform_setup_port (no_ports\<lparr>cmd_addr := cmd, ctl_addr := ctl, altstatus_addr := ctl\<rparr>) shift\<rparr>,
        a_irq = irq, a_interrupt = (irq \<noteq> 0), a_irq_flags = flags\<rparr>
     in (ata_host_activate K act, Some act))"
  by (simp add: wire_up_def Let_def)

text \<open>
  A probe that activates the port uses eight distinct registers, spaced by the port shift, and all of
  them lie inside the mapped window when the resource is large enough for the shift; it polls exactly
  when there is no interrupt, and the interrupt handler is passed exactly when there is one.
\<close>

lemma pata_probe_wires_port:
  assumes "pata_probe K io_res ctl_res irq_res shift pmask s = (r, Some act, s')"
    and "8 * 2 ^ shift \<le> resource_size io_res"
  shows "let io = ioaddr (a_port act); base = (if r_flags io_res = 0x200 \<and> r_flags ctl_res = 0x200
        then devm_ioremap K else devm_ioport_map K) (r_start io_res) (resource_size io_res) in
      r = ata_host_activate K act \<and> cmd_addr io = base \<and> base \<noteq> 0 \<and> distinct (registers io) \<and>
      set (registers io) \<subseteq> {base..<base + resource_size io_res} \<and>
      pio_polling (a_port act) = (a_irq act = 0) \<and> a_interrupt act = (a_irq act \<noteq> 0) \<and>
      a_irq act = fst (irq_of irq_res)"
proof -
  let ?b = "(if r_flags io_res = 0x200 \<and> r_flags ctl_res = 0x200
    then devm_ioremap K else devm_ioport_map K) (r_start io_res) (resource_size io_res)"
  let ?c = "(if r_flags io_res = 0x200 \<and> r_flags ctl_res = 0x200
    then devm_ioremap K else devm_ioport_map K) (r_start ctl_res) (resource_size ctl_res)"
  obtain irq fl where irq: "irq_of irq_res = (irq, fl)" by fastforce
  have w: "wire_up K (ask s) ?b ?c irq fl shift pmask = (r, Some act)"
    using assms(1) irq by (auto simp: pata_probe_def obtain_obj_def Let_def split: if_splits prod.splits)
  then have act: "?b \<noteq> 0" "r = ata_host_activate K act" "a_irq act = irq" "a_interrupt act = (irq \<noteq> 0)"
    "pio_polling (a_port act) = (irq = 0)"
    "ioaddr (a_port act) = pata_platform_setup_port (no_ports\<lparr>cmd_addr := ?b, ctl_addr := ?c, altstatus_addr := ?c\<rparr>) shift"
    by (auto simp: wire_up_cases Let_def split: if_splits)
  have regs: "registers (ioaddr (a_port act)) = map (\<lambda>i. ?b + int i * 2 ^ shift) [0..<8]"
    by (simp only: act(6) setup_port_registers(1)) simp
  have "distinct (map (\<lambda>i. ?b + int i * 2 ^ shift) [0..<8])"
    by (simp add: distinct_map inj_on_def)
  moreover have "?b + int i * 2 ^ shift \<in> {?b..<?b + resource_size io_res}" if "i < 8" for i
  proof -
    have "int i * 2 ^ shift < 8 * 2 ^ shift" using that by simp
    from less_le_trans [OF this assms(2)] show ?thesis by simp
  qed
  moreover have "cmd_addr (ioaddr (a_port act)) = ?b" by (simp add: act(6) pata_platform_setup_port_def)
  ultimately show ?thesis
    using act regs irq by (auto simp: Let_def)
qed

text \<open>The registers of a port whose two windows lie elsewhere.\<close>

definition moved :: "int \<Rightarrow> int \<Rightarrow> ata_ioports \<Rightarrow> ata_ioports" where
  "moved d_cmd d_ctl io = \<lparr>cmd_addr = cmd_addr io + d_cmd, ctl_addr = ctl_addr io + d_ctl, altstatus_addr = altstatus_addr io + d_ctl,
     data_addr = data_addr io + d_cmd, error_addr = error_addr io + d_cmd, feature_addr = feature_addr io + d_cmd,
     nsect_addr = nsect_addr io + d_cmd, lbal_addr = lbal_addr io + d_cmd, lbam_addr = lbam_addr io + d_cmd,
     lbah_addr = lbah_addr io + d_cmd, device_addr = device_addr io + d_cmd, status_addr = status_addr io + d_cmd,
     command_addr = command_addr io + d_cmd\<rparr>"

definition move_port :: "int \<Rightarrow> int \<Rightarrow> activation \<Rightarrow> activation" where
  "move_port d_cmd d_ctl act = act\<lparr>a_port := (a_port act)\<lparr>ioaddr := moved d_cmd d_ctl (ioaddr (a_port act))\<rparr>\<rparr>"

lemma wire_up_moved:
  assumes "wire_up K host cmd ctl irq flags shift pmask = (r, Some act)" "cmd' \<noteq> 0" "ctl' \<noteq> 0"
  shows "wire_up K host cmd' ctl' irq flags shift pmask =
    (ata_host_activate K (move_port (cmd' - cmd) (ctl' - ctl) act), Some (move_port (cmd' - cmd) (ctl' - ctl) act))"
proof -
  have "move_port (cmd' - cmd) (ctl' - ctl) act =
      \<lparr>a_host = host, a_port = \<lparr>pio_mask = pmask, slave_poss = True, pio_polling = (irq = 0),
        ioaddr = pata_platform_setup_port (no_ports\<lparr>cmd_addr := cmd', ctl_addr := ctl', altstatus_addr := ctl'\<rparr>) shift\<rparr>,
        a_irq = irq, a_interrupt = (irq \<noteq> 0), a_irq_flags = flags\<rparr>"
    using assms(1) by (auto simp: wire_up_cases move_port_def moved_def pata_platform_setup_port_def Let_def split: if_splits)
  then show ?thesis using assms(2,3) by (simp add: wire_up_cases Let_def)
qed

text \<open>
  C24: For a device that describes its registers by memory resources, two or three resources in all, the driver of the emulated
  disk is the original driver with the direct map in the place of \<open>devm_ioremap\<close>. And wherever \<open>devm_ioremap\<close> puts the two
  windows: when the original driver activates the port, so does the other, with the same settings and the same registers, each
  at the same distance from the start of its window, unless a window starts at \<open>NULL\<close> in the direct map.
\<close>

theorem pata_fake_equivalent:
  assumes "num_resources pdev = 2 \<or> num_resources pdev = 3"
    and "get_resource pdev 0x100 0 = None" "get_resource pdev 0x100 1 = None"
    and "\<forall>i<2. \<forall>r. get_resource pdev 0x200 i = Some r \<longrightarrow> r_flags r = 0x200"
  shows "fake_pata_platform_probe K page_offset pmask pdev s =
      pata_platform_probe (K\<lparr>devm_ioremap := (\<lambda>start n. start + page_offset)\<rparr>) pmask pdev s \<and>
    (\<forall>r act s'. pata_platform_probe K pmask pdev s = (r, Some act, s') \<longrightarrow>
      (\<exists>io_res ctl_res. get_resource pdev 0x200 0 = Some io_res \<and> get_resource pdev 0x200 1 = Some ctl_res \<and>
        (r_start io_res + page_offset \<noteq> 0 \<and> r_start ctl_res + page_offset \<noteq> 0 \<longrightarrow>
          (let act' = move_port (r_start io_res + page_offset - devm_ioremap K (r_start io_res) (resource_size io_res))
                 (r_start ctl_res + page_offset - devm_ioremap K (r_start ctl_res) (resource_size ctl_res)) act
           in fake_pata_platform_probe K page_offset pmask pdev s = (ata_host_activate K act', Some act', s')))))"
proof (intro conjI allI impI)
  have f: "r_flags r = 0x200" if "get_resource pdev 0x200 i = Some r" "i < 2" for i r
    using assms(4) that by blast
  have wk: "wire_up (K\<lparr>devm_ioremap := g\<rparr>) = wire_up K" for g by (simp add: wire_up_def fun_eq_iff Let_def)
  show "fake_pata_platform_probe K page_offset pmask pdev s =
      pata_platform_probe (K\<lparr>devm_ioremap := (\<lambda>start n. start + page_offset)\<rparr>) pmask pdev s"
    using assms(1-3) f
    by (auto simp: fake_pata_platform_probe_def pata_platform_probe_def fake_probe_wire_up pata_probe_def Let_def wk
        obtain_obj_def split: option.splits prod.splits)
  fix r act s'
  assume p: "pata_platform_probe K pmask pdev s = (r, Some act, s')"
  then obtain io ctl where res: "get_resource pdev 0x200 0 = Some io" "get_resource pdev 0x200 1 = Some ctl"
    using assms(1-3) by (auto simp: pata_platform_probe_def Let_def split: option.splits)
  obtain irq fl where irq: "irq_of (get_resource pdev 0x400 0) = (irq, fl)" by fastforce
  let ?sh = "case platdata_shift pdev of Some n \<Rightarrow> n | None \<Rightarrow> 0"
  have w: "ask s \<noteq> 0" "s' = answered (Obtain ''ata_host_alloc'' (objs ''ata_host'' (ask s))) s"
    "wire_up K (ask s) (devm_ioremap K (r_start io) (resource_size io)) (devm_ioremap K (r_start ctl) (resource_size ctl)) irq fl ?sh pmask = (r, Some act)"
    using p assms(1-3) res f [OF res(1)] f [OF res(2)] irq
    by (auto simp: pata_platform_probe_def pata_probe_def obtain_obj_def Let_def split: if_splits prod.splits)
  show "\<exists>io_res ctl_res. get_resource pdev 0x200 0 = Some io_res \<and> get_resource pdev 0x200 1 = Some ctl_res \<and>
      (r_start io_res + page_offset \<noteq> 0 \<and> r_start ctl_res + page_offset \<noteq> 0 \<longrightarrow>
        (let act' = move_port (r_start io_res + page_offset - devm_ioremap K (r_start io_res) (resource_size io_res))
               (r_start ctl_res + page_offset - devm_ioremap K (r_start ctl_res) (resource_size ctl_res)) act
         in fake_pata_platform_probe K page_offset pmask pdev s = (ata_host_activate K act', Some act', s')))"
    using res irq w wire_up_moved [OF w(3)]
    by (auto simp: fake_pata_platform_probe_def fake_probe_wire_up obtain_obj_def Let_def)
qed

definition sample_kernel :: ata_kernel where
  "sample_kernel = \<lparr>devm_ioremap = (\<lambda>st n. st + 4096), devm_ioport_map = (\<lambda>st n. 0), ata_host_activate = (\<lambda>_. 0)\<rparr>"

definition sample_pdev :: platform_device where
  "sample_pdev = \<lparr>num_resources = 3, get_resource = (\<lambda>t i. if t = 0x200 \<and> i < 2
      then Some \<lparr>r_start = 8192 + int i * 4096, r_end = 8192 + int i * 4096 + 63, r_flags = 0x200\<rparr>
      else if t = 0x400 then Some \<lparr>r_start = 7, r_end = 7, r_flags = 0x401\<rparr> else None), platdata_shift = Some 2\<rparr>"

theorem pata_fake_equivalent_witness:
  "\<exists>act s'. pata_platform_probe sample_kernel 1 sample_pdev \<lparr>answers = (\<lambda>_. 9), ncalls = 0, klog = []\<rparr> = (0, Some act, s') \<and>
     fake_pata_platform_probe sample_kernel 8192 1 sample_pdev \<lparr>answers = (\<lambda>_. 9), ncalls = 0, klog = []\<rparr> =
       (0, Some (move_port 4096 4096 act), s')"
proof -
  have "\<exists>act s'. pata_platform_probe sample_kernel 1 sample_pdev \<lparr>answers = (\<lambda>_. 9), ncalls = 0, klog = []\<rparr> = (0, Some act, s')"
    by (simp add: pata_platform_probe_def pata_probe_def sample_pdev_def sample_kernel_def wire_up_cases irq_of_def obtain_obj_def
        ask_def Let_def)
  then obtain act s' where p:
    "pata_platform_probe sample_kernel 1 sample_pdev \<lparr>answers = (\<lambda>_. 9), ncalls = 0, klog = []\<rparr> = (0, Some act, s')" by blast
  from pata_fake_equivalent [of sample_pdev sample_kernel 8192 1 "\<lparr>answers = (\<lambda>_. 9), ncalls = 0, klog = []\<rparr>"] p
  show ?thesis by (auto simp: sample_pdev_def sample_kernel_def Let_def)
qed

end
