(* ===== verification/Plat_Skel.thy ===== *)
theory Plat_Skel
  imports Interfaces Pata
begin

text \<open>
  The platform bus examples: the driver skeleton \<open>platform/skel_drv.c\<close>, the two devices it may be bound to
  (\<open>skel_dev.c\<close> and \<open>plat_dev.c\<close>), the character driver \<open>key_char_platform.c\<close> that binds to the emulated disk,
  and the IDE driver \<open>ide_platform.c\<close>.

  Probing is loading in the sense of the contract \<open>partial_lifecycle\<close>: the state is the device and the
  driver data the bus keeps for it. A resource that the driver uses without a check and the device lacks
  is \<open>None\<close>.
\<close>

subsection \<open>Devices\<close>

text \<open>A device of the bus: its resources, its number, its driver data.\<close>

record pdevice =
  pd :: platform_device
  pd_id :: int
  pd_drvdata :: addr

text \<open>\<open>platform_get_resource\<close> on a table: the \<open>n\<close>-th entry of the type.\<close>

definition table_resource :: "resource list \<Rightarrow> int \<Rightarrow> nat \<Rightarrow> resource option" where
  "table_resource rs ty n = (let xs = filter (\<lambda>r. r_flags r = ty) rs in if n < length xs then Some (xs ! n) else None)"

definition my_resources :: "resource list" where
  "my_resources =
     [\<lparr>r_start = 0xfebff800, r_end = 0xfebff8ff, r_flags = IORESOURCE_MEM\<rparr>,
      \<lparr>r_start = 0xe400, r_end = 0xe4ff, r_flags = IORESOURCE_IO\<rparr>,
      \<lparr>r_start = 20, r_end = 20, r_flags = IORESOURCE_IRQ\<rparr>]"

definition skel_dev :: pdevice where
  "skel_dev = \<lparr>pd = \<lparr>num_resources = length my_resources, get_resource = table_resource my_resources,
     platdata_shift = None\<rparr>, pd_id = 1, pd_drvdata = 0\<rparr>"

definition plat_dev :: pdevice where
  "plat_dev = \<lparr>pd = \<lparr>num_resources = 0, get_resource = table_resource [], platdata_shift = None\<rparr>,
     pd_id = 1, pd_drvdata = 0\<rparr>"

definition dev_init :: "kworld \<Rightarrow> int \<times> kworld" where
  "dev_init s = obtain_if_ok ''platform_device_register'' ''platform_device'' 1 s"

definition dev_exit :: "kworld \<Rightarrow> kworld" where
  "dev_exit s = giveback_obj ''platform_device_unregister'' ''platform_device'' 1 s"

interpretation dev_mod: module_lifecycle "\<lambda>(g :: unit) s. case dev_init s of (r, s) \<Rightarrow> (r, g, s)" "\<lambda>_. dev_exit"
  "\<lambda>_. {#Obj ''platform_device'' 1#}"
  by unfold_locales (auto simp: dev_init_def dev_exit_def objs_def kernel_simps split: if_splits)

subsection \<open>The driver skeleton\<close>

record skel =
  phy_iomem :: int
  phy_ioport :: int
  skel_irq :: int

text \<open>A class device is named by its device number.\<close>

definition create_device :: "string \<Rightarrow> dev_t \<Rightarrow> kworld \<Rightarrow> addr \<times> kworld" where
  [kdefs]: "create_device f devno s =
     (ask s, answered (Obtain f (if IS_ERR (ask s) then [] else [Obj ''class_device'' (uint devno)])) s)"

definition destroy_device :: "string \<Rightarrow> dev_t \<Rightarrow> kworld \<Rightarrow> kworld" where
  [kdefs]: "destroy_device f devno s = call (Giveback f [Obj ''class_device'' (uint devno)]) s"

definition my_probe :: "pdevice \<Rightarrow> kworld \<Rightarrow> (int \<times> skel option \<times> pdevice \<times> kworld) option" where
  "my_probe pdev s =
     (let (dev, s) = kzalloc (Sizeof ''mydev'') s in
      if dev = 0 then Some (- ENOMEM, None, pdev, s)
      else do {
        mem \<leftarrow> get_resource (pd pdev) IORESOURCE_MEM 0;
        io \<leftarrow> get_resource (pd pdev) IORESOURCE_IO 0;
        irq \<leftarrow> get_resource (pd pdev) IORESOURCE_IRQ 0;
        let d = \<lparr>phy_iomem = r_start mem, phy_ioport = r_start io, skel_irq = r_start irq\<rparr>;
        let devno = MKDEV 50 (word_of_int (pd_id pdev));
        let (ret, s) = register_chrdev_region devno 1 s;
        if ret \<noteq> 0 then Some (- 1, Some d, pdev, kfree dev s)
        else do {
          let s = cdev_add dev devno 1 s;
          let (class_dev, s) = create_device ''class_device_create'' devno s;
          if IS_ERR class_dev then
            Some (class_dev, Some d, pdev, kfree dev (unregister_chrdev_region devno 1 (cdev_del dev s)))
          else Some (0, Some d, pdev\<lparr>pd_drvdata := dev\<rparr>, s)
        }
      })"

definition my_remove :: "pdevice \<Rightarrow> kworld \<Rightarrow> int \<times> pdevice \<times> kworld" where
  "my_remove pdev s =
     (let dev = pd_drvdata pdev; devno = MKDEV 50 (word_of_int (pd_id pdev));
          s = destroy_device ''class_device_destroy'' devno s;
          s = cdev_del dev s;
          s = unregister_chrdev_region devno 1 s;
          s = kfree dev s
      in (0, pdev\<lparr>pd_drvdata := 0\<rparr>, s))"

text \<open>The class is kept when the driver cannot be registered.\<close>

definition create_class :: "kworld \<Rightarrow> addr \<times> kworld" where
  [kdefs]: "create_class s = (ask s, answered (Obtain ''class_create'' (if IS_ERR (ask s) then [] else [Obj ''class'' (ask s)])) s)"

definition drv_init :: "kworld \<Rightarrow> int \<times> addr \<times> kworld" where
  "drv_init s =
     (let (my_class, s) = create_class s in
      if IS_ERR my_class then (my_class, my_class, s)
      else let (ret, s) = obtain_if_ok ''platform_driver_register'' ''platform_driver'' 1 s in (ret, my_class, s))"

definition drv_exit :: "addr \<Rightarrow> kworld \<Rightarrow> kworld" where
  "drv_exit my_class s =
     call (Giveback ''class_destroy'' [Obj ''class'' my_class])
       (giveback_obj ''platform_driver_unregister'' ''platform_driver'' 1 s)"

subsection \<open>What the skeleton holds\<close>

definition skel_owns :: "pdevice \<Rightarrow> res multiset" where
  "skel_owns pdev = (let devno = MKDEV 50 (word_of_int (pd_id pdev)) in
     {#Mem (pd_drvdata pdev), Region devno 1, Cdev (pd_drvdata pdev), Obj ''class_device'' (uint devno)#})"

lemma my_probe_resources:
  assumes "my_probe pdev s = Some (r, d, pdev', s')" "resources s = Some H"
  shows "r \<noteq> 0 \<Longrightarrow> resources s' = Some H \<and> pdev' = pdev"
    and "r = 0 \<Longrightarrow> pd_drvdata pdev' \<noteq> 0 \<and> resources s' = Some (H + skel_owns pdev')"
  using assms
  by (auto simp: my_probe_def skel_owns_def kdefs ksimps mem_res_def IS_ERR_def Let_def
      split: if_splits Option.bind_splits)

text \<open>Binding and unbinding, again and again, is balanced whatever fails in between.\<close>

interpretation skel_bus: partial_lifecycle "\<lambda>pdev s. map_option (\<lambda>(r, d, pdev, s). (r, pdev, s)) (my_probe pdev s)"
  "\<lambda>pdev s. Some (snd (snd (my_remove pdev s)))" skel_owns "\<lambda>pdev. pd_drvdata pdev \<noteq> 0"
proof (unfold_locales, goal_cases)
  case (1 s H g r g' s')
  then show ?case using my_probe_resources(1) [of g s] by auto
next
  case (2 s H g r g' s')
  then obtain d where "my_probe g s = Some (r, d, g', s')" by auto
  from my_probe_resources(2) [OF this 2(1,3)] show ?case .
next
  case (3 g s H)
  then show ?case
    by (auto simp: my_remove_def skel_owns_def kdefs ksimps mem_res_def Let_def)
qed

text \<open>
  The probe returns exactly for devices that have all three resources, and stores where they are. So it
  finds the addresses of the table of \<open>skel_dev.c\<close>, and dereferences \<open>NULL\<close> on the device of \<open>plat_dev.c\<close>, which
  has the same name and no resources.
\<close>

lemma my_probe_defined:
  "my_probe pdev s \<noteq> None \<longleftrightarrow> ask s = 0 \<or>
     (\<forall>ty \<in> {IORESOURCE_MEM, IORESOURCE_IO, IORESOURCE_IRQ}. get_resource (pd pdev) ty 0 \<noteq> None)"
  by (auto simp: my_probe_def kzalloc_def Let_def split: Option.bind_splits prod.splits if_splits)

lemma skel_binds_skel_dev:
  assumes "my_probe skel_dev s = Some (r, d, pdev', s')"
  shows "d = None \<and> r = - ENOMEM \<or> d = Some \<lparr>phy_iomem = 0xfebff800, phy_ioport = 0xe400, skel_irq = 20\<rparr>"
  using assms
  by (auto simp: my_probe_def skel_dev_def my_resources_def table_resource_def Let_def split: if_splits prod.splits)

lemma skel_crashes_on_plat_dev: "ask s \<noteq> 0 \<Longrightarrow> my_probe plat_dev s = None"
  by (simp add: my_probe_def plat_dev_def table_resource_def kzalloc_def)

lemma drv_init_resources:
  assumes "drv_init s = (r, c, s')" "resources s = Some H"
  shows "resources s' = Some (H + (if IS_ERR c then {#} else {#Obj ''class'' c#}) +
      (if r = 0 then {#Obj ''platform_driver'' 1#} else {#}))"
    and "r = 0 \<Longrightarrow> resources (drv_exit c s') = Some H"
  using assms
  by (auto simp: drv_init_def drv_exit_def kdefs ksimps objs_def IS_ERR_def Let_def split: if_splits)

end
