(* ===== verification/Plat_Key.thy ===== *)
theory Plat_Key
  imports Plat_Skel
begin

text \<open>
  The character driver \<open>platform/key_char_platform.c\<close>: it binds to the platform device of the emulated disk
  and lets a user write the first byte of its register window. The window is reached through a global
  pointer; the field of the structure that the removal unmaps is never set. Its module functions are
  those of the driver skeleton.
\<close>

record kcdev =
  kc_irq :: int
  kc_ioaddr :: addr

text \<open>
  The device, the structure, the global \<open>ioaddr\<close>, and whether the kernel made the class device, a result the
  driver does not look at (\<open>device_destroy\<close> does nothing for a device that does not exist).
\<close>

record kcstate =
  kc_pdev :: pdevice
  kc_dev :: kcdev
  g_ioaddr :: addr
  kc_node :: bool

text \<open>
  The result has the byte that was stored through \<open>ioaddr\<close>, if any. Copying to a \<open>NULL\<close> buffer is \<open>None\<close>.
\<close>

definition my_write :: "addr \<Rightarrow> (nat \<Rightarrow> byte) \<Rightarrow> nat \<Rightarrow> kworld \<Rightarrow> (int \<times> (addr \<times> byte) option \<times> kworld) option" where
  "my_write win ubuf cnt s =
     (let (temp, s) = kzalloc (Bytes (size_t (int cnt + 1))) s in
      if temp = 0 \<and> 0 < cnt then None
      else
        let (res, data, s) = copy_from_user ubuf cnt s;
            poked = (if win \<noteq> 0 then Some (win, ubuf 0) else None)
        in Some (int cnt, poked, kfree temp s))"

definition my_read :: "nat \<Rightarrow> int" where
  "my_read cnt = int cnt"

definition key_probe :: "addr \<Rightarrow> kcstate \<Rightarrow> kworld \<Rightarrow> (int \<times> kcstate \<times> kworld) option" where
  "key_probe page_offset st s =
     (let (dev, s) = kzalloc (Sizeof ''mydev'') s in
      if dev = 0 then Some (- ENOMEM, st, s)
      else do {
        let pdev = (kc_pdev st)\<lparr>pd_drvdata := dev\<rparr>;
        irq \<leftarrow> get_resource (pd pdev) IORESOURCE_IRQ 0;
        mem \<leftarrow> get_resource (pd pdev) IORESOURCE_MEM 0;
        let devno = MKDEV 80 (word_of_int (pd_id pdev));
        let s = cdev_add dev devno 1 s;
        let (node, s) = create_device ''device_create'' devno s;
        Some (0, \<lparr>kc_pdev = pdev, kc_dev = \<lparr>kc_irq = r_start irq, kc_ioaddr = 0\<rparr>,
          g_ioaddr = r_start mem + page_offset, kc_node = (\<not> IS_ERR node)\<rparr>, s)
      })"

definition key_remove :: "kcstate \<Rightarrow> kworld \<Rightarrow> kworld" where
  "key_remove st s =
     (let dev = pd_drvdata (kc_pdev st); devno = MKDEV 80 (word_of_int (pd_id (kc_pdev st)));
          s = (if kc_node st then destroy_device ''device_destroy'' devno s else s);
          s = cdev_del dev s;
          s = giveback_obj ''iounmap'' ''iomap'' (kc_ioaddr (kc_dev st)) s
      in kfree dev s)"

subsection \<open>What is held\<close>

definition kc_owns :: "kcstate \<Rightarrow> res multiset" where
  "kc_owns st = {#Mem (pd_drvdata (kc_pdev st)), Cdev (pd_drvdata (kc_pdev st))#} +
     (if kc_node st then {#Obj ''class_device'' (uint (MKDEV 80 (word_of_int (pd_id (kc_pdev st)))))#} else {#})"

definition kc_ready :: "kcstate \<Rightarrow> bool" where
  "kc_ready st \<longleftrightarrow> pd_drvdata (kc_pdev st) \<noteq> 0 \<and> kc_ioaddr (kc_dev st) = 0"

text \<open>
  Binding and unbinding is balanced. The removal unmaps \<open>NULL\<close>, which is harmless because the driver did
  not map anything; it leaves the global pointer.
\<close>

interpretation key_bus: partial_lifecycle "key_probe page_offset" "\<lambda>st s. Some (key_remove st s)" kc_owns kc_ready
  for page_offset
proof (unfold_locales, goal_cases)
  case (1 s H g r g' s')
  then show ?case
    by (auto simp: key_probe_def kdefs ksimps mem_res_def Let_def split: if_splits Option.bind_splits)
next
  case (2 s H g r g' s')
  then show ?case
    by (auto simp: key_probe_def kc_owns_def kc_ready_def kdefs ksimps mem_res_def Let_def
        split: if_splits Option.bind_splits)
next
  case (3 g s H)
  then show ?case
    by (auto simp: key_remove_def kc_owns_def kc_ready_def kdefs ksimps mem_res_def Let_def)
qed

text \<open>
  A write reports all bytes as written whatever was copied, stores the first one into the window, and keeps
  no memory; it does so for an empty write too, whose buffer has no first byte.
\<close>

lemma my_write_result:
  assumes "my_write win ubuf cnt s = Some (r, poked, s')"
  shows "r = int cnt" "poked = (if win = 0 then None else Some (win, ubuf 0))" "resources s' = resources s"
proof -
  show "r = int cnt" "poked = (if win = 0 then None else Some (win, ubuf 0))"
    using assms by (auto simp: my_write_def Let_def split: if_splits prod.splits)
  show "resources s' = resources s"
    using assms by (cases "resources s")
      (auto simp: my_write_def kernel_simps mem_res_def Let_def split: if_splits prod.splits)
qed

text \<open>After a probe the writes of a process reach the start of the device's memory resource.\<close>

lemma probe_then_write:
  assumes "key_probe page_offset st s = Some (0, st', s')" "my_write (g_ioaddr st') ubuf cnt s1 = Some (r, poked, s2)"
    "get_resource (pd (kc_pdev st)) 0x200 0 = Some mem" "r_start mem + page_offset \<noteq> 0"
  shows "poked = Some (r_start mem + page_offset, ubuf 0)"
  using assms my_write_result(2) [OF assms(2)]
  by (auto simp: key_probe_def Let_def split: if_splits prod.splits Option.bind_splits)

end
