(* ===== verification/Disk_Host.thy ===== *)
theory Disk_Host
  imports Fake_Pata Plat_Key
begin

text \<open>
  The emulated disk seen from its host. \<open>platform/fake_pata.c\<close> describes the disk by a platform device with two
  windows in memory that the kernel does not use, and its thread watches the first 32 bytes of each;
  \<open>fake_pata_driver.c\<close> and \<open>key_char_platform.c\<close> bind to that device and reach the same bytes through the
  direct map. Here the drivers and the disk are put together: the addresses a probe computes decode to
  the registers the thread looks at.
\<close>

subsection \<open>The device\<close>

abbreviation (input) MiB :: int where "MiB \<equiv> 1024 * 1024"
abbreviation (input) PATA_INT :: int where "PATA_INT \<equiv> 2"

definition fake_pata_res :: "resource list" where
  "fake_pata_res =
     [\<lparr>r_start = (768 + 1) * MiB, r_end = (768 + 2) * MiB, r_flags = IORESOURCE_MEM\<rparr>,
      \<lparr>r_start = (768 + 3) * MiB, r_end = (768 + 4) * MiB, r_flags = IORESOURCE_MEM\<rparr>,
      \<lparr>r_start = PATA_INT, r_end = PATA_INT, r_flags = IORESOURCE_IRQ\<rparr>]"

definition fake_pata_platform_data :: nat where
  "fake_pata_platform_data = 0"  \<comment> \<open>\<open>ioport_shift\<close>\<close>

definition fake_pata_device :: pdevice where
  "fake_pata_device =
     \<lparr>pd = \<lparr>num_resources = length fake_pata_res, get_resource = table_resource fake_pata_res,
        platdata_shift = Some fake_pata_platform_data\<rparr>, pd_id = -1, pd_drvdata = 0\<rparr>"

subsection \<open>Addresses\<close>

text \<open>
  A byte access of the host: the windows start at the two memory resources, and \<open>page_offset\<close> is where the
  direct map puts physical address zero. An access outside of the bytes that the thread watches has no
  effect on the disk.
\<close>

definition reaches :: "addr \<Rightarrow> nat \<Rightarrow> addr \<Rightarrow> nat option" where
  "reaches page_offset w a = (let i = a - page_offset - r_start (fake_pata_res ! w) in
     if 0 \<le> i \<and> i < int RES_MEM_LENGTH then Some (nat i) else None)"

definition host_write :: "addr \<Rightarrow> addr \<times> byte \<Rightarrow> fake \<Rightarrow> fake" where
  "host_write page_offset = (\<lambda>(a, v) f.
     (case reaches page_offset 0 a of Some i \<Rightarrow> host_store (Io i v) f
      | None \<Rightarrow> (case reaches page_offset 1 a of Some i \<Rightarrow> host_store (Ctl i v) f | None \<Rightarrow> f)))"

definition host_read :: "addr \<Rightarrow> addr \<Rightarrow> fake \<Rightarrow> byte option" where
  "host_read page_offset a f =
     (case reaches page_offset 0 a of Some i \<Rightarrow> Some (va f ! i)
      | None \<Rightarrow> (case reaches page_offset 1 a of Some i \<Rightarrow> Some (va_ctl f ! i) | None \<Rightarrow> None))"

definition host_writes :: "addr \<Rightarrow> (addr \<times> byte) list \<Rightarrow> fake \<Rightarrow> fake" where
  "host_writes page_offset ws f = fold (host_write page_offset) ws f"

lemma reaches_io: "i < 32 \<Longrightarrow> reaches page_offset 0 (page_offset + 769 * 1048576 + int i) = Some i"
  by (simp add: reaches_def fake_pata_res_def)

lemma reaches_ctl:
  "i < 32 \<Longrightarrow> reaches page_offset 0 (page_offset + 771 * 1048576 + int i) = None"
  "i < 32 \<Longrightarrow> reaches page_offset 1 (page_offset + 771 * 1048576 + int i) = Some i"
  by (simp_all add: reaches_def fake_pata_res_def)

subsection \<open>Binding\<close>

lemma fake_device_resources:
  "get_resource (pd fake_pata_device) 0x200 0 = Some \<lparr>r_start = 769 * 1048576, r_end = 770 * 1048576, r_flags = 0x200\<rparr>"
  "get_resource (pd fake_pata_device) 0x200 1 = Some \<lparr>r_start = 771 * 1048576, r_end = 772 * 1048576, r_flags = 0x200\<rparr>"
  "get_resource (pd fake_pata_device) 0x400 0 = Some \<lparr>r_start = 2, r_end = 2, r_flags = 0x400\<rparr>"
  "platdata_shift (pd fake_pata_device) = Some 0"
  by (simp_all add: fake_pata_device_def table_resource_def fake_pata_res_def fake_pata_platform_data_def)

text \<open>The ports of a probe that activates the host are the registers of the disk, in the disk's order.\<close>

lemma probe_ports:
  assumes "fake_pata_platform_probe K page_offset pmask (pd fake_pata_device) s = (r, Some act, s')"
  shows "registers (ioaddr (a_port act)) = map (\<lambda>i. page_offset + 769 * 1048576 + int i) [0..<8]"
    "command_addr (ioaddr (a_port act)) = page_offset + 769 * 1048576 + int 7"
    "ctl_addr (ioaddr (a_port act)) = page_offset + 771 * 1048576 + int 0"
    "a_irq act = 2"
proof -
  let ?io = "769 * 1048576 + page_offset" and ?ctl = "771 * 1048576 + page_offset"
  have "wire_up K (ask s) ?io ?ctl 2 0 0 pmask = (r, Some act)"
    using assms by (auto simp: fake_pata_platform_probe_def fake_device_resources [simplified] fake_probe_wire_up irq_of_def Let_def
        obtain_obj_def split: if_splits prod.splits)
  then have act: "ioaddr (a_port act) =
      pata_platform_setup_port (no_ports\<lparr>cmd_addr := ?io, ctl_addr := ?ctl, altstatus_addr := ?ctl\<rparr>) 0" "a_irq act = 2"
    by (auto simp: wire_up_cases Let_def split: if_splits)
  show "registers (ioaddr (a_port act)) = map (\<lambda>i. page_offset + 769 * 1048576 + int i) [0..<8]"
    by (simp only: act setup_port_registers(1)) simp
  show "command_addr (ioaddr (a_port act)) = page_offset + 769 * 1048576 + int 7"
    "ctl_addr (ioaddr (a_port act)) = page_offset + 771 * 1048576 + int 0" "a_irq act = 2"
    by (simp_all add: act pata_platform_setup_port_def)
qed

subsection \<open>Writing the registers\<close>

lemma host_write_io: "i < 32 \<Longrightarrow> host_write page_offset (page_offset + 769 * 1048576 + int i, v) f = host_store (Io i v) f"
  by (simp only: host_write_def prod.case reaches_io option.case)

lemma host_write_ctl: "i < 32 \<Longrightarrow> host_write page_offset (page_offset + 771 * 1048576 + int i, v) f = host_store (Ctl i v) f"
  by (simp only: host_write_def prod.case reaches_ctl option.case)

lemma host_read_io: "i < 32 \<Longrightarrow> host_read page_offset (page_offset + 769 * 1048576 + int i) f = Some (va f ! i)"
  by (simp only: host_read_def reaches_io option.case)

text \<open>The thread has caught up with the host, and no identify command stands in the command register.\<close>

definition disk_idle :: "fake \<Rightarrow> bool" where
  "disk_idle f \<longleftrightarrow> fake_wf f \<and> va_l f = va f \<and> va_ctl_l f = va_ctl f \<and> va f ! 7 \<noteq> 0xEC"

text \<open>Stores to the task file registers change nothing else.\<close>

definition task_file_only :: "fake \<Rightarrow> fake \<Rightarrow> bool" where
  "task_file_only f g \<longleftrightarrow> va_l g = va_l f \<and> va_ctl g = va_ctl f \<and> va_ctl_l g = va_ctl_l f \<and> length (va g) = length (va f) \<and>
     (\<forall>i\<in>{8..<32}. va g ! i = va f ! i)"

lemma task_file_stores:
  assumes "set (map fst ws) \<subseteq> set (map (\<lambda>i. page_offset + 769 * 1048576 + int i) [0..<8])"
  shows "task_file_only f (host_writes page_offset ws f)"
  using assms
proof (induction ws arbitrary: f)
  case (Cons w ws)
  then obtain i v where w: "w = (page_offset + 769 * 1048576 + int i, v)" "i < 8" by (cases w) auto
  have hd: "task_file_only f (host_write page_offset w f)"
    using w(2) by (simp add: w(1) host_write_io [simplified] task_file_only_def)
  have "task_file_only (host_write page_offset w f) (host_writes page_offset ws (host_write page_offset w f))"
    using Cons by (intro Cons.IH) simp
  with hd show ?case by (simp add: host_writes_def task_file_only_def)
qed (simp add: host_writes_def task_file_only_def)

lemma identify_sent:
  assumes "disk_idle f" "set (map fst ws) \<subseteq> set (map (\<lambda>i. page_offset + 769 * 1048576 + int i) [0..<8])"
  shows "identify_written (host_writes page_offset (ws @ [(page_offset + 769 * 1048576 + int 7, 0xEC)]) f)"
proof -
  let ?g = "host_writes page_offset ws f"
  have g: "task_file_only f ?g" by (rule task_file_stores [OF assms(2)])
  have "host_writes page_offset (ws @ [(page_offset + 769 * 1048576 + int 7, 0xEC)]) f = host_store (Io 7 0xEC) ?g"
    using host_write_io [of 7] by (simp add: host_writes_def)
  with g assms(1) show ?thesis
    by (auto simp: identify_written_def disk_idle_def fake_wf_def task_file_only_def)
qed

subsection \<open>A byte from a process\<close>

text \<open>
  A write to the character device of \<open>key_char_platform.c\<close> stores its first byte into the data register. If
  that changes the register, the thread takes it for a command of the host and stops answering.
\<close>

definition key_write :: "addr \<Rightarrow> kcstate \<Rightarrow> (nat \<Rightarrow> byte) \<Rightarrow> nat \<Rightarrow> fake \<times> kworld \<Rightarrow> (int \<times> fake \<times> kworld) option" where
  "key_write page_offset st ubuf cnt = (\<lambda>(f, s). do {
     (r, poked, s) \<leftarrow> my_write (g_ioaddr st) ubuf cnt s;
     Some (r, (case poked of Some w \<Rightarrow> host_write page_offset w f | None \<Rightarrow> f), s)
   })"

lemma key_write_stores:
  assumes "key_probe page_offset \<lparr>kc_pdev = fake_pata_device, kc_dev = d, g_ioaddr = a, kc_node = n\<rparr> s = Some (0, st, s1)"
    "0 \<le> page_offset" "key_write page_offset st ubuf cnt (f, s2) = Some (r, g, s3)"
  shows "g = host_store (Io 0 (ubuf 0)) f \<and> r = int cnt"
proof -
  obtain poked where w: "my_write (g_ioaddr st) ubuf cnt s2 = Some (r, poked, s3)"
    "g = (case poked of Some w \<Rightarrow> host_write page_offset w f | None \<Rightarrow> f)"
    using assms(3) by (auto simp: key_write_def split: Option.bind_splits)
  have "poked = Some (r_start \<lparr>r_start = 769 * 1048576, r_end = 770 * 1048576, r_flags = 0x200\<rparr> + page_offset, ubuf 0)"
    using assms(2) fake_device_resources(1) by (intro probe_then_write [OF assms(1) w(1)]) simp_all
  then show ?thesis
    using host_write_io [of 0 page_offset "ubuf 0" f] my_write_result(1) [OF w(1)] by (simp add: w(2) add.commute)
qed

text \<open>A changed register other than the command register ends the answering.\<close>

lemma scan_io_keeps_off: "\<not> enable_read f \<Longrightarrow> va f ! 7 \<noteq> 0xEC \<Longrightarrow> scan_io is f = Some (rs, g) \<Longrightarrow> \<not> enable_read g"
proof (induction "is" arbitrary: f rs)
  case (Cons i "is")
  show ?case
  proof (cases "va_l f ! i = va f ! i")
    case False
    then obtain r h ss where h: "io_changed i f = Some (r, h)" "scan_io is h = Some (ss, g)"
      using Cons.prems(3) by (auto split: Option.bind_splits)
    then have "\<not> enable_read h \<and> va h = va f"
      using Cons.prems(2) by (auto simp: io_changed_def Let_def split: if_splits Option.bind_splits)
    with Cons.IH [OF _ _ h(2)] Cons.prems(2) show ?thesis by simp
  qed (use Cons in auto)
qed simp

lemma data_change_stops:
  assumes "fake_wf f" "va_l f ! 0 \<noteq> va f ! 0" "va f ! 7 \<noteq> 0xEC" "compare_io f = Some (rs, g)"
  shows "\<not> enable_read g \<and> va g ! 7 = 0x40"
proof -
  obtain ss h where h: "scan_io [0..<32] f = Some (ss, h)" "va h = va f"
    using scan_io_defined [of "[0..<32]" f] by auto
  have "[0..<32] = 0 # [1..<32 :: nat]" by (simp add: upt_rec)
  with h(1) assms(2) obtain r f1 ts where f1: "io_changed 0 f = Some (r, f1)" "scan_io [1..<32] f1 = Some (ts, h)"
    by (auto split: Option.bind_splits)
  have "\<not> enable_read f1 \<and> va f1 = va f"
    using f1(1) by (auto simp: io_changed_def Let_def split: Option.bind_splits)
  then have "\<not> enable_read h" using scan_io_keeps_off [OF _ _ f1(2)] assms(3) by simp
  moreover have "va_l f \<noteq> va f" using assms(2) by auto
  ultimately show ?thesis
    using assms(1,4) h by (auto simp: compare_io_def refresh_status_def fake_wf_def Let_def)
qed

subsection \<open>Properties\<close>


definition idle_disk :: fake where
  "idle_disk = \<lparr>va = replicate 32 0, va_l = replicate 32 0, va_ctl = replicate 32 0, va_ctl_l = replicate 32 0,
     start_offset = 0, enable_read = False\<rparr>"

definition sample_world :: kworld where
  "sample_world = \<lparr>answers = (\<lambda>_. 9), ncalls = 0, klog = []\<rparr>"

definition device_register :: "activation \<Rightarrow> addr" where
  "device_register act = device_addr (ioaddr (a_port act))"


text \<open>
  C28: A process can stop the disk. While the disk answers an identify command, a write to the character device
  of the key driver, bound to the same platform device, whose first byte differs from the data register,
  ends the answer: the next pass leaves the status at ready without data, whatever the length of the write,
  and even an empty write stores a byte.
\<close>

theorem key_write_stops_answer:
  assumes "key_probe page_offset \<lparr>kc_pdev = fake_pata_device, kc_dev = d, g_ioaddr = a, kc_node = n\<rparr> s = Some (0, st, s1)"
    and "0 \<le> page_offset" "fake_wf f" "answered_id k f" "ubuf 0 \<noteq> va f ! 0"
    and "key_write page_offset st ubuf cnt (f, s2) = Some (r, g, s3)"
  shows "\<exists>io h. thread_pass g = Some (io, [], h) \<and> \<not> enable_read h \<and> va h ! 7 = 0x40 \<and> r = int cnt"
proof -
  have g: "g = host_store (Io 0 (ubuf 0)) f" "r = int cnt" using key_write_stores [OF assms(1,2,6)] by simp_all
  have f: "va_l f = va f" "va f ! 7 = 8" "va_ctl_l f = va_ctl f" using assms(4) by (auto simp: answered_id_def)
  have wf: "fake_wf g" "va_l g ! 0 \<noteq> va g ! 0" "va g ! 7 \<noteq> 0xEC" "va_ctl_l g = va_ctl g"
    using assms(3,5) f by (auto simp: g fake_wf_def)
  obtain rs h where h: "compare_io g = Some (rs, h)" "va_ctl h = va_ctl g" "va_ctl_l h = va_ctl_l g"
    using compare_io_defined [of g] by auto
  have "compare_ctl h = Some ([], h)" using h wf(4) by (simp add: compare_ctl_same)
  then show ?thesis
    using data_change_stops [OF wf(1-3) h(1)] h(1) g(2) by (simp add: thread_pass_def)
qed

definition answering_disk :: fake where
  "answering_disk = \<lparr>va = (replicate 32 0)[0 := 70, 1 := 65, 2 := 75, 3 := 69, 7 := 8],
     va_l = (replicate 32 0)[0 := 70, 1 := 65, 2 := 75, 3 := 69, 7 := 8],
     va_ctl = replicate 32 0, va_ctl_l = replicate 32 0, start_offset = 5, enable_read = True\<rparr>"

theorem key_write_stops_answer_witness:
  "\<exists>st s1 r g s3 io h. key_probe 0xC0000000 \<lparr>kc_pdev = fake_pata_device, kc_dev = \<lparr>kc_irq = 0, kc_ioaddr = 0\<rparr>, g_ioaddr = 0,
       kc_node = False\<rparr> sample_world = Some (0, st, s1) \<and>
     key_write 0xC0000000 st (\<lambda>_. 1) 0 (answering_disk, s1) = Some (r, g, s3) \<and>
     thread_pass g = Some (io, [], h) \<and> \<not> enable_read h"
proof -
  let ?k = "\<lparr>kc_pdev = fake_pata_device, kc_dev = \<lparr>kc_irq = 0, kc_ioaddr = 0\<rparr>, g_ioaddr = 0, kc_node = False\<rparr>"
  have "\<exists>st s1. key_probe 0xC0000000 ?k sample_world = Some (0, st, s1)"
    by (auto simp: key_probe_def kdefs ask_def fake_device_resources sample_world_def Let_def)
  then obtain st s1 where pr: "key_probe 0xC0000000 ?k sample_world = Some (0, st, s1)" by blast
  have "\<exists>r g s3. key_write 0xC0000000 st (\<lambda>_. 1) 0 (answering_disk, s1) = Some (r, g, s3)"
    by (simp add: key_write_def my_write_def Let_def split: prod.splits)
  then obtain r g s3 where wr: "key_write 0xC0000000 st (\<lambda>_. 1) 0 (answering_disk, s1) = Some (r, g, s3)" by blast
  have "fake_wf answering_disk"
    by (simp add: fake_wf_def answering_disk_def length_Identify)
  moreover have "answered_id 1 answering_disk"
    by (simp add: answered_id_def answering_disk_def Identify_Drive_Information_def chars_def upt_rec numeral_eq_Suc of_char_def)
  ultimately show ?thesis
    using key_write_stops_answer [OF pr _ _ _ _ wr, of 1] pr wr by (auto simp: answering_disk_def)
qed

text \<open>
  A software reset through the device control port, with interrupts not disabled, makes the thread write past its
  text buffer in the next pass.
\<close>

lemma disk_reset_overflows:
  assumes "fake_pata_platform_probe K page_offset pmask (pd fake_pata_device) s = (r, Some act, s')"
    and "disk_idle f" "bit v 2" "\<not> bit v 1" "v \<noteq> va_ctl f ! 0"
  shows "thread_pass (host_write page_offset (ctl_addr (ioaddr (a_port act)), v) f) = None"
proof -
  let ?g = "host_store (Ctl 0 v) f"
  have g: "host_write page_offset (ctl_addr (ioaddr (a_port act)), v) f = ?g"
    by (simp only: probe_ports(3) [OF assms(1)] host_write_ctl)
  obtain io h where h: "compare_io ?g = Some (io, h)" "va_ctl h = va_ctl ?g" "va_ctl_l h = va_ctl_l ?g"
    using compare_io_defined [of ?g] by auto
  have "va_ctl h ! 0 = v" "va_ctl_l h ! 0 \<noteq> v"
    using assms(2,5) by (auto simp: h disk_idle_def fake_wf_def update_first)
  then have "scan_ctl [0..<32] h = None" using assms(3,4) by (simp add: scan_ctl_None overflows_def)
  moreover have "va_ctl_l h \<noteq> va_ctl h" using \<open>va_ctl h ! 0 = v\<close> \<open>va_ctl_l h ! 0 \<noteq> v\<close> by auto
  ultimately show ?thesis unfolding g using h(1) by (simp add: thread_pass_def compare_ctl_def)
qed

end
