(* ===== verification/Disk_Race.thy ===== *)
theory Disk_Race
  imports Fake_Pata
begin

text \<open>
  The emulated disk without the assumption that the host waits. Nothing in \<open>platform/fake_pata.c\<close> keeps the
  host from storing into the windows while the thread is in the middle of a pass. Here the thread of
  \<open>thread_function\<close> stops at five points, and between any two of them the host may store anything: before it compares and reads the
  registers, before it answers, before it copies the window, and the same for the control
  registers.
\<close>

subsection \<open>Steps\<close>

datatype point = Scan | Answer | Copy | CtlScan | CtlCopy

definition scan_part :: "fake \<Rightarrow> (report list \<times> fake) option" where
  "scan_part f = (if va_l f \<noteq> va f then scan_io [0..<RES_MEM_LENGTH] f else Some ([], f))"

definition answer_part :: "fake \<Rightarrow> fake" where
  "answer_part f = (if enable_read f then read_things f else refresh_status f)"

definition ctl_part :: "fake \<Rightarrow> report list option" where
  "ctl_part f = (if va_ctl_l f \<noteq> va_ctl f then scan_ctl [0..<RES_MEM_LENGTH] f else Some [])"

inductive thread_step :: "point \<times> fake \<Rightarrow> point \<times> fake \<Rightarrow> bool" where
  scan: "scan_part f = Some (rs, g) \<Longrightarrow> thread_step (Scan, f) (Answer, g)"
| answer: "thread_step (Answer, f) (Copy, answer_part f)"
| copy: "thread_step (Copy, f) (CtlScan, f\<lparr>va_l := va f\<rparr>)"
| ctl_scan: "ctl_part f = Some rs \<Longrightarrow> thread_step (CtlScan, f) (CtlCopy, f)"
| ctl_copy: "thread_step (CtlCopy, f) (Scan, f\<lparr>va_ctl_l := va_ctl f\<rparr>)"

inductive disk_step :: "point \<times> fake \<Rightarrow> point \<times> fake \<Rightarrow> bool" where
  thread: "thread_step x y \<Longrightarrow> disk_step x y"
| host: "disk_step (p, f) (p, host_store w f)"

inductive_cases thread_stepE: "thread_step (p, f) y"
inductive_cases disk_stepE: "disk_step x y"

inductive_simps thread_step_simps:
  "thread_step (Scan, f) y"
  "thread_step (Answer, f) y"
  "thread_step (Copy, f) y"
  "thread_step (CtlScan, f) y"
  "thread_step (CtlCopy, f) y"

subsection \<open>Passes\<close>

text \<open>A pass of the thread alone is five of its steps.\<close>

lemma compare_io_parts:
  "compare_io f = do { (rs, f) \<leftarrow> scan_part f; let f = answer_part f in Some (rs, f\<lparr>va_l := va f\<rparr>) }"
  by (simp add: compare_io_def scan_part_def answer_part_def Let_def)

lemma compare_ctl_parts:
  "compare_ctl f = do { rs \<leftarrow> ctl_part f; Some (rs, f\<lparr>va_ctl_l := va_ctl f\<rparr>) }"
  by (simp add: compare_ctl_def ctl_part_def)

lemma pass_is_five_steps:
  assumes "thread_pass f = Some (io, ctl, g)"
  shows "(thread_step ^^ 5) (Scan, f) (Scan, g)"
proof -
  obtain f1 where f1: "scan_part f = Some (io, f1)"
    "compare_io f = Some (io, (answer_part f1)\<lparr>va_l := va (answer_part f1)\<rparr>)"
    using assms by (auto simp: thread_pass_def compare_io_parts Let_def split: Option.bind_splits)
  let ?f3 = "(answer_part f1)\<lparr>va_l := va (answer_part f1)\<rparr>"
  have f3: "ctl_part ?f3 = Some ctl" "g = ?f3\<lparr>va_ctl_l := va_ctl ?f3\<rparr>"
    using assms by (auto simp: thread_pass_def f1(2) compare_ctl_parts split: Option.bind_splits)
  have "thread_step (Scan, f) (Answer, f1)" "thread_step (Answer, f1) (Copy, answer_part f1)"
    "thread_step (Copy, answer_part f1) (CtlScan, ?f3)" "thread_step (CtlScan, ?f3) (CtlCopy, ?f3)"
    "thread_step (CtlCopy, ?f3) (Scan, g)"
    using f1(1) f3 by (auto simp: thread_step_simps)
  then show ?thesis by (simp add: numeral_eq_Suc relcompp.simps) blast
qed

subsection \<open>Safety under any interleaving\<close>

lemma host_store_wf: "fake_wf f \<Longrightarrow> fake_wf (host_store w f)"
  by (cases w) (auto simp: fake_wf_def)

lemma answer_part_wf: "fake_wf f \<Longrightarrow> fake_wf (answer_part f)"
  using answer_wf by (simp add: answer_part_def)

lemma thread_step_wf: "thread_step (p, f) (q, g) \<Longrightarrow> fake_wf f \<Longrightarrow> fake_wf g"
  by (erule thread_stepE)
    (auto simp: scan_part_def answer_part_wf dest: scan_io_wf split: if_splits, auto simp: fake_wf_def)

lemma disk_step_wf: "disk_step (p, f) (q, g) \<Longrightarrow> fake_wf f \<Longrightarrow> fake_wf g"
  by (erule disk_stepE) (auto intro: thread_step_wf host_store_wf)

lemma disk_steps_wf: "disk_step\<^sup>*\<^sup>* (p, f) (q, g) \<Longrightarrow> fake_wf f \<Longrightarrow> fake_wf g"
  by (induction rule: rtranclp_induct2) (auto intro: disk_step_wf)

lemma scan_part_defined: "\<exists>rs g. scan_part f = Some (rs, g)"
  using scan_io_defined [of "[0..<32]" f] by (auto simp: scan_part_def)

lemma ctl_part_None: "ctl_part f = None \<longleftrightarrow> va_ctl_l f ! 0 \<noteq> va_ctl f ! 0 \<and> overflows (va_ctl f ! 0)"
  by (auto simp: ctl_part_def scan_ctl_None)

text \<open>The thread stops only where it would print the text that does not fit.\<close>

lemma thread_stuck:
  "(\<exists>y. thread_step (p, f) y) \<longleftrightarrow> \<not> (p = CtlScan \<and> va_ctl_l f ! 0 \<noteq> va_ctl f ! 0 \<and> overflows (va_ctl f ! 0))"
  using scan_part_defined [of f] ctl_part_None [of f]
  by (cases p; cases "ctl_part f") (auto simp: thread_step_simps)

subsection \<open>A command that comes at the wrong moment\<close>

text \<open>The command was stored after the thread had looked, so the copy makes it old.\<close>

fun overlooked :: "point \<times> fake \<Rightarrow> bool" where
  "overlooked (p, f) \<longleftrightarrow> length (va f) = 32 \<and> \<not> enable_read f \<and> va f ! 7 \<in> {0xEC, 0x40} \<and>
     (p \<in> {CtlScan, CtlCopy, Scan} \<longrightarrow> va_l f = va f)"

lemma overlooked_step: "thread_step x y \<Longrightarrow> overlooked x \<Longrightarrow> overlooked y"
  by (erule thread_step.cases) (auto simp: scan_part_def answer_part_def refresh_status_def split: if_splits)

lemma overlooked_steps: "thread_step\<^sup>*\<^sup>* x y \<Longrightarrow> overlooked x \<Longrightarrow> overlooked y"
  by (induction rule: rtranclp_induct) (auto intro: overlooked_step)

text \<open>Before the scan it is seen: the thread's next two steps make the first answer.\<close>

lemma command_seen:
  assumes "fake_wf f" "va_l f = va f" "va f ! 7 \<noteq> 0xEC" "va_ctl_l f = va_ctl f"
    "thread_step (Scan, host_store (Io 7 0xEC) f) (q, g)" "thread_step (q, g) (r, h)"
  shows "r = Copy" "va h ! 7 = 8" "enable_read h"
proof -
  let ?f = "host_store (Io 7 0xEC) f"
  have "identify_written ?f" using assms(1-4) by (simp add: identify_written_def fake_wf_def)
  then obtain rs where "scan_io [0..<32] ?f = Some (rs, ?f\<lparr>start_offset := 0, enable_read := True\<rparr>)" "va_l ?f \<noteq> va ?f"
    using scan_io_identify by (force simp: identify_written_def)
  then have g: "q = Answer" "g = ?f\<lparr>start_offset := 0, enable_read := True\<rparr>"
    using assms(5) by (auto simp: thread_step_simps scan_part_def)
  then have h: "r = Copy" "h = answer_part g" using assms(6) by (auto simp: thread_step_simps)
  then show "r = Copy" "va h ! 7 = 8" "enable_read h"
    using assms(1) by (auto simp: g answer_part_def read_things_def fake_wf_def Let_def)
qed

subsection \<open>Properties\<close>

text \<open>
  C26: In every state that the thread and the host reach together, the host storing anything into the windows
  at any of the points, the windows keep their size and the bytes of the identify block that the thread
  copies next lie inside it; and the thread can take its next step, except that it is stuck where it
  would print the overlong text for the device control register.
\<close>

theorem disk_type_safe:
  assumes "fake_wf f" "disk_step\<^sup>*\<^sup>* (Scan, f) (p, g)"
  shows "fake_wf g \<and> ((\<exists>y. thread_step (p, g) y) \<longleftrightarrow>
    \<not> (p = CtlScan \<and> va_ctl_l g ! 0 \<noteq> va_ctl g ! 0 \<and> bit (va_ctl g ! 0) 2 \<and> \<not> bit (va_ctl g ! 0) 1))"
  using disk_steps_wf [OF assms(2,1)] thread_stuck [of p g] by (simp add: overflows_def)

definition racing :: fake where
  "racing = \<lparr>va = replicate 32 0, va_l = replicate 32 0, va_ctl = replicate 32 0, va_ctl_l = replicate 32 0,
     start_offset = 0, enable_read = False\<rparr>"

lemma racing_wf: "fake_wf racing"
  by (simp add: racing_def fake_wf_def)

theorem disk_type_safe_witness: "fake_wf (host_store (Ctl 0 4) racing) \<and> (\<exists>y. thread_step (Answer, host_store (Ctl 0 4) racing) y)"
proof -
  have "disk_step (Scan, racing) (Answer, racing)"
    by (rule disk_step.thread, rule thread_step.scan) (simp add: scan_part_def racing_def)
  also have "disk_step\<^sup>*\<^sup>* (Answer, racing) (Answer, host_store (Ctl 0 4) racing)"
    by (rule r_into_rtranclp, rule disk_step.host)
  finally show ?thesis using disk_type_safe [OF racing_wf] by auto
qed



end
