(* ===== verification/Plat_Ide.thy ===== *)
theory Plat_Ide
  imports Interfaces Pata
begin

text \<open>
  The platform IDE driver \<open>platform/ide_platform.c\<close>. It wires the same register file as \<open>pata_platform.c\<close>, by
  a loop over the port array instead of one assignment per register.
\<close>

text \<open>The port array of \<open>struct ide_hw\<close>: eight registers and the control register behind them.\<close>

record ide_hw =
  io_ports :: "addr list"
  hw_irq :: int

definition hw_zero :: ide_hw where
  "hw_zero = \<lparr>io_ports = replicate 9 0, hw_irq = 0\<rparr>"

text \<open>The loop from \<open>i\<close> on, up to seven.\<close>

function port_loop :: "nat \<Rightarrow> addr \<Rightarrow> int \<Rightarrow> addr list \<Rightarrow> addr list" where
  "port_loop i port step ports =
     (if i \<le> 7 then port_loop (Suc i) (port + step) step (ports[i := port]) else ports)"
  by pat_completeness auto

termination
  by (relation "measure (\<lambda>(i, port, step, ports). 8 - i)") auto

declare port_loop.simps [simp del]

definition plat_ide_setup_ports :: "ide_hw \<Rightarrow> addr \<Rightarrow> addr \<Rightarrow> nat \<Rightarrow> int \<Rightarrow> ide_hw" where
  "plat_ide_setup_ports hw base ctrl ioport_shift irq =
     (let ports = (io_ports hw)[0 := base];
          ports = port_loop 1 (base + push_bit ioport_shift 1) (push_bit ioport_shift 1) ports
      in hw\<lparr>io_ports := ports[8 := ctrl], hw_irq := irq\<rparr>)"

abbreviation (input) IORESOURCE_IRQ_SHAREABLE :: int where "IORESOURCE_IRQ_SHAREABLE \<equiv> 16"
abbreviation (input) IRQF_SHARED :: int where "IRQF_SHARED \<equiv> 0x80"

record ide_info =
  d_irq_flags :: int
  d_mmio :: bool

text \<open>
  \<open>ide_host_add\<close> returns a status and stores the host (a second answer). The mappings are managed: the bus
  releases them, so they are not objects of the log.
\<close>

definition ide_host_add :: "kworld \<Rightarrow> int \<times> addr \<times> kworld" where
  [kdefs]: "ide_host_add s =
     (let host = answers s (Suc (ncalls s))
      in (ask s, host, (answered (Obtain ''ide_host_add'' (if ask s = 0 then [Obj ''ide_host'' host] else [])) s)
          \<lparr>ncalls := Suc (Suc (ncalls s))\<rparr>))"

text \<open>The two resources: both ports or both memory.\<close>

definition ide_resources :: "platform_device \<Rightarrow> (resource \<times> resource \<times> bool) option" where
  "ide_resources pdev =
     (case (get_resource pdev IORESOURCE_IO 0, get_resource pdev IORESOURCE_IO 1) of
        (Some b, Some a) \<Rightarrow> Some (b, a, False)
      | _ \<Rightarrow> (case (get_resource pdev IORESOURCE_MEM 0, get_resource pdev IORESOURCE_MEM 1) of
          (Some b, Some a) \<Rightarrow> Some (b, a, True)
        | _ \<Rightarrow> None))"

text \<open>
  The result: the status, what the host was added with, and the driver data. The platform data is used
  without a check: a device without any is \<open>None\<close>.
\<close>

definition plat_ide_probe :: "ata_kernel \<Rightarrow> platform_device \<Rightarrow> addr \<Rightarrow> kworld \<Rightarrow>
    (int \<times> (ide_hw \<times> ide_info) option \<times> addr \<times> kworld) option" where
  "plat_ide_probe K pdev drvdata s =
     (case ide_resources pdev of
        None \<Rightarrow> Some (- ENOMEM, None, drvdata, s)
      | Some (res_base, res_alt, mmio) \<Rightarrow>
          (case get_resource pdev IORESOURCE_IRQ 0 of
             None \<Rightarrow> Some (- EINVAL, None, drvdata, s)
           | Some res_irq \<Rightarrow> do {
               let m = (if mmio then devm_ioremap K else devm_ioport_map K);
               let base = m (r_start res_base) (resource_size res_base);
               let alt_base = m (r_start res_alt) (resource_size res_alt);
               shift \<leftarrow> platdata_shift pdev;
               let hw = plat_ide_setup_ports hw_zero base alt_base shift (r_start res_irq);
               let flags = r_flags res_irq AND IRQF_TRIGGER_MASK;
               let flags = (if r_flags res_irq AND IORESOURCE_IRQ_SHAREABLE \<noteq> 0 then flags OR IRQF_SHARED else flags);
               let d = \<lparr>d_irq_flags = flags, d_mmio = mmio\<rparr>;
               let (ret, host, s) = ide_host_add s;
               if ret \<noteq> 0 then Some (ret, Some (hw, d), drvdata, s)
               else Some (0, Some (hw, d), host, s)
             }))"

definition plat_ide_remove :: "addr \<Rightarrow> kworld \<Rightarrow> int \<times> kworld" where
  "plat_ide_remove host s = (0, call (Giveback ''ide_host_remove'' [Obj ''ide_host'' host]) s)"

subsection \<open>The ports\<close>

lemma port_loop_ports:
  assumes "length ports = 9" "i \<le> 8"
  shows "port_loop i port step ports = take i ports @ map (\<lambda>j. port + int j * step) [0..<8 - i] @ drop 8 ports"
  using assms
proof (induction i port step ports rule: port_loop.induct)
  case (1 i port step ports)
  show ?case
  proof (cases "i \<le> 7")
    case True
    then have n: "8 - i = Suc (7 - i)" by simp
    have "port_loop i port step ports = port_loop (Suc i) (port + step) step (ports[i := port])"
      using True by (subst port_loop.simps) simp
    also have "\<dots> = take (Suc i) (ports[i := port]) @ map (\<lambda>j. port + step + int j * step) [0..<8 - Suc i] @
        drop 8 (ports[i := port])"
      using 1 True by simp
    also have "take (Suc i) (ports[i := port]) = take i ports @ [port]"
      using True 1(2) by (simp add: take_Suc_conv_app_nth)
    also have "drop 8 (ports[i := port]) = drop 8 ports" using True by (simp add: drop_update_cancel)
    also have "map (\<lambda>j. port + step + int j * step) [0..<8 - Suc i] = map (\<lambda>j. port + int j * step) [Suc 0..<8 - i]"
      unfolding n by (simp add: map_Suc_upt [symmetric] algebra_simps del: upt_Suc)
    also have "(take i ports @ [port]) @ map (\<lambda>j. port + int j * step) [Suc 0..<8 - i] @ drop 8 ports =
        take i ports @ map (\<lambda>j. port + int j * step) [0..<8 - i] @ drop 8 ports"
      unfolding n by (simp add: upt_conv_Cons del: upt_Suc)
    finally show ?thesis .
  next
    case False
    with 1(3) have "i = 8" by simp
    then show ?thesis by (subst port_loop.simps) simp
  qed
qed

lemma setup_ports_array:
  "io_ports (plat_ide_setup_ports hw_zero base ctrl shift irq) = map (\<lambda>i. base + int i * 2 ^ shift) [0..<8] @ [ctrl]"
proof -
  let ?p = "(io_ports hw_zero)[0 := base]"
  have "port_loop 1 (base + 2 ^ shift) (2 ^ shift) ?p =
      take 1 ?p @ map (\<lambda>j. base + 2 ^ shift + int j * 2 ^ shift) [0..<8 - 1] @ drop 8 ?p"
    by (rule port_loop_ports) (simp_all add: hw_zero_def)
  then have "port_loop 1 (base + 2 ^ shift) (2 ^ shift) ?p = map (\<lambda>i. base + int i * 2 ^ shift) [0..<8] @ [0]"
    by (simp add: hw_zero_def numeral_eq_Suc upt_rec algebra_simps)
  then show ?thesis by (simp add: plat_ide_setup_ports_def push_bit_eq_mult Let_def upt_rec)
qed

text \<open>The IDE driver and the PATA driver find every register at the same address.\<close>

lemma ide_ports_as_pata:
  "io_ports (plat_ide_setup_ports hw_zero base ctrl shift irq) =
     registers (pata_platform_setup_port (no_ports\<lparr>cmd_addr := base, ctl_addr := ctrl\<rparr>) shift) @ [ctrl]"
  by (simp add: setup_ports_array setup_port_registers(1))

subsection \<open>Probing\<close>

lemma ide_probe_cases:
  assumes "plat_ide_probe K pdev drvdata s = Some (r, w, drv', s')" "resources s = Some H"
  shows "r \<noteq> 0 \<Longrightarrow> resources s' = Some H \<and> drv' = drvdata"
    and "r = 0 \<Longrightarrow> resources s' = Some (add_mset (Obj ''ide_host'' drv') H)"
    and "r = 0 \<Longrightarrow> resources (snd (plat_ide_remove drv' s')) = Some H"
  using assms
  by (auto simp: plat_ide_probe_def plat_ide_remove_def kdefs ksimps Let_def
      split: if_splits option.splits prod.splits Option.bind_splits)

text \<open>
  Where the PATA driver gives up when a mapping fails, this one goes on and adds a host whose registers
  start at address zero.
\<close>

lemma ide_probe_unmapped:
  assumes "ide_resources pdev = Some (b, a, mmio)" "get_resource pdev 0x400 0 = Some irq" "platdata_shift pdev = Some sh"
    "\<And>x n. devm_ioremap K x n = 0" "\<And>x n. devm_ioport_map K x n = 0" "ask s = 0"
  shows "\<exists>d s'. plat_ide_probe K pdev drvdata s =
    Some (0, Some (\<lparr>io_ports = map (\<lambda>i. int i * 2 ^ sh) [0..<8] @ [0], hw_irq = r_start irq\<rparr>, d), answers s (Suc (ncalls s)), s')"
proof -
  have "plat_ide_setup_ports hw_zero 0 0 sh (r_start irq) =
      \<lparr>io_ports = map (\<lambda>i. int i * 2 ^ sh) [0..<8] @ [0], hw_irq = r_start irq\<rparr>"
    using setup_ports_array [of 0 0 sh "r_start irq"]
    by (cases "plat_ide_setup_ports hw_zero 0 0 sh (r_start irq)")
      (auto simp: plat_ide_setup_ports_def hw_zero_def Let_def)
  then show ?thesis
    using assms by (cases mmio) (simp_all add: plat_ide_probe_def ide_host_add_def Let_def)
qed

end
