(* ===== verification/Key_Queue.thy ===== *)
theory Key_Queue
  imports Interfaces
begin

text \<open>
  The keyboard driver of \<open>protect/my_spin.c\<close>: an interrupt handler appends the scan codes to a list,
  \<open>my_read\<close> takes them off the front. The list is the list of its nodes, each an allocated address
  with its code; \<open>key_count\<close> is the number the driver keeps beside it. Taking an entry off an empty
  list is \<open>None\<close>. The sections under the spin lock are single steps.
\<close>

record kdev =
  key_list :: "(addr \<times> byte) list"
  key_count :: int

definition my_open :: "inode \<Rightarrow> kfile \<Rightarrow> int" where
  "my_open inode filp = 0"

definition my_release :: "inode \<Rightarrow> kfile \<Rightarrow> int" where
  "my_release inode filp = 0"

text \<open>The loop over the first \<open>n\<close> entries: their codes, the rest of the list, their memory freed.\<close>

fun take_keys :: "nat \<Rightarrow> (addr \<times> byte) list \<Rightarrow> kworld \<Rightarrow> (byte list \<times> (addr \<times> byte) list \<times> kworld) option" where
  "take_keys 0 ks s = Some ([], ks, s)"
| "take_keys (Suc n) [] s = None"
| "take_keys (Suc n) ((p, v) # ks) s = do {
     (kbuf, ks', s') \<leftarrow> take_keys n ks (kfree p s);
     Some (v # kbuf, ks', s')
   }"

text \<open>The result is the return value, the codes that were taken off, and those that reached the user.\<close>

definition my_read :: "int \<Rightarrow> kdev \<Rightarrow> kworld \<Rightarrow> (int \<times> byte list \<times> byte list \<times> kdev \<times> kworld) option" where
  "my_read cnt d s =
     (let cnt = min cnt (size_t (key_count d)) in
      if cnt = 0 then Some (cnt, [], [], d, s)
      else
        let (kbuf, s) = kzalloc (Bytes cnt) s in
        if kbuf = 0 then Some (- ENOMEM, [], [], d, s)
        else do {
          (taken, ks, s) \<leftarrow> take_keys (nat cnt) (key_list d) s;
          let d = d\<lparr>key_list := ks, key_count := key_count d - cnt\<rparr>;
          let (r, out, s) = copy_to_user taken s;
          if r \<noteq> 0 then Some (- EFAULT, taken, [], d, kfree kbuf s)
          else Some (cnt, taken, out, d, kfree kbuf s)
        })"

abbreviation (input) "IRQ_NONE \<equiv> 0 :: int"
abbreviation (input) "IRQ_HANDLED \<equiv> 1 :: int"

definition key_func :: "byte \<Rightarrow> kdev \<Rightarrow> kworld \<Rightarrow> int \<times> kdev \<times> kworld" where
  "key_func code d s =
     (let (tmp, s) = kzalloc (Sizeof ''key_dev'') s in
      if tmp = 0 then (IRQ_NONE, d, s)
      else (IRQ_HANDLED, d\<lparr>key_list := key_list d @ [(tmp, code)], key_count := key_count d + 1\<rparr>, s))"

text \<open>The globals: the address of the structure, and the structure.\<close>

record kglobals =
  kdev_ptr :: addr
  the_kdev :: kdev

definition my_init :: "kglobals \<Rightarrow> kworld \<Rightarrow> int \<times> kglobals \<times> kworld" where
  "my_init g s =
     (let (p, s) = kzalloc (Sizeof ''mydev'') s; g = g\<lparr>kdev_ptr := p\<rparr> in
      if p = 0 then (- ENOMEM, g, s)
      else
        let g = g\<lparr>the_kdev := \<lparr>key_list = [], key_count = 0\<rparr>\<rparr>;
            (ret, s) = request_irq 1 p s in
        if ret \<noteq> 0 then (- 1, g, kfree p s)
        else (0, g, cdev_add p (MKDEV 70 0) 1 s))"

definition my_exit :: "kglobals \<Rightarrow> kworld \<Rightarrow> kworld" where
  "my_exit g s =
     (let s = free_irq 1 (kdev_ptr g) s;
          s = cdev_del (kdev_ptr g) s;
          s = (if key_count (the_kdev g) \<noteq> 0 then fold (\<lambda>(p, v). kfree p) (key_list (the_kdev g)) s else s)
      in kfree (kdev_ptr g) s)"

subsection \<open>The list and its count\<close>

definition nodes :: "(addr \<times> byte) list \<Rightarrow> res multiset" where
  "nodes ks = mset (map (\<lambda>(p, v). Mem p) ks)"

definition codes :: "kdev \<Rightarrow> byte list" where
  "codes d = map snd (key_list d)"

text \<open>The count is right, and every node is memory that is held.\<close>

definition kd_inv :: "res multiset \<Rightarrow> kdev \<Rightarrow> kworld \<Rightarrow> bool" where
  "kd_inv H d s \<longleftrightarrow> key_count d = int (length (key_list d)) \<and> key_count d < 2 ^ 64 \<and>
     (\<forall>(p, v) \<in> set (key_list d). p \<noteq> 0) \<and> resources s = Some (H + nodes (key_list d))"

lemma nodes_Cons [simp]: "nodes ((p, v) # ks) = add_mset (Mem p) (nodes ks)"
  by (simp add: nodes_def)

lemma nodes_append [simp]: "nodes (ks @ ks') = nodes ks + nodes ks'"
  by (simp add: nodes_def)

lemma nodes_Nil [simp]: "nodes [] = {#}"
  by (simp add: nodes_def)

lemma take_keys_ok:
  assumes "n \<le> length ks" "\<forall>(p, v) \<in> set ks. p \<noteq> 0" "resources s = Some (H + nodes ks)"
  shows "\<exists>s'. take_keys n ks s = Some (map snd (take n ks), drop n ks, s') \<and>
    resources s' = Some (H + nodes (drop n ks))"
  using assms
proof (induction n ks s rule: take_keys.induct)
  case (3 n p v ks s)
  have "resources (kfree p s) = Some (H + nodes ks)"
    using 3(3,4) by (simp add: kernel_simps mem_res_def)
  with 3 show ?case by (auto simp: kfree_def)
qed auto

lemma key_func_inv:
  assumes "kd_inv H d s" "key_count d + 1 < 2 ^ 64" "key_func code d s = (r, d', s')"
  shows "kd_inv H d' s' \<and> codes d' = codes d @ (if r = IRQ_HANDLED then [code] else [])"
  using assms by (auto simp: key_func_def kd_inv_def codes_def kernel_simps mem_res_def Let_def
      split: if_splits)

lemma my_read_inv:
  assumes inv: "kd_inv H d s" and cnt: "0 \<le> cnt"
  shows "\<exists>r taken out d' s'. my_read cnt d s = Some (r, taken, out, d', s') \<and> kd_inv H d' s' \<and>
    codes d = taken @ codes d' \<and> (0 \<le> r \<longrightarrow> r = int (length taken) \<and> out = taken) \<and>
    (r < 0 \<longrightarrow> out = []) \<and> (r = 0 \<longrightarrow> cnt = 0 \<or> codes d = [])"
proof -
  define n where "n = min cnt (key_count d)"
  have n: "min cnt (size_t (key_count d)) = n" "0 \<le> n" "nat n \<le> length (key_list d)"
    using inv cnt by (auto simp: n_def kd_inv_def)
  define s1 where "s1 = answered (Kzalloc (Bytes n) (ask s)) s"
  have s1: "resources s1 = Some (H + mem_res (ask s) + nodes (key_list d))"
    using inv by (simp add: s1_def kd_inv_def kernel_simps)
  consider "n = 0" | "n \<noteq> 0" "ask s = 0" | "n \<noteq> 0" "ask s \<noteq> 0" by blast
  then show ?thesis
  proof cases
    case 1
    then have "my_read cnt d s = Some (0, [], [], d, s)" using n by (simp add: my_read_def)
    with inv 1 show ?thesis by (auto simp: n_def kd_inv_def codes_def min_def split: if_splits)
  next
    case 2
    then have "my_read cnt d s = Some (- ENOMEM, [], [], d, s1)"
      using n by (simp add: my_read_def kzalloc_def s1_def)
    with inv 2 s1 show ?thesis by (auto simp: kd_inv_def mem_res_def)
  next
    case 3
    have ks: "\<forall>(p, v) \<in> set (key_list d). p \<noteq> 0" using inv by (simp add: kd_inv_def)
    obtain s2 where s2: "take_keys (nat n) (key_list d) s1 =
        Some (map snd (take (nat n) (key_list d)), drop (nat n) (key_list d), s2)"
      "resources s2 = Some (H + mem_res (ask s) + nodes (drop (nat n) (key_list d)))"
      using take_keys_ok [OF n(3) ks s1] by blast
    let ?taken = "map snd (take (nat n) (key_list d))"
    let ?d = "d\<lparr>key_list := drop (nat n) (key_list d), key_count := key_count d - n\<rparr>"
    define s3 where "s3 = kfree (ask s) (answered (Copy_to_user (length ?taken) (ask s2)) s2)"
    have s3: "resources s3 = Some (H + nodes (drop (nat n) (key_list d)))"
      using s2(2) 3 by (simp add: s3_def kernel_simps mem_res_def)
    have run: "my_read cnt d s = (if ask s2 \<noteq> 0 then Some (- EFAULT, ?taken, [], ?d, s3)
        else Some (n, ?taken, ?taken, ?d, s3))"
      using 3 n(1) s2(1) by (simp add: my_read_def kzalloc_def s1_def copy_to_user_def s3_def)
    have inv': "kd_inv H ?d s3"
      using inv s3 n(2,3) by (auto simp: kd_inv_def dest: in_set_dropD)
    have "codes d = ?taken @ codes ?d" by (simp add: codes_def flip: map_append)
    moreover have "n = int (length ?taken)" using n(2,3) by simp
    ultimately show ?thesis
      using run inv' 3(1) by (cases "ask s2 = 0") auto
  qed
qed

subsection \<open>Keys and readers in any order\<close>

datatype kevent = Key byte | Read int

text \<open>
  Runs interrupts and reads one after the other, as the lock orders them; collects the codes that
  the handler accepted and, per read, the codes it took off and those it delivered.
\<close>

fun key_run :: "kevent list \<Rightarrow> kdev \<Rightarrow> kworld \<Rightarrow>
    (byte list \<times> (int \<times> byte list \<times> byte list) list \<times> kdev \<times> kworld) option" where
  "key_run [] d s = Some ([], [], d, s)"
| "key_run (Key code # evs) d s =
     (case key_func code d s of (r, d, s) \<Rightarrow> do {
        (acc, reads, d, s) \<leftarrow> key_run evs d s;
        Some ((if r = IRQ_HANDLED then code # acc else acc), reads, d, s)
      })"
| "key_run (Read cnt # evs) d s = do {
     (r, taken, out, d, s) \<leftarrow> my_read cnt d s;
     (acc, reads, d, s) \<leftarrow> key_run evs d s;
     Some (acc, (r, taken, out) # reads, d, s)
   }"

fun sane :: "kevent \<Rightarrow> bool" where
  "sane (Key code) = True"
| "sane (Read cnt) = (0 \<le> cnt)"

definition read_ok :: "int \<times> byte list \<times> byte list \<Rightarrow> bool" where
  "read_ok = (\<lambda>(r, taken, out). (0 \<le> r \<longrightarrow> r = int (length taken) \<and> out = taken) \<and> (r < 0 \<longrightarrow> out = []))"

lemma key_run_stream:
  "kd_inv H d s \<Longrightarrow> list_all sane evs \<Longrightarrow> key_count d + int (length evs) < 2 ^ 64 \<Longrightarrow>
   \<exists>acc reads d' s'. key_run evs d s = Some (acc, reads, d', s') \<and> kd_inv H d' s' \<and>
     codes d @ acc = concat (map (fst \<circ> snd) reads) @ codes d' \<and> list_all read_ok reads"
proof (induction evs arbitrary: d s)
  case Nil
  then show ?case by simp
next
  case (Cons e evs)
  show ?case
  proof (cases e)
    case (Key code)
    obtain r d1 s1 where k: "key_func code d s = (r, d1, s1)" by (cases "key_func code d s") auto
    have c: "key_count d + 1 < 2 ^ 64" "list_all sane evs" using Cons.prems by (auto simp: Key)
    note 1 = key_func_inv [OF Cons.prems(1) c(1) k]
    have "key_count d1 \<le> key_count d + 1"
      using k by (auto simp: key_func_def kzalloc_def Let_def split: if_splits)
    then have "key_count d1 + int (length evs) < 2 ^ 64" using Cons.prems(3) by simp
    from Cons.IH [OF conjunct1 [OF 1] c(2) this] 1 k show ?thesis
      by (auto simp: Key split: if_splits)
  next
    case (Read cnt)
    from Cons.prems have cnt: "0 \<le> cnt" "list_all sane evs" by (auto simp: Read)
    from my_read_inv [OF Cons.prems(1) cnt(1)] obtain r taken out d1 s1 where
      1: "my_read cnt d s = Some (r, taken, out, d1, s1)" "kd_inv H d1 s1" "codes d = taken @ codes d1"
        "read_ok (r, taken, out)"
      by (auto simp: read_ok_def)
    have "length (codes d1) \<le> length (codes d)" using 1(3) by simp
    then have "key_count d1 \<le> key_count d"
      using Cons.prems(1) 1(2) by (simp add: kd_inv_def codes_def)
    then have "key_count d1 + int (length evs) < 2 ^ 64" using Cons.prems(3) by simp
    from Cons.IH [OF 1(2) cnt(2) this] 1 show ?thesis by (auto simp: Read)
  qed
qed

text \<open>
  C37: Whatever the order of interrupts and reads and whatever fails, no call takes an entry off an
  empty list, \<open>key_count\<close> stays the length of the list, no memory is lost, and the codes that the
  handler accepted are taken off in that order, each by exactly one read. A read that reports \<open>n\<close>
  delivers the \<open>n\<close> codes it took; a read that fails to copy has lost those it took.
\<close>

theorem key_stream:
  assumes "resources s = Some H" "list_all sane evs" "int (length evs) < 2 ^ 64"
  shows "\<exists>acc reads d' s'. key_run evs \<lparr>key_list = [], key_count = 0\<rparr> s = Some (acc, reads, d', s') \<and>
    kd_inv H d' s' \<and> acc = concat (map (fst \<circ> snd) reads) @ codes d' \<and> list_all read_ok reads"
  using key_run_stream [of H "\<lparr>key_list = [], key_count = 0\<rparr>" s evs] assms
  by (simp add: kd_inv_def codes_def)

theorem key_stream_witness:
  "\<exists>acc reads d' s'. key_run [Key 0x1E, Key 0x30, Read 1, Key 0x2E, Read 10] \<lparr>key_list = [], key_count = 0\<rparr>
      \<lparr>answers = (\<lambda>n. if n = 4 then 0 else 9), ncalls = 0, klog = []\<rparr> = Some (acc, reads, d', s') \<and>
    kd_inv {#} d' s' \<and> acc = concat (map (fst \<circ> snd) reads) @ codes d' \<and> list_all read_ok reads"
  by (rule key_stream) (simp_all add: resources_def)

subsection \<open>Loading and unloading\<close>

lemma fold_kfree:
  "resources s = Some (H + nodes ks) \<Longrightarrow> \<forall>(p, v) \<in> set ks. p \<noteq> 0 \<Longrightarrow>
   resources (fold (\<lambda>(p, v). kfree p) ks s) = Some H"
proof (induction ks arbitrary: s)
  case (Cons k ks)
  obtain p v where k: "k = (p, v)" by (rule prod.exhaust)
  have "resources (kfree p s) = Some (H + nodes ks)"
    using Cons.prems by (simp add: k kernel_simps mem_res_def)
  with Cons k show ?case by simp
qed simp

definition kmod_owns :: "kglobals \<Rightarrow> res multiset" where
  "kmod_owns g = {#Mem (kdev_ptr g), Irq 1 (kdev_ptr g), Cdev (kdev_ptr g)#} + nodes (key_list (the_kdev g))"

text \<open>The module is ready for removal when its count and its nodes are as the operations keep them.\<close>

definition kmod_ready :: "kglobals \<Rightarrow> bool" where
  "kmod_ready g \<longleftrightarrow> kdev_ptr g \<noteq> 0 \<and> key_count (the_kdev g) = int (length (key_list (the_kdev g))) \<and>
     (\<forall>(p, v) \<in> set (key_list (the_kdev g)). p \<noteq> 0)"

interpretation key_mod: partial_lifecycle "\<lambda>g s. Some (my_init g s)" "\<lambda>g s. Some (my_exit g s)"
  kmod_owns kmod_ready
proof (unfold_locales, goal_cases)
  case (1 s H g r g' s')
  then show ?case by (auto simp: my_init_def kernel_simps mem_res_def Let_def split: if_splits)
next
  case (2 s H g r g' s')
  then show ?case
    by (auto simp: my_init_def kmod_owns_def kmod_ready_def kernel_simps mem_res_def Let_def
        split: if_splits)
next
  case (3 g s H)
  define s1 where "s1 = cdev_del (kdev_ptr g) (free_irq 1 (kdev_ptr g) s)"
  have "resources s1 = Some (add_mset (Mem (kdev_ptr g)) H + nodes (key_list (the_kdev g)))"
    using 3(2) by (simp add: s1_def kmod_owns_def kernel_simps)
  from fold_kfree [OF this] 3(1)
  have "resources (fold (\<lambda>(p, v). kfree p) (key_list (the_kdev g)) s1) = Some (add_mset (Mem (kdev_ptr g)) H)"
    by (simp add: kmod_ready_def)
  moreover have "my_exit g s = kfree (kdev_ptr g) (fold (\<lambda>(p, v). kfree p) (key_list (the_kdev g)) s1)"
    using 3(1) by (auto simp: my_exit_def s1_def kmod_ready_def Let_def)
  ultimately show ?case
    using 3(1) by (simp add: kmod_ready_def kernel_simps mem_res_def)
qed

end
