(* ===== verification/Irq_Keys.thy ===== *)
theory Irq_Keys
  imports Interfaces Kernel_Text
begin

text \<open>
  Two interrupt demonstrations. \<open>interrupt/like_irq.c\<close> collects scan codes in an array from its handler
  \<open>key_service\<close> and prints and empties it when its proc entry is read; nothing locks the two against each
  other, so the model lets interrupts arrive before every test of the printing loop and between the loop
  and the reset of the index. The handler is one step: a reader on another processor that sees the index advanced and
  the array not yet stored to is not modelled. \<open>interrupt/irq_disable.c\<close> disables and enables an interrupt line each
  time one of its two entries is read.
\<close>

subsection \<open>The scan codes\<close>

abbreviation (input) KEY_BUF :: nat where "KEY_BUF \<equiv> 120"

record keys =
  key_buf :: "byte list"
  key_pos :: nat

definition keys_inv :: "keys \<Rightarrow> bool" where
  "keys_inv k \<longleftrightarrow> length (key_buf k) = KEY_BUF \<and> key_pos k \<le> KEY_BUF"

text \<open>The flag is \<open>IRQ_HANDLED\<close>.\<close>

definition key_service :: "byte \<Rightarrow> keys \<Rightarrow> bool \<times> keys" where
  "key_service v k =
     (if key_pos k < KEY_BUF then (True, k\<lparr>key_buf := (key_buf k)[key_pos k := v], key_pos := Suc (key_pos k)\<rparr>)
      else (False, k))"

definition interrupts :: "byte list \<Rightarrow> keys \<Rightarrow> keys" where
  "interrupts vs k = fold (\<lambda>v k. snd (key_service v k)) vs k"

definition code_text :: "nat \<Rightarrow> byte \<Rightarrow> string" where
  "code_text i v = fmt_d (uint v) @ [CHR 0x09] @ (if i mod 6 = 0 \<and> i \<noteq> 0 then [CHR 0x0A, CHR '' ''] else [])"

lemma interrupts_pos_le: "max KEY_BUF (key_pos (interrupts vs k)) \<le> max KEY_BUF (key_pos k)"
proof (induction vs arbitrary: k)
  case (Cons v vs)
  have "max KEY_BUF (key_pos (snd (key_service v k))) \<le> max KEY_BUF (key_pos k)" by (simp add: key_service_def)
  with Cons.IH [of "snd (key_service v k)"] show ?case by (simp add: interrupts_def)
qed (simp add: interrupts_def)

text \<open>
  The loop from \<open>i\<close> on. The interrupts that arrive before its tests are the elements of \<open>irqs\<close>. The two
  \<open>sprintf\<close> of an iteration are adjacent and are one.
\<close>

function proc_loop :: "byte list list \<Rightarrow> nat \<Rightarrow> keys \<Rightarrow> nat \<Rightarrow> text_mem \<Rightarrow> (nat \<times> text_mem \<times> keys) option" where
  "proc_loop irqs i k ret page =
     (let k' = interrupts (concat (take 1 irqs)) k in
      if i \<le> key_pos k' then
        if i - 1 < length (key_buf k') then
          let line = code_text i (key_buf k' ! (i - 1))
          in proc_loop (drop 1 irqs) (Suc i) k' (ret + length line) (sprintf_at ret line page)
        else None
      else Some (ret, page, k'))"
  by pat_completeness auto

termination
proof (relation "measure (\<lambda>(irqs, i, k, ret, page). Suc (max KEY_BUF (key_pos k)) - i)", goal_cases)
  case (2 irqs i k ret page k' line)
  with interrupts_pos_le [of "concat (take 1 irqs)" k] show ?case by auto
qed simp

declare proc_loop.simps [simp del]

text \<open>The interrupts \<open>late\<close> arrive after the last test and before the index is reset.\<close>

definition my_proc :: "byte list list \<Rightarrow> byte list \<Rightarrow> keys \<Rightarrow> text_mem \<Rightarrow> (nat \<times> text_mem \<times> keys) option" where
  "my_proc irqs late k page = do {
     (ret, page, k) \<leftarrow> proc_loop irqs 1 k 0 page;
     let page = sprintf_at ret [CHR 0x0A] page;
     let k = interrupts late k;
     Some (Suc ret, page, k\<lparr>key_pos := 0\<rparr>)
   }"

text \<open>The interrupt line is number 1, its cookie the array (address 1); \<open>pos\<close> is reset after the request.\<close>

definition my_init :: "keys \<Rightarrow> kworld \<Rightarrow> int \<times> keys \<times> kworld" where
  "my_init k s =
     (let (ret, s) = request_irq 1 1 s in
      if ret \<noteq> 0 then (- EIO, k, s)
      else (0, k\<lparr>key_pos := 0\<rparr>, create_proc_read_entry ''proc_key'' s))"

definition my_exit :: "keys \<Rightarrow> kworld \<Rightarrow> kworld" where
  "my_exit k s = free_irq 1 1 (remove_proc_entry ''proc_key'' s)"

interpretation key_irq_mod: module_lifecycle my_init my_exit "\<lambda>_. {#Irq 1 1, Proc ''proc_key''#}"
  by unfold_locales (auto simp: my_init_def my_exit_def kernel_simps Let_def split: if_splits)

subsection \<open>What a read reports\<close>

definition key_codes :: "keys \<Rightarrow> byte list" where
  "key_codes k = take (key_pos k) (key_buf k)"

lemma key_service_codes:
  "keys_inv k \<Longrightarrow> keys_inv (snd (key_service v k)) \<and>
     key_codes (snd (key_service v k)) = key_codes k @ (if fst (key_service v k) then [v] else [])"
  by (auto simp: key_service_def keys_inv_def key_codes_def take_Suc_conv_app_nth)

text \<open>Interrupts append codes, in order, until the array is full.\<close>

lemma interrupts_codes:
  "keys_inv k \<Longrightarrow> keys_inv (interrupts vs k) \<and>
     key_codes (interrupts vs k) = key_codes k @ take (KEY_BUF - key_pos k) vs"
proof (induction vs arbitrary: k)
  case Nil
  then show ?case by (simp add: interrupts_def)
next
  case (Cons v vs)
  let ?k = "snd (key_service v k)"
  note s = key_service_codes [OF Cons.prems, of v]
  have step: "interrupts (v # vs) k = interrupts vs ?k" by (simp add: interrupts_def)
  have "KEY_BUF - key_pos k = (if fst (key_service v k) then Suc (KEY_BUF - key_pos ?k) else 0)" "\<not> fst (key_service v k) \<Longrightarrow> KEY_BUF - key_pos ?k = 0"
    by (auto simp: key_service_def)
  with Cons.IH [of ?k] s show ?case unfolding step by (auto split: if_splits)
qed

fun render :: "nat \<Rightarrow> byte list \<Rightarrow> string" where
  "render i [] = []"
| "render i (v # vs) = code_text i v @ render (Suc i) vs"

lemma interrupts_append: "interrupts (vs @ ws) k = interrupts ws (interrupts vs k)"
  by (simp add: interrupts_def)

lemma interrupts_Nil [simp]: "interrupts [] k = k"
  by (simp add: interrupts_def)

text \<open>
  The loop stays inside the array and ends; it prints every code from \<open>i\<close> on that is in the array at its
  last test, those included that arrived while it ran.
\<close>

lemma proc_loop_text:
  assumes "keys_inv k" "1 \<le> i" "i \<le> Suc (key_pos k)"
  shows "\<exists>page' n k'. k' = interrupts (concat (take n irqs)) k \<and> n + i = Suc (Suc (key_pos k')) \<and>
    proc_loop irqs i k ret page = Some (ret + length (render i (drop (i - 1) (key_codes k'))), page', k') \<and>
    text_at page' 0 (ret + length (render i (drop (i - 1) (key_codes k')))) =
      text_at page 0 ret @ render i (drop (i - 1) (key_codes k'))"
  using assms
proof (induction irqs i k ret page rule: proc_loop.induct)
  case (1 irqs i k ret page)
  define k1 where "k1 = interrupts (concat (take 1 irqs)) k"
  from interrupts_codes [OF 1(2)] have k1: "keys_inv k1"
    "key_codes k1 = key_codes k @ take (KEY_BUF - key_pos k) (concat (take 1 irqs))"
    by (simp_all add: k1_def)
  have pos: "length (key_codes k1) = key_pos k1" "length (key_codes k) = key_pos k"
    using k1(1) 1(2) by (simp_all add: key_codes_def keys_inv_def)
  show ?case
  proof (cases "i \<le> key_pos k1")
    case False
    then have "proc_loop irqs i k ret page = Some (ret, page, k1)"
      using proc_loop.simps [of irqs i k ret page, folded k1_def] by (simp add: Let_def)
    moreover have "drop (i - 1) (key_codes k1) = []" using False pos(1) by simp
    moreover have "1 + i = Suc (Suc (key_pos k1))" using False 1(4) pos k1(2) by simp
    ultimately show ?thesis by (intro exI [of _ page] exI [of _ 1] exI [of _ k1]) (simp add: k1_def)
  next
    case True
    define line where "line = code_text i (key_buf k1 ! (i - 1))"
    have in_buf: "i - 1 < length (key_buf k1)" using True k1(1) 1(3) by (auto simp: keys_inv_def)
    then have step: "proc_loop irqs i k ret page =
        proc_loop (drop 1 irqs) (Suc i) k1 (ret + length line) (sprintf_at ret line page)"
      using True proc_loop.simps [of irqs i k ret page, folded k1_def] by (simp add: line_def Let_def)
    from 1(1) [OF k1_def True in_buf line_def k1(1)] True obtain page' n k' where
      n: "n + Suc i = Suc (Suc (key_pos k'))" and k': "k' = interrupts (concat (take n (drop 1 irqs))) k1" and
      run: "proc_loop (drop 1 irqs) (Suc i) k1 (ret + length line) (sprintf_at ret line page) =
        Some (ret + length line + length (render (Suc i) (drop i (key_codes k'))), page', k')" and
      shown: "text_at page' 0 (ret + length line + length (render (Suc i) (drop i (key_codes k')))) =
        text_at (sprintf_at ret line page) 0 (ret + length line) @ render (Suc i) (drop i (key_codes k'))"
      by auto
    have "concat (take (Suc n) irqs) = concat (take 1 irqs) @ concat (take n (drop 1 irqs))"
      by (cases irqs) simp_all
    then have k'': "k' = interrupts (concat (take (Suc n) irqs)) k"
      by (simp only: interrupts_append k' k1_def)
    obtain ws where "key_codes k' = key_codes k1 @ ws" using interrupts_codes [OF k1(1)] k' by blast
    then have "i - 1 < length (key_codes k')" "key_codes k' ! (i - 1) = key_buf k1 ! (i - 1)"
      using True 1(3) pos(1) by (auto simp: nth_append key_codes_def)
    then have "drop (i - 1) (key_codes k') = key_buf k1 ! (i - 1) # drop i (key_codes k')"
      using 1(3) by (simp add: Cons_nth_drop_Suc [symmetric])
    then have r: "render i (drop (i - 1) (key_codes k')) = line @ render (Suc i) (drop i (key_codes k'))"
      by (simp add: line_def)
    have "Suc n + i = Suc (Suc (key_pos k'))" using n by simp
    then show ?thesis
      using run shown text_at_sprintf [of 0 ret line page]
      by (intro exI [of _ page'] exI [of _ "Suc n"] exI [of _ k'] conjI k'') (simp_all only: step r, simp_all add: add.assoc)
  qed
qed

lemma length_code_text: "length (code_text i v) \<le> 4 + (if i mod 6 = 0 then 2 else 0)"
  by (simp add: code_text_def length_fmt_byte)

lemma length_render: "length (render (Suc i) vs) \<le> 4 * length vs + 2 * ((i + length vs) div 6 - i div 6)"
proof (induction vs arbitrary: i)
  case (Cons v vs)
  have "Suc i div 6 = i div 6 + (if Suc i mod 6 = 0 then 1 else 0)" by (simp add: div_Suc)
  moreover have "Suc i div 6 \<le> (Suc i + length vs) div 6" by (intro div_le_mono) simp
  moreover have "(i + length (v # vs)) div 6 = (Suc i + length vs) div 6" by simp
  moreover have "length (render (Suc i) (v # vs)) = length (code_text (Suc i) v) + length (render (Suc (Suc i)) vs)"
    by simp
  moreover note Cons.IH [of "Suc i"] length_code_text [of "Suc i" v]
  ultimately show ?case by (cases "Suc i mod 6 = 0") (simp_all del: render.simps, arith)
qed simp

text \<open>
  C39: A read of the entry, however it is interrupted, stays inside the array, reports the codes in the order
  of their interrupts, fits the page, and leaves the array empty. If it reports \<open>m\<close> codes, its loop made
  \<open>m + 1\<close> tests, and the report has the codes that were there and those that arrived before one of these
  tests, as far as the array has room; what arrives after the last test is lost.
\<close>

theorem my_proc_reports:
  assumes "keys_inv k"
  shows "\<exists>codes ret page' k'. my_proc irqs late k page = Some (ret, page', k') \<and> keys_inv k' \<and> key_codes k' = [] \<and>
    ret \<le> 521 \<and> text_at page' 0 ret = render 1 codes @ [CHR 0x0A] \<and>
    codes = key_codes k @ take (KEY_BUF - key_pos k) (concat (take (Suc (length codes)) irqs))"
proof -
  from proc_loop_text [OF assms, of 1 irqs 0 page] obtain page' n k' where
    k': "k' = interrupts (concat (take n irqs)) k" and n: "n = Suc (key_pos k')" and
    run: "proc_loop irqs 1 k 0 page = Some (length (render 1 (key_codes k')), page', k')" and
    shown: "text_at page' 0 (length (render 1 (key_codes k'))) = render 1 (key_codes k')"
    by auto
  have c: "keys_inv k'" "key_codes k' = key_codes k @ take (KEY_BUF - key_pos k) (concat (take n irqs))"
    using interrupts_codes [OF assms] k' by auto
  have pos: "length (key_codes k') = key_pos k'" "key_pos k' \<le> 120"
    using c(1) by (simp_all add: key_codes_def keys_inv_def)
  then have "length (key_codes k') div 6 \<le> 120 div 6" by (intro div_le_mono) simp
  then have "length (render 1 (key_codes k')) \<le> 520" using pos length_render [of 0 "key_codes k'"] by simp
  moreover have "keys_inv (interrupts late k')" using interrupts_codes [OF c(1)] by blast
  ultimately show ?thesis
    using run shown text_at_sprintf [of 0 "length (render 1 (key_codes k'))" "[CHR 0x0A]" page'] c(2) n pos(1)
    by (intro exI [where x = "key_codes k'"] exI [where x = "Suc (length (render 1 (key_codes k')))"])
      (simp add: my_proc_def keys_inv_def key_codes_def)
qed

theorem my_proc_reports_witness:
  "\<exists>codes ret page' k'. my_proc [[], [7]] [9] \<lparr>key_buf = (replicate 120 0)[0 := 5], key_pos = 1\<rparr> (\<lambda>_. CHR 0x00) = Some (ret, page', k') \<and>
     text_at page' 0 ret = render 1 codes @ [CHR 0x0A] \<and> ret \<le> 521"
  using my_proc_reports [of "\<lparr>key_buf = (replicate 120 0)[0 := 5], key_pos = 1\<rparr>" "[[], [7]]" "[9]" "\<lambda>_. CHR 0x00"]
  by (auto simp: keys_inv_def)

subsection \<open>Disabling a line\<close>

text \<open>Each disabling of a line is an object of the log that enabling gives back.\<close>

record irq_dis =
  irq_num :: int
  disable_count :: "32 word"

definition proc_disable :: "irq_dis \<Rightarrow> text_mem \<Rightarrow> kworld \<Rightarrow> nat \<times> text_mem \<times> irq_dis \<times> kworld" where
  "proc_disable g page s =
     (let s = call (Obtain ''disable_irq'' [Obj ''irq_disabled'' (irq_num g)]) s;
          g = g\<lparr>disable_count := disable_count g + 1\<rparr>;
          line = ''Disable irq '' @ fmt_d (irq_num g) @ '', '' @ fmt_d (sint (disable_count g)) @ '' times.'' @ [CHR 0x0A]
      in (length line, sprintf_at 0 line page, g, s))"

definition proc_enable :: "irq_dis \<Rightarrow> text_mem \<Rightarrow> kworld \<Rightarrow> nat \<times> text_mem \<times> irq_dis \<times> kworld" where
  "proc_enable g page s =
     (let s = call (Giveback ''enable_irq'' [Obj ''irq_disabled'' (irq_num g)]) s;
          g = g\<lparr>disable_count := disable_count g - 1\<rparr>;
          line = ''Enable irq '' @ fmt_d (irq_num g) @ '', still need enable '' @ fmt_d (sint (disable_count g)) @
            '' times.'' @ [CHR 0x0A]
      in (length line, sprintf_at 0 line page, g, s))"

definition dis_init :: "irq_dis \<Rightarrow> kworld \<Rightarrow> int \<times> irq_dis \<times> kworld" where
  "dis_init g s = (0, g, create_proc_read_entry ''proc_enable'' (create_proc_read_entry ''proc_disable'' s))"

definition dis_exit :: "irq_dis \<Rightarrow> kworld \<Rightarrow> kworld" where
  "dis_exit g s = remove_proc_entry ''proc_enable'' (remove_proc_entry ''proc_disable'' s)"

text \<open>The line is disabled as often as the count says.\<close>

definition disabled :: "irq_dis \<Rightarrow> res multiset" where
  "disabled g = replicate_mset (unat (disable_count g)) (Obj ''irq_disabled'' (irq_num g))"

lemma proc_disable_count:
  assumes "resources s = Some (H + disabled g)" "disable_count g \<noteq> - 1" "proc_disable g page s = (n, page', g', s')"
  shows "resources s' = Some (H + disabled g')" "disable_count g' \<noteq> 0"
proof -
  have "unat (disable_count g + 1) = Suc (unat (disable_count g))" "disable_count g + 1 \<noteq> 0"
    using assms(2) unatSuc [of "disable_count g"] eq_neg_iff_add_eq_0 [of "disable_count g" 1]
    by (simp_all add: add.commute)
  with assms(1,3) show "resources s' = Some (H + disabled g')" "disable_count g' \<noteq> 0"
    by (auto simp: proc_disable_def disabled_def kernel_simps Let_def)
qed

text \<open>
  Enabling undoes one disabling; when there was none the line is enabled too often and the count, unsigned
  but printed with \<open>%d\<close>, reads -1.
\<close>

lemma proc_enable_count:
  assumes "resources s = Some (H + disabled g)" "disable_count g \<noteq> 0" "proc_enable g page s = (n, page', g', s')"
  shows "resources s' = Some (H + disabled g')"
proof -
  have "unat (disable_count g) = Suc (unat (disable_count g - 1))"
    using assms(2) unat_gt_0 [of "disable_count g"] by (simp add: unat_minus_one)
  with assms(1,3) show ?thesis
    by (auto simp: proc_enable_def disabled_def kernel_simps Let_def)
qed

lemma proc_enable_unbalanced:
  assumes "resources s = Some H" "Obj ''irq_disabled'' (irq_num g) \<notin># H" "disable_count g = 0"
    "proc_enable g page s = (n, page', g', s')"
  shows "resources s' = None" "sint (disable_count g') = - 1"
  using assms by (auto simp: proc_enable_def kernel_simps kstep_def Let_def)

text \<open>Removing the module leaves the line disabled as often as it was.\<close>

lemma dis_exit_keeps:
  assumes "resources s = Some (H + disabled g)" "dis_init g s = (r, g', s')"
  shows "resources (dis_exit g' s') = Some (H + disabled g)"
  using assms by (auto simp: dis_init_def dis_exit_def kernel_simps)

end
