(* ===== verification/Deferred_Work.thy ===== *)
theory Deferred_Work
  imports Interfaces
begin

text \<open>
  Work that an interrupt handler leaves for later, and counters that two handlers share:
  \<open>interrupt/my_workqueue.c\<close>, \<open>time/my_timer.c\<close> and \<open>protect/my_atomic.c\<close>. The kernel may run a handler, a
  work function or a timer at any time it is allowed to: each is a step of a transition system.
\<close>

subsection \<open>A work queue entry\<close>

record wdev =
  upper_count :: "64 word"
  bottom_count :: "64 word"
  w_tv :: "int \<times> int"
  w_data :: "64 word"

text \<open>\<open>now\<close> is what \<open>do_gettimeofday\<close> stores.\<close>

definition work_func :: "int \<times> int \<Rightarrow> wdev \<Rightarrow> wdev" where
  "work_func now d = d\<lparr>w_tv := now, bottom_count := bottom_count d + 1\<rparr>"

text \<open>The flag: \<open>schedule_work\<close> was called.\<close>

definition interrupt_func :: "int \<times> int \<Rightarrow> 64 word \<Rightarrow> wdev \<Rightarrow> bool \<times> wdev" where
  "interrupt_func now jiffies d = (True, d\<lparr>w_tv := now, upper_count := upper_count d + 1, w_data := jiffies\<rparr>)"

text \<open>A failing \<open>request_irq\<close> returns without freeing the structure.\<close>

definition work_init :: "addr \<Rightarrow> kworld \<Rightarrow> int \<times> addr \<times> kworld" where
  "work_init dev s =
     (let (dev, s) = kzalloc (Sizeof ''mydev'') s in
      if dev = 0 then (- ENOMEM, dev, s)
      else
        let (ret, s) = request_irq 12 dev s in
        if ret \<noteq> 0 then (- 1, dev, s) else (0, dev, call (Plain ''INIT_WORK'' dev) s))"

definition work_exit :: "addr \<Rightarrow> kworld \<Rightarrow> kworld" where
  "work_exit dev s = kfree dev (free_irq 12 dev s)"

lemma work_module_resources:
  assumes "resources s = Some H" "work_init dev s = (r, d, s')"
  shows "resources (if r = 0 then work_exit d s' else s') = Some (if r = - 1 then add_mset (Mem d) H else H)"
  using assms by (auto simp: work_init_def work_exit_def kdefs ksimps mem_res_def Let_def split: if_splits)

text \<open>
  The life of the entry. \<open>None\<close> as the structure is memory that is not there (before the load, after the
  removal); \<open>Crashed\<close> is a handler or work function that uses it then, or work that is scheduled before
  \<open>INIT_WORK\<close>. A work that is pending already is not queued again.
\<close>

record wsys =
  w_dev :: "wdev option"
  w_irq :: bool
  w_initialised :: bool
  w_pending :: bool

datatype wstate = Running wsys | Crashed

definition start :: wsys where
  "start = \<lparr>w_dev = None, w_irq = False, w_initialised = False, w_pending = False\<rparr>"

inductive work_step :: "wstate \<Rightarrow> wstate \<Rightarrow> bool" where
  request: "w_dev y = None \<Longrightarrow> \<not> w_pending y \<Longrightarrow>
    work_step (Running y) (Running (y\<lparr>w_dev := Some \<lparr>upper_count = 0, bottom_count = 0, w_tv = (0, 0), w_data = 0\<rparr>,
      w_irq := True, w_initialised := False\<rparr>))"
| init_work: "w_irq y \<Longrightarrow> work_step (Running y) (Running (y\<lparr>w_initialised := True\<rparr>))"
| irq: "w_irq y \<Longrightarrow> w_initialised y \<Longrightarrow> w_dev y = Some d \<Longrightarrow> interrupt_func now jiffies d = (True, d') \<Longrightarrow>
    work_step (Running y) (Running (y\<lparr>w_dev := Some d', w_pending := True\<rparr>))"
| irq_early: "w_irq y \<Longrightarrow> \<not> w_initialised y \<Longrightarrow> work_step (Running y) Crashed"
| work: "w_pending y \<Longrightarrow> w_dev y = Some d \<Longrightarrow>
    work_step (Running y) (Running (y\<lparr>w_dev := Some (work_func now d), w_pending := False\<rparr>))"
| work_freed: "w_pending y \<Longrightarrow> w_dev y = None \<Longrightarrow> work_step (Running y) Crashed"
| unload: "w_initialised y \<Longrightarrow> w_irq y \<Longrightarrow>
    work_step (Running y) (Running (y\<lparr>w_dev := None, w_irq := False\<rparr>))"

inductive_cases work_stepE: "work_step (Running y) z"

text \<open>The work ran at most once per interrupt; each interrupt is answered by the run that is pending.\<close>

definition counts_ok :: "bool \<Rightarrow> wdev \<Rightarrow> bool" where
  "counts_ok pending d \<longleftrightarrow> (\<exists>u b :: nat. upper_count d = of_nat u \<and> bottom_count d = of_nat b \<and>
     b + of_bool pending \<le> u \<and> (0 < u \<longrightarrow> 0 < b \<or> pending))"

definition work_inv :: "wstate \<Rightarrow> bool" where
  "work_inv z = (case z of Crashed \<Rightarrow> True | Running y \<Rightarrow>
     (w_irq y \<longleftrightarrow> w_dev y \<noteq> None) \<and> (w_pending y \<longrightarrow> w_initialised y) \<and>
     pred_option (counts_ok (w_pending y)) (w_dev y))"

lemma counts_irq:
  assumes "counts_ok pending d" "interrupt_func now jiffies d = (r, d')"
  shows "counts_ok True d'"
proof -
  from assms(1) obtain u b :: nat where "upper_count d = of_nat u" "bottom_count d = of_nat b" "b \<le> u"
    by (auto simp: counts_ok_def)
  then have "upper_count d' = of_nat (Suc u)" "bottom_count d' = of_nat b" "b + 1 \<le> Suc u"
    using assms(2) by (auto simp: interrupt_func_def)
  then show ?thesis unfolding counts_ok_def by (intro exI [of _ "Suc u"] exI [of _ b]) simp
qed

lemma counts_work:
  assumes "counts_ok True d"
  shows "counts_ok False (work_func now d)"
proof -
  from assms obtain u b :: nat where ub: "upper_count d = of_nat u" "bottom_count d = of_nat b" "b + 1 \<le> u"
    by (auto simp: counts_ok_def)
  then have "bottom_count (work_func now d) = of_nat (Suc b)" by (simp add: work_func_def)
  with ub show ?thesis unfolding counts_ok_def
    by (intro exI [of _ u] exI [of _ "Suc b"]) (simp add: work_func_def)
qed

lemma counts_new: "counts_ok False \<lparr>upper_count = 0, bottom_count = 0, w_tv = tv, w_data = x\<rparr>"
  by (simp add: counts_ok_def exI [of _ "0 :: nat"])

lemma work_inv_step: "work_step z z' \<Longrightarrow> work_inv z \<Longrightarrow> work_inv z'"
  by (induction rule: work_step.induct) (auto simp: work_inv_def counts_new intro: counts_irq counts_work)

lemma work_reachable_inv: "work_step\<^sup>*\<^sup>* (Running start) z \<Longrightarrow> work_inv z"
proof (induction rule: rtranclp_induct)
  case base
  then show ?case by (simp add: work_inv_def start_def)
qed (rule work_inv_step)

text \<open>
  The system crashes in two ways only: an interrupt before \<open>INIT_WORK\<close>, and work that is still pending
  when the module has gone, because the removal does not flush it.
\<close>

lemma work_crash_cases:
  assumes "work_step\<^sup>*\<^sup>* (Running start) (Running y)" "work_step (Running y) Crashed"
  shows "(w_irq y \<and> \<not> w_initialised y) \<or> (w_pending y \<and> w_dev y = None)"
  using assms(2) by (auto elim: work_stepE)

lemma work_crash_reachable: "work_step\<^sup>*\<^sup>* (Running start) Crashed"
proof -
  let ?d = "\<lparr>upper_count = 0, bottom_count = 0, w_tv = (0, 0), w_data = 0\<rparr> :: wdev"
  let ?y = "start\<lparr>w_dev := Some ?d, w_irq := True, w_initialised := False\<rparr>"
  let ?y1 = "?y\<lparr>w_initialised := True\<rparr>"
  let ?y2 = "?y1\<lparr>w_dev := Some (snd (interrupt_func (0, 0) 7 ?d)), w_pending := True\<rparr>"
  let ?y3 = "?y2\<lparr>w_dev := None, w_irq := False\<rparr>"
  have 1: "work_step (Running start) (Running ?y)" by (rule request) (simp_all add: start_def)
  have 2: "work_step (Running ?y) (Running ?y1)" by (rule init_work) simp
  have 3: "work_step (Running ?y1) (Running ?y2)"
    by (rule irq [where d = ?d and jiffies = 7 and now = "(0, 0)"]) (simp_all add: interrupt_func_def)
  have 4: "work_step (Running ?y2) (Running ?y3)" by (rule unload) simp_all
  have 5: "work_step (Running ?y3) Crashed" by (rule work_freed) simp_all
  note c = converse_rtranclp_into_rtranclp
  show ?thesis by (rule c [OF 1 c [OF 2 c [OF 3 c [OF 4 r_into_rtranclp [of work_step, OF 5]]]]])
qed

subsection \<open>A timer that restarts itself\<close>

text \<open>\<open>my_timer.data\<close>, the expiry time while the timer is pending, and \<open>jiffies\<close>.\<close>

record timer =
  t_data :: "64 word"
  t_expires :: "64 word option"
  t_jiffies :: "64 word"

definition mod_timer :: "64 word \<Rightarrow> timer \<Rightarrow> timer" where
  "mod_timer t y = y\<lparr>t_expires := Some t\<rparr>"

definition timer_func :: "64 word \<Rightarrow> timer \<Rightarrow> timer" where
  "timer_func data y =
     (let data = data - 1; y = y\<lparr>t_data := data\<rparr> in
      if data \<noteq> 0 then mod_timer (t_jiffies y + 1) y else y)"

text \<open>Reading the proc entry sets the timer up; \<open>HZ\<close> is a parameter.\<close>

definition timer_proc :: "64 word \<Rightarrow> timer \<Rightarrow> timer" where
  "timer_proc HZ y =
     (let y = y\<lparr>t_data := 100, t_expires := None\<rparr>
      in mod_timer (t_jiffies y + HZ div 2) y)"

definition timer_init :: "kworld \<Rightarrow> int \<times> kworld" where
  "timer_init s = (0, create_proc_read_entry ''proc_timer'' s)"

definition timer_exit :: "kworld \<Rightarrow> kworld" where
  "timer_exit s = remove_proc_entry ''proc_timer'' s"

text \<open>The kernel runs an expired timer: it is no longer pending and its function gets its data.\<close>

definition expire :: "timer \<Rightarrow> timer" where
  "expire y = (case t_expires y of None \<Rightarrow> y
     | Some t \<Rightarrow> timer_func (t_data y) (y\<lparr>t_expires := None, t_jiffies := t\<rparr>))"

text \<open>Set up with the data \<open>n > 0\<close>, the timer runs \<open>n\<close> times, one tick apart, and stops.\<close>

lemma timer_runs:
  assumes "t_data y = of_nat n" "0 < n" "n < 2 ^ 64" "t_expires y = Some t" "k < n"
  shows "t_data ((expire ^^ k) y) = of_nat (n - k) \<and> t_expires ((expire ^^ k) y) = Some (t + of_nat k)"
  using assms(5)
proof (induction k)
  case (Suc k)
  let ?y = "(expire ^^ k) y"
  have IH: "t_data ?y = of_nat (n - k)" "t_expires ?y = Some (t + of_nat k)" using Suc by simp_all
  have nk: "n - k = Suc (n - Suc k)" using Suc.prems by simp
  then have d: "of_nat (n - k) - (1 :: 64 word) = of_nat (n - Suc k)" by (simp only: of_nat_Suc) simp
  have "unat (word_of_nat (n - Suc k) :: 64 word) = n - Suc k"
    using assms(3) by (subst unat_of_nat) (simp only: len_bit0 len_num1 mod_less, simp)
  then have "word_of_nat (n - Suc k) \<noteq> (0 :: 64 word)" using Suc.prems by (intro notI) simp
  then have "expire ?y = ?y\<lparr>t_expires := Some (t + of_nat k + 1), t_jiffies := t + of_nat k, t_data := of_nat (n - Suc k)\<rparr>"
    using IH d by (simp add: expire_def timer_func_def mod_timer_def Let_def)
  then show ?case by (simp add: add.assoc add.commute [of 1])
qed (use assms in simp)

lemma timer_stops:
  assumes "t_data y = of_nat n" "0 < n" "n < 2 ^ 64" "t_expires y = Some t"
  shows "t_expires ((expire ^^ n) y) = None" "\<And>k. k < n \<Longrightarrow> t_expires ((expire ^^ k) y) \<noteq> None"
proof -
  from assms(2) obtain m where m: "n = Suc m" by (cases n) auto
  from timer_runs [OF assms, of m] have "t_data ((expire ^^ m) y) = 1" "t_expires ((expire ^^ m) y) \<noteq> None"
    by (simp_all add: m)
  then show "t_expires ((expire ^^ n) y) = None"
    by (auto simp: m expire_def timer_func_def Let_def)
  show "\<And>k. k < n \<Longrightarrow> t_expires ((expire ^^ k) y) \<noteq> None" using timer_runs [OF assms] by simp
qed

text \<open>So one read of the proc entry makes exactly one hundred runs, unless another read comes in between.\<close>

lemma timer_proc_runs:
  "t_expires ((expire ^^ k) (timer_proc HZ y)) \<noteq> None \<longleftrightarrow> k < 100"
proof
  let ?y = "timer_proc HZ y"
  have y: "t_data ?y = of_nat 100" "t_expires ?y = Some (t_jiffies y + HZ div 2)"
    by (simp_all add: timer_proc_def mod_timer_def Let_def)
  show "k < 100 \<Longrightarrow> t_expires ((expire ^^ k) ?y) \<noteq> None" by (rule timer_stops(2) [OF y(1) _ _ y(2)]) simp_all
  have stop: "t_expires ((expire ^^ 100) ?y) = None" by (rule timer_stops(1) [OF y(1) _ _ y(2)]) simp_all
  have stay: "(expire ^^ j) z = z" if "t_expires z = None" for j z
    using that by (induction j) (simp_all add: expire_def)
  show "t_expires ((expire ^^ k) ?y) \<noteq> None \<Longrightarrow> k < 100"
  proof (rule ccontr)
    assume "t_expires ((expire ^^ k) ?y) \<noteq> None" "\<not> k < 100"
    moreover from this have "(expire ^^ k) ?y = (expire ^^ (k - 100)) ((expire ^^ 100) ?y)"
      by (simp flip: funpow_add o_apply [of "expire ^^ (k - 100)" "expire ^^ 100"])
    ultimately show False using stay [OF stop] stop by simp
  qed
qed

subsection \<open>Two handlers, two counters\<close>

text \<open>
  The keyboard and the mouse handler of \<open>protect/my_atomic.c\<close> have the same body. \<open>irqs++\<close> is a load and a
  store; \<open>atomic_inc\<close> is one step. The handler of a line does not interrupt itself, but the two may run at
  the same time. \<open>handled\<close> counts the calls that returned.
\<close>

datatype line = Key | Mouse
datatype hpc = Idle | Loaded "64 word" | Stored

record counters =
  irqs :: "64 word"
  irq_sum :: "32 word"
  h_pc :: "line \<Rightarrow> hpc"
  handled :: nat

inductive irq_step :: "counters \<Rightarrow> counters \<Rightarrow> bool" where
  h_load: "h_pc y h = Idle \<Longrightarrow> irq_step y (y\<lparr>h_pc := (h_pc y)(h := Loaded (irqs y))\<rparr>)"
| h_store: "h_pc y h = Loaded v \<Longrightarrow> irq_step y (y\<lparr>irqs := v + 1, h_pc := (h_pc y)(h := Stored)\<rparr>)"
| h_inc: "h_pc y h = Stored \<Longrightarrow>
    irq_step y (y\<lparr>irq_sum := irq_sum y + 1, h_pc := (h_pc y)(h := Idle), handled := Suc (handled y)\<rparr>)"

definition counters_init :: counters where
  "counters_init = \<lparr>irqs = 0, irq_sum = 0, h_pc = (\<lambda>_. Idle), handled = 0\<rparr>"

definition atomic_init :: "kworld \<Rightarrow> int \<times> unit \<times> kworld" where
  "atomic_init s =
     (let (ret, s) = request_irq 1 1 s in
      if ret \<noteq> 0 then (- 1, (), s)
      else
        let (ret, s) = request_irq 12 1 s in
        if ret \<noteq> 0 then (- 1, (), free_irq 1 1 s) else (0, (), s))"

definition atomic_exit :: "kworld \<Rightarrow> kworld" where
  "atomic_exit s = free_irq 1 1 (free_irq 12 1 s)"

interpretation atomic_mod: module_lifecycle "\<lambda>_. atomic_init" "\<lambda>_. atomic_exit" "\<lambda>_. {#Irq 1 1, Irq 12 1#}"
  by unfold_locales (auto simp: atomic_init_def atomic_exit_def kernel_simps Let_def split: if_splits)

text \<open>The value a handler is about to store or has stored, at most what was done before it.\<close>

definition stored :: "counters \<Rightarrow> nat" where
  "stored y = of_bool (h_pc y Key = Stored) + of_bool (h_pc y Mouse = Stored)"

definition counters_inv :: "counters \<Rightarrow> bool" where
  "counters_inv y \<longleftrightarrow> irq_sum y = of_nat (handled y) \<and>
     (\<exists>n. irqs y = of_nat n \<and> n \<le> handled y + stored y \<and>
       (\<forall>h v. h_pc y h = Loaded v \<longrightarrow> (\<exists>m. v = of_nat m \<and> m \<le> handled y + stored y)))"

lemma counters_inv_step:
  assumes "irq_step y z" "counters_inv y"
  shows "counters_inv z"
  using assms
proof (induction rule: irq_step.induct)
  case (h_load y h)
  have "stored (y\<lparr>h_pc := (h_pc y)(h := Loaded (irqs y))\<rparr>) = stored y"
    using h_load(1) by (cases h) (simp_all add: stored_def)
  with h_load show ?case by (auto simp: counters_inv_def)
next
  case (h_store y h v)
  then obtain m where m: "v = of_nat m" "m \<le> handled y + stored y" by (auto simp: counters_inv_def)
  let ?z = "y\<lparr>irqs := v + 1, h_pc := (h_pc y)(h := Stored)\<rparr>"
  have "stored ?z = Suc (stored y)" using h_store(1) by (cases h) (simp_all add: stored_def)
  moreover have "v + 1 = of_nat (Suc m)" using m(1) by simp
  moreover have "\<exists>m. w = of_nat m \<and> m \<le> handled y + Suc (stored y)" if "h_pc y l = Loaded w" for l w
    using that h_store(2) by (auto simp: counters_inv_def) (meson add_mono le_SucI le_refl)
  ultimately show ?case
    using h_store(2) m unfolding counters_inv_def
    by (intro conjI exI [of _ "Suc m"]) (auto simp del: of_nat_Suc)
next
  case (h_inc y h)
  let ?z = "y\<lparr>irq_sum := irq_sum y + 1, h_pc := (h_pc y)(h := Idle), handled := Suc (handled y)\<rparr>"
  have "stored y = Suc (stored ?z)" using h_inc(1) by (cases h) (simp_all add: stored_def)
  with h_inc show ?case by (auto simp: counters_inv_def)
qed

text \<open>
  Whenever both handlers have returned the atomic counter is exact, and the plain one never too big; it may
  be too small, since an update is lost when both load the same value.
\<close>

lemma counters_reachable:
  assumes "irq_step\<^sup>*\<^sup>* counters_init y" "h_pc y Key = Idle" "h_pc y Mouse = Idle" "handled y < 2 ^ 32"
  shows "unat (irq_sum y) = handled y" "unat (irqs y) \<le> handled y"
proof -
  from assms(1) have "counters_inv y"
    by (induction rule: rtranclp_induct)
      (auto simp: counters_inv_step, simp add: counters_inv_def counters_init_def stored_def)
  then obtain n where n: "irq_sum y = of_nat (handled y)" "irqs y = of_nat n" "n \<le> handled y"
    using assms(2,3) by (auto simp: counters_inv_def stored_def)
  then show "unat (irq_sum y) = handled y" "unat (irqs y) \<le> handled y"
    using assms(4) by (simp_all add: unat_of_nat)
qed

lemma plain_counter_loses:
  "\<exists>y. irq_step\<^sup>*\<^sup>* counters_init y \<and> (\<forall>h. h_pc y h = Idle) \<and> handled y = 2 \<and> irq_sum y = 2 \<and> irqs y = 1"
proof -
  let ?a = "counters_init\<lparr>h_pc := (h_pc counters_init)(Key := Loaded 0)\<rparr>"
  let ?b = "?a\<lparr>h_pc := (h_pc ?a)(Mouse := Loaded 0)\<rparr>"
  let ?c = "?b\<lparr>irqs := 0 + 1, h_pc := (h_pc ?b)(Key := Stored)\<rparr>"
  let ?d = "?c\<lparr>irqs := 0 + 1, h_pc := (h_pc ?c)(Mouse := Stored)\<rparr>"
  let ?e = "?d\<lparr>irq_sum := irq_sum ?d + 1, h_pc := (h_pc ?d)(Key := Idle), handled := Suc (handled ?d)\<rparr>"
  let ?f = "?e\<lparr>irq_sum := irq_sum ?e + 1, h_pc := (h_pc ?e)(Mouse := Idle), handled := Suc (handled ?e)\<rparr>"
  have 1: "irq_step counters_init ?a" using h_load [of counters_init Key] by (simp add: counters_init_def)
  have 2: "irq_step ?a ?b" using h_load [of ?a Mouse] by (simp add: counters_init_def)
  have 3: "irq_step ?b ?c" by (rule h_store) simp
  have 4: "irq_step ?c ?d" by (rule h_store) simp
  have 5: "irq_step ?d ?e" by (rule h_inc) simp
  have 6: "irq_step ?e ?f" by (rule h_inc) simp
  note c = converse_rtranclp_into_rtranclp
  have "irq_step\<^sup>*\<^sup>* counters_init ?f"
    by (rule c [OF 1 c [OF 2 c [OF 3 c [OF 4 c [OF 5 r_into_rtranclp [of irq_step, OF 6]]]]]])
  moreover have "\<forall>h. h_pc ?f h = Idle" using line.exhaust by (auto simp: counters_init_def)
  ultimately show ?thesis by (intro exI [of _ ?f]) (simp add: counters_init_def)
qed

end
