(* ===== verification/Small_Mods.thy ===== *)
theory Small_Mods
  imports Interfaces
begin

text \<open>
  The memory demonstrations \<open>memory/my_kmalloc.c\<close>, \<open>my_vmalloc.c\<close>, \<open>my_page1.c\<close>, \<open>my_kmap.c\<close> and the tasklet
  demonstration \<open>interrupt/my_tasklet.c\<close>.
\<close>

subsection \<open>Allocating when loaded\<close>

text \<open>The content of the allocated memory is never used, so \<open>kmalloc\<close> is logged as the zeroing allocation.\<close>

definition kmalloc_init :: "nat \<Rightarrow> addr \<Rightarrow> kworld \<Rightarrow> int \<times> addr \<times> kworld" where
  "kmalloc_init order buf s =
     (let (buf, s) = kzalloc (Bytes (push_bit order 1 - 1)) s
      in if buf = 0 then (- ENOMEM, buf, s) else (0, buf, s))"

definition kmalloc_exit :: "addr \<Rightarrow> kworld \<Rightarrow> kworld" where
  "kmalloc_exit buf s = kfree buf s"

interpretation kmalloc_mod: module_lifecycle "kmalloc_init order" kmalloc_exit mem_res for order
  by unfold_locales (auto simp: kmalloc_init_def kmalloc_exit_def kernel_simps Let_def split: if_splits)

definition page1_init :: "addr \<Rightarrow> kworld \<Rightarrow> int \<times> addr \<times> kworld" where
  "page1_init buf s =
     (let (buf, s) = obtain_obj ''alloc_pages'' ''pages'' s
      in if buf = 0 then (- ENOMEM, buf, s) else (0, buf, s))"

definition page1_exit :: "addr \<Rightarrow> kworld \<Rightarrow> kworld" where
  "page1_exit buf s = giveback_obj ''__free_pages'' ''pages'' buf s"

interpretation page1_mod: module_lifecycle page1_init page1_exit "\<lambda>buf. mset (objs ''pages'' buf)"
  by unfold_locales (auto simp: page1_init_def page1_exit_def kernel_simps Let_def split: if_splits)

text \<open>
  A mapping of \<open>kmap\<close> belongs to its page, and \<open>kunmap\<close> expects the page; \<open>my_exit\<close> passes the address of
  the mapping. The globals are the page and the address.
\<close>

definition kmap_init :: "addr \<times> addr \<Rightarrow> kworld \<Rightarrow> int \<times> (addr \<times> addr) \<times> kworld" where
  "kmap_init g s =
     (let (buf, s) = obtain_obj ''alloc_pages'' ''pages'' s in
      if buf = 0 then (- ENOMEM, (buf, snd g), s)
      else
        let (kmap_buf, s) = (ask s, answered (Obtain ''kmap'' [Obj ''kmap'' buf]) s)
        in (0, (buf, kmap_buf), s))"

definition kmap_exit :: "addr \<times> addr \<Rightarrow> kworld \<Rightarrow> kworld" where
  "kmap_exit g s =
     giveback_obj ''__free_pages'' ''pages'' (fst g) (giveback_obj ''kunmap'' ''kmap'' (snd g) s)"

lemma kmap_unload:
  assumes "resources s = Some H" "kmap_init g s = (0, (buf, kmap_buf), s')" "kmap_buf \<noteq> 0" "Obj ''kmap'' kmap_buf \<notin># H"
  shows "resources s' = Some (H + {#Obj ''pages'' buf, Obj ''kmap'' buf#})"
    and "resources (kmap_exit (buf, kmap_buf) s') = (if kmap_buf = buf then Some H else None)"
  using assms
  by (auto simp: kmap_init_def kmap_exit_def kernel_simps objs_def kstep_def Let_def split: if_splits)

subsection \<open>Filling a buffer of the kernel's virtual memory\<close>

text \<open>\<open>vmalloc\<close> allocates whole pages.\<close>

definition page_align :: "nat \<Rightarrow> nat" where
  "page_align n = 4096 * ((n + 4095) div 4096)"

fun poke_all :: "nat list \<Rightarrow> byte list \<Rightarrow> byte list option" where
  "poke_all [] mem = Some mem"
| "poke_all (i # is) mem = (if i < length mem then poke_all is (mem[i := 0x5a]) else None)"

text \<open>The size asked for is one less than what is filled. The result has the buffer's content.\<close>

definition vmalloc_init :: "(nat \<Rightarrow> nat) \<Rightarrow> nat \<Rightarrow> kworld \<Rightarrow> (int \<times> addr \<times> byte list \<times> kworld) option" where
  "vmalloc_init alloc_size order s =
     (let (buf, s) = obtain_obj ''vmalloc'' ''vm'' s in
      if buf = 0 then Some (- ENOMEM, buf, [], s)
      else do {
        mem \<leftarrow> poke_all [0..<2 ^ order] (replicate (alloc_size (2 ^ order - 1)) 0);
        Some (0, buf, mem, s)
      })"

definition vmalloc_exit :: "addr \<Rightarrow> kworld \<Rightarrow> kworld" where
  "vmalloc_exit buf s = giveback_obj ''vfree'' ''vm'' buf s"

lemma poke_all_upt:
  "i \<le> n \<Longrightarrow> poke_all [i..<n] mem = (if n \<le> length mem \<or> i = n
     then Some (take i mem @ replicate (n - i) 0x5a @ drop n mem) else None)"
proof (induction "n - i" arbitrary: i mem)
  case (Suc k)
  then have i: "[i..<n] = i # [Suc i..<n]" "Suc i \<le> n" "k = n - Suc i" "n - i = Suc (n - Suc i)"
    by (auto simp: upt_conv_Cons)
  show ?case
  proof (cases "i < length mem")
    case True
    from Suc.hyps(1) [OF i(3,2), of "mem[i := 0x5a]"] True i show ?thesis
      by (auto simp: take_Suc_conv_app_nth drop_update_cancel)
  next
    case False
    with i show ?thesis by auto
  qed
qed simp

text \<open>
  Measured by the size that was asked for, the loop writes one byte too many; the pages that are really
  there always hold it, for every order that asks for anything at all.
\<close>

lemma vmalloc_one_too_many:
  assumes "ask s \<noteq> 0"
  shows "vmalloc_init (\<lambda>n. n) order s = None"
proof -
  have "\<not> 2 ^ order \<le> (2 ^ order - 1 :: nat)" by (simp add: not_le)
  then show ?thesis using assms poke_all_upt [of 0 "2 ^ order" "replicate (2 ^ order - 1) 0"]
    by (simp add: vmalloc_init_def obtain_obj_def)
qed

lemma vmalloc_fits:
  assumes "0 < order"
  shows "2 ^ order \<le> page_align (2 ^ order - 1)"
proof (cases "order \<le> 12")
  case True
  then have "(2 :: nat) ^ order \<le> 2 ^ 12" by (rule power_increasing) simp
  moreover have "(2 :: nat) \<le> 2 ^ order" using assms power_increasing [of 1 order "2 :: nat"] by simp
  then have "4096 \<le> page_align (2 ^ order - 1)" by (simp add: page_align_def)
  ultimately show ?thesis by simp
next
  case False
  then obtain k where k: "order = 12 + k" "0 < k" by (metis le_Suc_ex less_imp_le_nat linorder_not_le add_0_right neq0_conv)
  have "(2 :: nat) ^ order = 4096 * 2 ^ k" by (simp add: k(1) power_add)
  moreover have "page_align (4096 * 2 ^ k - 1) = 4096 * 2 ^ k"
  proof -
    have "(4096 * 2 ^ k - 1 + 4095) div 4096 = (2 ^ k :: nat)"
      using one_le_power [of "2 :: nat" k] by (simp add: div_nat_eqI)
    then show ?thesis by (simp add: page_align_def)
  qed
  ultimately show ?thesis by simp
qed

lemma vmalloc_init_pages:
  assumes "0 < order" "ask s \<noteq> 0"
  shows "\<exists>rest s'. vmalloc_init page_align order s = Some (0, ask s, replicate (2 ^ order) 0x5a @ rest, s') \<and>
    resources s' = resources s \<bind> kstep (Obtain ''vmalloc'' [Obj ''vm'' (ask s)])"
  using assms poke_all_upt [of 0 "2 ^ order" "replicate (page_align (2 ^ order - 1)) 0"] vmalloc_fits [OF assms(1)]
  by (simp add: vmalloc_init_def kernel_simps objs_def)

subsection \<open>A tasklet\<close>

text \<open>
  The handler of the interrupt schedules the tasklet; both print where they run. What they print of the
  context is modelled, the addresses of stacks are not.
\<close>

definition context_lines :: "string \<Rightarrow> bool \<Rightarrow> bool \<Rightarrow> string list" where
  "context_lines f in_interrupt in_irq =
     (let context1 = (if in_interrupt then ''interrupt'' else ''task'');
          context2 = (if in_irq then ''upper'' else ''bottom'')
      in (''In '' @ f @ '', context is '' @ context1) #
         (if in_interrupt then [''In '' @ context2 @ '' interrupt context''] else []))"

definition tasklet_func :: "string list" where
  "tasklet_func = context_lines ''tasklet_func'' True False"

definition tasklet_irq :: "bool \<times> string list" where
  "tasklet_irq = (True, context_lines ''interrupt_func'' True True)"

definition tasklet_mod_init :: "kworld \<Rightarrow> int \<times> unit \<times> kworld" where
  "tasklet_mod_init s =
     (let (ret, s) = request_irq 12 1 s
      in if ret \<noteq> 0 then (- 1, (), s) else (0, (), call (Plain ''tasklet_init'' 5) s))"

definition tasklet_mod_exit :: "kworld \<Rightarrow> kworld" where
  "tasklet_mod_exit s = free_irq 12 1 s"

interpretation tasklet_mod: module_lifecycle "\<lambda>_. tasklet_mod_init" "\<lambda>_. tasklet_mod_exit" "\<lambda>_. {#Irq 12 1#}"
  by unfold_locales (auto simp: tasklet_mod_init_def tasklet_mod_exit_def kdefs ksimps Let_def split: if_splits)

text \<open>
  Loaded or not, handler installed, tasklet initialised, tasklet scheduled. A tasklet that is scheduled
  already is not scheduled again. The kernel crashes when it runs a tasklet that was never initialised or
  whose module has gone.
\<close>

record tsys =
  t_loaded :: bool
  t_irq :: bool
  t_init :: bool
  t_sched :: bool

inductive tasklet_step :: "tsys option \<Rightarrow> tsys option \<Rightarrow> bool" where
  t_request: "\<not> t_loaded y \<Longrightarrow> \<not> t_sched y \<Longrightarrow>
    tasklet_step (Some y) (Some (y\<lparr>t_loaded := True, t_irq := True, t_init := False\<rparr>))"
| t_initialise: "t_irq y \<Longrightarrow> \<not> t_init y \<Longrightarrow> tasklet_step (Some y) (Some (y\<lparr>t_init := True, t_sched := False\<rparr>))"
| t_interrupt: "t_irq y \<Longrightarrow> fst tasklet_irq \<Longrightarrow> tasklet_step (Some y) (Some (y\<lparr>t_sched := True\<rparr>))"
| t_run: "t_sched y \<Longrightarrow> t_loaded y \<Longrightarrow> t_init y \<Longrightarrow> tasklet_step (Some y) (Some (y\<lparr>t_sched := False\<rparr>))"
| t_crash: "t_sched y \<Longrightarrow> \<not> (t_loaded y \<and> t_init y) \<Longrightarrow> tasklet_step (Some y) None"
| t_unload: "t_init y \<Longrightarrow> tasklet_step (Some y) (Some (y\<lparr>t_loaded := False, t_irq := False, t_init := False\<rparr>))"

text \<open>
  The handler is installed exactly while the module is loaded, so nothing schedules the tasklet after the
  removal; what was scheduled before it, though, still runs.
\<close>

lemma tasklet_irq_loaded:
  assumes "tasklet_step\<^sup>*\<^sup>* (Some \<lparr>t_loaded = False, t_irq = False, t_init = False, t_sched = False\<rparr>) (Some y)"
  shows "(t_irq y \<longleftrightarrow> t_loaded y) \<and> (t_init y \<longrightarrow> t_loaded y)"
proof -
  have "case z of None \<Rightarrow> True | Some y \<Rightarrow> (t_irq y \<longleftrightarrow> t_loaded y) \<and> (t_init y \<longrightarrow> t_loaded y)"
    if "tasklet_step\<^sup>*\<^sup>* (Some \<lparr>t_loaded = False, t_irq = False, t_init = False, t_sched = False\<rparr>) z" for z
    using that
  proof (induction rule: rtranclp_induct)
    case (step y z)
    from step(2,3) show ?case by (induction rule: tasklet_step.induct) auto
  qed simp
  from this [OF assms] show ?thesis by simp
qed

lemma tasklet_after_unload:
  "tasklet_step\<^sup>*\<^sup>* (Some \<lparr>t_loaded = False, t_irq = False, t_init = False, t_sched = False\<rparr>) None"
proof -
  note s = t_request [of "\<lparr>t_loaded = False, t_irq = False, t_init = False, t_sched = False\<rparr>", simplified]
    t_initialise [of "\<lparr>t_loaded = True, t_irq = True, t_init = False, t_sched = False\<rparr>", simplified]
    t_interrupt [of "\<lparr>t_loaded = True, t_irq = True, t_init = True, t_sched = False\<rparr>", simplified tasklet_irq_def, simplified]
    t_unload [of "\<lparr>t_loaded = True, t_irq = True, t_init = True, t_sched = True\<rparr>", simplified]
    t_crash [of "\<lparr>t_loaded = False, t_irq = False, t_init = False, t_sched = True\<rparr>", simplified]
  note c = converse_rtranclp_into_rtranclp
  show ?thesis
    by (rule c [OF s(1) c [OF s(2) c [OF s(3) c [OF s(4) r_into_rtranclp [of tasklet_step, OF s(5)]]]]])
qed

end
