(* ===== verification/Odd_Mods.thy ===== *)
theory Odd_Mods
  imports Interfaces
begin

text \<open>
  Two modules of which only loading and unloading are complete: the exercise \<open>protect/my_mutex.c\<close>, whose read and
  write still report success without moving a byte, and \<open>debug/wrong_stack_sample.c\<close>, which starts a thread that
  crashes the kernel on purpose.
\<close>

subsection \<open>The mutex exercise\<close>

abbreviation (input) BUF_LEN :: int where "BUF_LEN \<equiv> 100"

record mdev =
  m_start :: addr
  m_end :: addr
  m_wp :: addr
  m_rp :: addr
  my_sem :: nat

record mglobals =
  m_major :: "32 word"
  m_dev :: addr
  m_the_dev :: mdev

definition mutex_open :: "inode \<Rightarrow> kfile \<Rightarrow> int \<times> kfile" where
  "mutex_open inode filp = (0, filp\<lparr>private_data := i_cdev inode\<rparr>)"

text \<open>The device, the bytes that reach the process, the position: a read changes none of them.\<close>

definition mutex_read :: "mdev \<Rightarrow> int \<Rightarrow> int \<Rightarrow> int \<times> int \<times> byte list \<times> mdev" where
  "mutex_read priv cnt pos = (cnt, pos, [], priv)"

definition mutex_write :: "mdev \<Rightarrow> (nat \<Rightarrow> byte) \<Rightarrow> int \<Rightarrow> int \<Rightarrow> int \<times> int \<times> mdev" where
  "mutex_write priv buf cnt pos = (cnt, pos, priv)"

definition mutex_init :: "mglobals \<Rightarrow> kworld \<Rightarrow> int \<times> mglobals \<times> kworld" where
  "mutex_init g s =
     (let (p, s) = kzalloc (Sizeof ''mydev'') s; g = g\<lparr>m_dev := p\<rparr> in
      if p = 0 then (- ENOMEM, g, s)
      else let (b, s) = kzalloc (Bytes BUF_LEN) s in
      if b = 0 then (- ENOMEM, g, kfree p s)
      else let
        g = g\<lparr>m_the_dev := \<lparr>m_start = b, m_end = b + BUF_LEN, m_wp = b, m_rp = b, my_sem = 1\<rparr>\<rparr>;
        (ret, dev_num, g, s) =
          (if m_major g \<noteq> 0 then
             let dev_num = MKDEV (m_major g) 0; (ret, s) = register_chrdev_region dev_num 20 s
             in (ret, dev_num, g, s)
           else
             let (ret, dev_num, s) = alloc_chrdev_region 0 20 s
             in (ret, dev_num, g\<lparr>m_major := MAJOR dev_num\<rparr>, s))
      in if ret \<noteq> 0 then (- 1, g, kfree p (kfree b s))
      else (0, g, cdev_add p dev_num 1 s))"

definition mutex_exit :: "mglobals \<Rightarrow> kworld \<Rightarrow> kworld" where
  "mutex_exit g s =
     (let dev_num = MKDEV (m_major g) 0;
        s = cdev_del (m_dev g) s;
        s = unregister_chrdev_region dev_num 20 s;
        s = kfree (m_start (m_the_dev g)) s
      in kfree (m_dev g) s)"

definition mutex_owns :: "mglobals \<Rightarrow> res multiset" where
  "mutex_owns g = mem_res (m_dev g) + mem_res (m_start (m_the_dev g)) +
     {#Region (MKDEV (m_major g) 0) 20, Cdev (m_dev g)#}"

interpretation mutex_mod: module_lifecycle mutex_init mutex_exit mutex_owns
proof (unfold_locales, goal_cases)
  case (1 s H g r g' s')
  then show ?case by (auto simp: mutex_init_def kernel_simps Let_def split: if_splits)
next
  case (2 s H g r g' s')
  then show ?case by (auto simp: mutex_init_def mutex_owns_def kernel_simps Let_def split: if_splits)
next
  case (3 s H g)
  then show ?case by (auto simp: mutex_exit_def mutex_owns_def kernel_simps Let_def)
qed

text \<open>
  As they stand, the operations promise what they do not do: every byte a process writes is reported as
  taken, and none is ever delivered to a reader that is told it got as many as it asked for.
\<close>

lemma mutex_loses_bytes:
  assumes "mutex_write d buf n pos = (r, pos', d')" "mutex_read d' n pos' = (r', pos'', out, d'')" "0 < n"
  shows "r = n" "r' = n" "int (length out) < r'" "d'' = d"
  using assms by (auto simp: mutex_write_def mutex_read_def)

subsection \<open>The thread that crashes\<close>

text \<open>
  \<open>kthread_create\<close> reports a failure by an error pointer, never by \<open>NULL\<close>. Waking up an error pointer is \<open>None\<close>. The removal
  does nothing.
\<close>

definition stack_init :: "kworld \<Rightarrow> (int \<times> addr \<times> kworld) option" where
  "stack_init s =
     (let t = ask s; s = answered (Obtain ''kthread_create'' (if IS_ERR t \<or> t = 0 then [] else [Obj ''kthread'' t])) s in
      if t \<noteq> 0 then (if IS_ERR t then None else Some (0, t, s)) else Some (0, t, s))"

definition stack_exit :: "addr \<Rightarrow> kworld \<Rightarrow> kworld" where
  "stack_exit t s = s"

text \<open>The check for \<open>NULL\<close> catches nothing, and the thread is never stopped.\<close>

lemma stack_init_oops: "stack_init s = None \<longleftrightarrow> IS_ERR (ask s)"
  by (auto simp: stack_init_def Let_def IS_ERR_def)

lemma stack_leaves_thread:
  assumes "stack_init s = Some (r, t, s')" "ask s \<noteq> 0" "resources s = Some H"
  shows "resources (stack_exit t s') = Some (H + {#Obj ''kthread'' t#})"
  using assms by (auto simp: stack_init_def stack_exit_def Let_def kernel_simps split: if_splits)

end
