(* ===== verification/Io_Port.thy ===== *)
theory Io_Port
  imports Interfaces
begin

text \<open>
  The register readers of \<open>io/my_ioport.c\<close> and \<open>io/my_ioport2.c\<close>: a character device whose read
  method copies 32-bit port registers to the user. The first reads them with \<open>inl\<close> and keeps its
  state in globals, the second maps the ports and keeps it in an allocated structure.

  What a register answers is a parameter, a function of the ports read before in the same call and
  of the port. The buffer is declared \<open>unsigned long *\<close>; the size \<open>wl\<close> of that type, 4 or 8, is a
  parameter too, because the buffer is allocated in bytes and filled by elements.
\<close>

subsection \<open>Reading\<close>

definition my_open :: "addr \<Rightarrow> kfile \<Rightarrow> int \<times> kfile" where
  "my_open port filp = (0, filp\<lparr>private_data := port\<rparr>)"

definition my_open2 :: "addr \<Rightarrow> kfile \<Rightarrow> int \<times> kfile" where
  "my_open2 dev filp = (0, filp\<lparr>private_data := dev\<rparr>)"

text \<open>The bytes of an \<open>unsigned long\<close> that holds a 32-bit value, least significant first.\<close>

definition reg_bytes :: "32 word \<Rightarrow> byte list" where
  "reg_bytes w = map (\<lambda>k. ucast (drop_bit (8 * k) w)) [0..<4]"

definition long_bytes :: "nat \<Rightarrow> 32 word \<Rightarrow> byte list" where
  "long_bytes wl w = reg_bytes w @ replicate (wl - 4) 0"

type_synonym ports = "int list \<Rightarrow> int \<Rightarrow> 32 word"

text \<open>The loop: the buffer with the elements from \<open>i / 4\<close> on filled, and the ports read.\<close>

function fill_loop :: "nat \<Rightarrow> ports \<Rightarrow> int \<Rightarrow> nat \<Rightarrow> nat \<Rightarrow> byte list \<Rightarrow> int list \<Rightarrow> (byte list \<times> int list) option" where
  "fill_loop wl rd base cnt i kbuf h =
     (if i < cnt then do {
        let p = base + int i;
        kbuf \<leftarrow> store 0 kbuf (int (wl * (i div 4))) (long_bytes wl (rd h p));
        fill_loop wl rd base cnt (i + 4) kbuf (h @ [p])
      } else Some (kbuf, h))"
  by pat_completeness auto

termination
  by (relation "measure (\<lambda>(wl, rd, base, cnt, i, kbuf, h). cnt - i)") auto

declare fill_loop.simps [simp del]

definition my_read :: "nat \<Rightarrow> ports \<Rightarrow> int \<Rightarrow> int \<Rightarrow> int \<Rightarrow> int \<Rightarrow> kworld \<Rightarrow>
    (int \<times> int \<times> byte list \<times> int list \<times> kworld) option" where
  "my_read wl inl port port_size cnt pos s =
     (if cnt mod 4 \<noteq> 0 then Some (- 1, pos, [], [], s)
      else
        let cnt = min cnt (size_t (port_size - pos)) in
        if cnt = 0 then Some (cnt, pos, [], [], s)
        else
          let (p, s) = kzalloc (Bytes cnt) s in
          if p = 0 then Some (- ENOMEM, pos, [], [], s)
          else do {
            (kbuf, h) \<leftarrow> fill_loop wl inl (port + pos) (nat cnt) 0 (replicate (nat cnt) 0) [];
            let (r, out, s) = copy_to_user kbuf s in
            if r \<noteq> 0 then Some (- EFAULT, pos, out, h, kfree p s)
            else Some (cnt, pos + cnt, out, h, kfree p s)
          })"

text \<open>The second driver runs the loop twice over the same buffer.\<close>

definition my_read2 :: "nat \<Rightarrow> ports \<Rightarrow> addr \<Rightarrow> int \<Rightarrow> int \<Rightarrow> int \<Rightarrow> kworld \<Rightarrow>
    (int \<times> int \<times> byte list \<times> int list \<times> kworld) option" where
  "my_read2 wl ioread32 vir_addr port_size cnt pos s =
     (if cnt mod 4 \<noteq> 0 then Some (- 1, pos, [], [], s)
      else
        let cnt = min cnt (size_t (port_size - pos)) in
        if cnt = 0 then Some (cnt, pos, [], [], s)
        else
          let (p, s) = kzalloc (Bytes cnt) s in
          if p = 0 then Some (- ENOMEM, pos, [], [], s)
          else do {
            (kbuf, h) \<leftarrow> fill_loop wl ioread32 (vir_addr + pos) (nat cnt) 0 (replicate (nat cnt) 0) [];
            (kbuf, h) \<leftarrow> fill_loop wl ioread32 (vir_addr + pos) (nat cnt) 0 kbuf h;
            let (r, out, s) = copy_to_user kbuf s in
            if r \<noteq> 0 then Some (- EFAULT, pos, out, h, kfree p s)
            else Some (cnt, pos + cnt, out, h, kfree p s)
          })"

subsection \<open>Loading and unloading\<close>

text \<open>The first driver: the globals are the region it got, if any, and the static \<open>cdev\<close> (address 1).\<close>

definition port_region :: "addr \<Rightarrow> res list" where
  "port_region r = objs ''ioregion'' r"

definition my_init :: "addr \<Rightarrow> kworld \<Rightarrow> int \<times> addr \<times> kworld" where
  "my_init res s =
     (let (res, s) = obtain_obj ''request_region'' ''ioregion'' s;
          (ret, s) = register_chrdev_region (MKDEV 60 0) 1 s in
      if ret \<noteq> 0 then
        (- 1, res, if res \<noteq> 0 then giveback_obj ''release_region'' ''ioregion'' res s else s)
      else (0, res, cdev_add 1 (MKDEV 60 0) 1 s))"

definition my_exit :: "addr \<Rightarrow> kworld \<Rightarrow> kworld" where
  "my_exit res s =
     (let s = unregister_chrdev_region (MKDEV 60 0) 1 (cdev_del 1 s)
      in if res \<noteq> 0 then giveback_obj ''release_region'' ''ioregion'' res s else s)"

text \<open>The second driver: the structure it allocates. It unmaps only when there is no mapping.\<close>

record pdev =
  p_dev :: addr
  p_res :: addr
  p_vir_addr :: addr

definition release_ports :: "pdev \<Rightarrow> kworld \<Rightarrow> kworld" where
  "release_ports d s =
     (let s = (if p_res d \<noteq> 0 then giveback_obj ''release_region'' ''ioregion'' (p_res d) s else s)
      in if p_vir_addr d = 0 then giveback_obj ''iounmap'' ''iomap'' (p_vir_addr d) s else s)"

definition my_init2 :: "pdev \<Rightarrow> kworld \<Rightarrow> int \<times> pdev \<times> kworld" where
  "my_init2 d s =
     (let (p, s) = kzalloc (Sizeof ''mydev'') s; d = d\<lparr>p_dev := p\<rparr> in
      if p = 0 then (- ENOMEM, d, s)
      else
        let (res, s) = obtain_obj ''request_region'' ''ioregion'' s;
            (vir, s) = obtain_obj ''ioport_map'' ''iomap'' s;
            d = d\<lparr>p_res := res, p_vir_addr := vir\<rparr>;
            (ret, s) = register_chrdev_region (MKDEV 60 0) 1 s in
        if ret \<noteq> 0 then (- 1, d, release_ports d s)
        else (0, d, cdev_add p (MKDEV 60 0) 1 s))"

definition my_exit2 :: "pdev \<Rightarrow> kworld \<Rightarrow> kworld" where
  "my_exit2 d s = release_ports d (unregister_chrdev_region (MKDEV 60 0) 1 (cdev_del (p_dev d) s))"

subsection \<open>What the loop does\<close>

lemma length_reg_bytes [simp]: "length (reg_bytes w) = 4"
  by (simp add: reg_bytes_def)

lemma length_long_bytes [simp]: "4 \<le> wl \<Longrightarrow> length (long_bytes wl w) = wl"
  by (simp add: long_bytes_def)

text \<open>The ports of a request, and their answers one after the other.\<close>

definition port_seq :: "int \<Rightarrow> nat \<Rightarrow> int list" where
  "port_seq base n = map (\<lambda>k. base + 4 * int k) [0..<n]"

fun port_data :: "ports \<Rightarrow> int list \<Rightarrow> int list \<Rightarrow> byte list" where
  "port_data rd h [] = []"
| "port_data rd h (p # ps) = reg_bytes (rd h p) @ port_data rd (h @ [p]) ps"

lemma length_port_data [simp]: "length (port_data rd h ps) = 4 * length ps"
  by (induction ps arbitrary: h) simp_all

lemma port_seq_Suc: "port_seq base (Suc n) = base # port_seq (base + 4) n"
  by (simp add: port_seq_def upt_conv_Cons map_Suc_upt [symmetric] del: upt_Suc)

text \<open>With four-byte elements the loop fills the buffer with the answers of the ports of the request.\<close>

lemma fill_loop_4:
  assumes "i = 4 * k" "cnt = 4 * (k + n)" "length kbuf = cnt"
  shows "fill_loop 4 rd base cnt i kbuf h =
    Some (take i kbuf @ port_data rd h (port_seq (base + int i) n), h @ port_seq (base + int i) n)"
  using assms
proof (induction n arbitrary: i k kbuf h)
  case 0
  then show ?case by (subst fill_loop.simps) (simp add: port_seq_def)
next
  case (Suc n)
  let ?new = "overwrite kbuf i (reg_bytes (rd h (base + int i)))"
  have st: "store 0 kbuf (int (4 * (i div 4))) (long_bytes 4 (rd h (base + int i))) = Some ?new"
    using Suc.prems by (simp add: store_eq_Some long_bytes_def nat_mult_distrib)
  have "take (i + 4) ?new = take i kbuf @ reg_bytes (rd h (base + int i))"
    using take_overwrite_through [of i kbuf "reg_bytes (rd h (base + int i))"] Suc.prems by simp
  moreover have "fill_loop 4 rd base cnt (i + 4) ?new (h @ [base + int i]) =
      Some (take (i + 4) ?new @ port_data rd (h @ [base + int i]) (port_seq (base + int (i + 4)) n),
        (h @ [base + int i]) @ port_seq (base + int (i + 4)) n)"
    using Suc.prems by (intro Suc.IH [of _ "Suc k"]) (simp_all add: )
  ultimately show ?case
    using Suc.prems st
    by (subst fill_loop.simps) (simp add: port_seq_Suc add.assoc add.commute [of 4] Let_def)
qed

text \<open>With eight-byte elements the loop always leaves the buffer, whose size counts four per element.\<close>

lemma fill_loop_8:
  assumes "4 dvd i" "4 dvd cnt" "i < cnt" "length kbuf = cnt"
  shows "fill_loop 8 rd base cnt i kbuf h = None"
  using assms
proof (induction "8 :: nat" rd base cnt i kbuf h rule: fill_loop.induct)
  case (1 rd base cnt i kbuf h)
  let ?w = "long_bytes 8 (rd h (base + int i))"
  show ?case
  proof (cases "store 0 kbuf (int (8 * (i div 4))) ?w")
    case None
    then show ?thesis using 1(4) by (subst fill_loop.simps) simp
  next
    case (Some kbuf')
    then have in_buf: "2 * i + 8 \<le> cnt" and len: "length kbuf' = cnt"
      using 1(2,5) by (auto simp: store_def dvd_def split: if_splits)
    have "i + 4 < cnt" using in_buf 1(4) by (cases "i = 0") auto
    then have "fill_loop 8 rd base cnt (i + 4) kbuf' (h @ [base + int i]) = None"
      using 1(1) [OF 1(4) refl, of kbuf'] 1(2,3) len Some by simp
    then show ?thesis using Some 1(4) by (subst fill_loop.simps) (simp add: Let_def)
  qed
qed

subsection \<open>Reading through the device\<close>

text \<open>
  On a machine with 32-bit longs a request inside the window gets the answers of the registers of the
  request, each read once in order, and moves the position by what was read; on a failure the position
  stays. The second driver reads every register twice and returns the second answers.
\<close>

lemma request_size:
  assumes "0 \<le> pos" "pos \<le> port_size" "port_size < 2 ^ 64" "port_size mod 4 = 0" "pos mod 4 = 0"
    "0 \<le> cnt" "cnt mod 4 = 0" "n = nat (min cnt (port_size - pos) div 4)"
  shows "min cnt (size_t (port_size - pos)) = 4 * int n" "4 * int n \<le> port_size - pos"
proof -
  define c where "c = min cnt (port_size - pos)"
  have c: "0 \<le> c" "4 dvd c" using assms(1-7) by (auto simp: c_def min_def)
  then have c4: "c = 4 * int n" using assms(8) by (auto simp: c_def [symmetric] elim!: dvdE)
  show "min cnt (size_t (port_size - pos)) = 4 * int n" "4 * int n \<le> port_size - pos"
    using assms(1-3) by (simp_all add: c4 [symmetric] c_def)
qed

lemma fill_buffer:
  assumes "length kbuf = 4 * n"
  shows "fill_loop 4 rd base (nat (4 * int n)) 0 kbuf h = Some (port_data rd h (port_seq base n), h @ port_seq base n)"
proof -
  have "nat (4 * int n) = 4 * n" by simp
  then show ?thesis using fill_loop_4 [of 0 0 "4 * n" n kbuf rd base h] assms by simp
qed

lemma fill_new_buffer:
  "fill_loop 4 rd base (nat (4 * int n)) 0 (replicate (nat (4 * int n)) 0) h =
   Some (port_data rd h (port_seq base n), h @ port_seq base n)"
  by (rule fill_buffer) simp

lemma my_read_32:
  assumes "0 \<le> pos" "pos \<le> port_size" "port_size < 2 ^ 64" "port_size mod 4 = 0" "pos mod 4 = 0"
    "0 \<le> cnt" "cnt mod 4 = 0" "n = nat (min cnt (port_size - pos) div 4)" "0 < n" "ask s \<noteq> 0"
    "answers s (Suc (ncalls s)) = 0" "ps = port_seq (port + pos) n"
  shows "\<exists>s'. my_read 4 inl port port_size cnt pos s =
      Some (4 * int n, pos + 4 * int n, port_data inl [] ps, ps, s') \<and> resources s' = resources s"
    and "\<exists>s'. my_read2 4 inl port port_size cnt pos s =
      Some (4 * int n, pos + 4 * int n, port_data inl ps ps, ps @ ps, s') \<and> resources s' = resources s"
    and "\<forall>p \<in> set ps. port \<le> p \<and> p + 4 \<le> port + port_size"
proof -
  note n = request_size [OF assms(1-8)]
  define s' where "s' = kfree (ask s) (answered (Copy_to_user (4 * n) 0) (answered (Kzalloc (Bytes (4 * int n)) (ask s)) s))"
  have res: "resources s' = resources s"
    using assms(10) by (cases "resources s") (simp_all add: s'_def kernel_simps mem_res_def)
  have len: "length ps = n" by (simp add: assms(12) port_seq_def)
  have 1: "my_read 4 inl port port_size cnt pos s = Some (4 * int n, pos + 4 * int n, port_data inl [] ps, ps, s')"
    using assms(7,9-11) len unfolding my_read_def n(1) Let_def
    by (simp add: kzalloc_def copy_to_user_def answer_simps s'_def fill_new_buffer assms(12))
  have 2: "my_read2 4 inl port port_size cnt pos s =
      Some (4 * int n, pos + 4 * int n, port_data inl ps ps, ps @ ps, s')"
    using assms(7,9-11) len unfolding my_read2_def n(1) Let_def
    by (simp add: kzalloc_def copy_to_user_def answer_simps s'_def fill_new_buffer fill_buffer assms(12))
  show "\<exists>s'. my_read 4 inl port port_size cnt pos s =
      Some (4 * int n, pos + 4 * int n, port_data inl [] ps, ps, s') \<and> resources s' = resources s"
    using 1 res by blast
  show "\<exists>s'. my_read2 4 inl port port_size cnt pos s =
      Some (4 * int n, pos + 4 * int n, port_data inl ps ps, ps @ ps, s') \<and> resources s' = resources s"
    using 2 res by blast
  show "\<forall>p \<in> set ps. port \<le> p \<and> p + 4 \<le> port + port_size"
    using n(2) assms(1) by (auto simp: assms(12) port_seq_def)
qed

text \<open>Behind the window the remaining size wraps: the request is served from ports the driver never claimed.\<close>

lemma my_read_beyond:
  assumes "port_size < pos" "pos - port_size < 2 ^ 63" "n = nat (cnt div 4)" "0 < n" "cnt mod 4 = 0" "cnt < 2 ^ 63"
    "ask s \<noteq> 0" "answers s (Suc (ncalls s)) = 0"
  shows "\<exists>s'. my_read 4 inl port port_size cnt pos s =
      Some (cnt, pos + cnt, port_data inl [] (port_seq (port + pos) n), port_seq (port + pos) n, s')"
proof -
  have "min cnt (size_t (port_size - pos)) = cnt" using assms(1,2,6) by (subst size_t_neg) auto
  moreover have c: "cnt = 4 * int n" using assms(3-5) by auto
  moreover have "length (port_seq (port + pos) n) = n" by (simp add: port_seq_def)
  ultimately show ?thesis
    using assms(4,5,7,8) unfolding my_read_def Let_def
    by (simp add: kzalloc_def copy_to_user_def answer_simps fill_new_buffer)
qed

text \<open>With 64-bit longs every request that gets as far as its buffer overflows it.\<close>

lemma my_read_64:
  assumes "0 \<le> pos" "pos < port_size" "port_size < 2 ^ 64" "port_size mod 4 = 0" "pos mod 4 = 0"
    "0 < cnt" "cnt mod 4 = 0" "ask s \<noteq> 0"
  shows "my_read 8 inl port port_size cnt pos s = None"
proof -
  define m where "m = min cnt (port_size - pos)"
  have m: "min cnt (size_t (port_size - pos)) = m" "0 < m" "4 dvd m"
    using assms by (auto simp: m_def min_def)
  then have "4 dvd nat m" using int_dvd_int_iff [of 4 "nat m"] by simp
  have "fill_loop 8 inl (port + pos) (nat m) 0 (replicate (nat m) 0) [] = None"
    using m \<open>4 dvd nat m\<close> by (intro fill_loop_8) auto
  then show ?thesis using assms m(1,2) by (simp add: my_read_def kzalloc_def)
qed

subsection \<open>What the modules hold\<close>

definition iop_owns :: "addr \<Rightarrow> res multiset" where
  "iop_owns res = mset (port_region res) + {#Region (MKDEV 60 0) 1, Cdev 1#}"

text \<open>The first module gives back what it took.\<close>

interpretation ioport_mod: module_lifecycle my_init my_exit iop_owns
  by unfold_locales
    (auto simp: my_init_def my_exit_def iop_owns_def port_region_def objs_def kernel_simps Let_def split: if_splits)

text \<open>
  The second never frees its structure and never removes a mapping: a failed load and a load followed
  by a removal leave both behind.
\<close>

definition iop2_leak :: "pdev \<Rightarrow> res multiset" where
  "iop2_leak d = mem_res (p_dev d) + mset (objs ''iomap'' (p_vir_addr d))"

lemma ioport2_leaks:
  assumes "resources s = Some H" "my_init2 \<lparr>p_dev = 0, p_res = 0, p_vir_addr = 0\<rparr> s = (r, d, s')"
  shows "resources (if r = 0 then my_exit2 d s' else s') = Some (H + iop2_leak d)"
  using assms
  by (auto simp: my_init2_def my_exit2_def release_ports_def iop2_leak_def objs_def kernel_simps mem_res_def Let_def
      split: if_splits)

end
