(* ===== verification/Proc_Buf.thy ===== *)
theory Proc_Buf
  imports Interfaces Kernel_Text
begin

text \<open>
  The proc entry of \<open>debug/my_proc.c\<close> (and its copy \<open>my_proc2.c\<close>): what is written to it is kept in
  an allocated buffer and printed when it is read. The state is the pointer to the buffer and the
  content of the object it points to, \<open>None\<close> after that was freed; reading a freed object, or a string
  past the end of its object, is \<open>None\<close>.
\<close>

record pbuf =
  ker_buf :: addr
  buf_mem :: "byte list option"

definition pbuf_init :: pbuf where
  "pbuf_init = \<lparr>ker_buf = 0, buf_mem = None\<rparr>"

definition proc_read :: "string \<Rightarrow> pbuf \<Rightarrow> text_mem \<Rightarrow> (nat \<times> text_mem) option" where
  "proc_read data b page =
     (if ker_buf b = 0 then
        let line = ''Cat /proc/proc_test'' @ [CHR 0x0A];
            page = sprintf_at 0 line page; ret = length line;
            line = data @ [CHR 0x0A]
        in Some (ret + length line, sprintf_at ret line page)
      else do {
        bs \<leftarrow> buf_mem b;
        str \<leftarrow> c_str bs;
        let line = str @ [CHR 0x0A];
        Some (length line, sprintf_at 0 line page)
      })"

definition proc_write :: "(nat \<Rightarrow> byte) \<Rightarrow> nat \<Rightarrow> pbuf \<Rightarrow> kworld \<Rightarrow> int \<times> pbuf \<times> kworld" where
  "proc_write buf cnt b s =
     (let s = kfree (ker_buf b) s;
          (p, s) = kzalloc (Bytes (int cnt)) s;
          b = b\<lparr>ker_buf := p, buf_mem := Some (replicate cnt 0)\<rparr> in
      if p = 0 then (- ENOMEM, b\<lparr>buf_mem := None\<rparr>, s)
      else
        let (r, data, s) = copy_from_user buf cnt s; b = b\<lparr>buf_mem := Some data\<rparr> in
        if r \<noteq> 0 then (- EFAULT, b\<lparr>buf_mem := None\<rparr>, kfree (ker_buf b) s)
        else (int cnt, b, s))"

text \<open>Creating the entry may fail; the buffer is static data, \<open>NULL\<close> when the module is loaded.\<close>

definition my_init :: "kworld \<Rightarrow> int \<times> pbuf \<times> kworld" where
  "my_init s =
     (let (res, s) = (ask s, answered (Obtain ''create_proc_read_entry'' (if ask s = 0 then [] else [Proc ''proc_test2''])) s)
      in if res = 0 then (- 1, pbuf_init, s) else (0, pbuf_init, s))"

definition my_exit :: "pbuf \<Rightarrow> kworld \<Rightarrow> kworld" where
  "my_exit b s = kfree (ker_buf b) (remove_proc_entry ''proc_test2'' s)"

subsection \<open>The buffer and its memory\<close>

text \<open>
  The buffer is as the driver believes it to be when the pointer is \<open>NULL\<close> or its object is there and
  held; it dangles when the pointer outlives the object.
\<close>

definition buf_ok :: "pbuf \<Rightarrow> bool" where
  "buf_ok b \<longleftrightarrow> (ker_buf b = 0 \<longleftrightarrow> buf_mem b = None)"

definition dangling :: "pbuf \<Rightarrow> bool" where
  "dangling b \<longleftrightarrow> ker_buf b \<noteq> 0 \<and> buf_mem b = None"

definition buf_res :: "pbuf \<Rightarrow> res multiset" where
  "buf_res b = (if buf_mem b = None then {#} else mem_res (ker_buf b))"

lemma pbuf_init_ok: "buf_ok pbuf_init" "buf_res pbuf_init = {#}"
  by (simp_all add: pbuf_init_def buf_ok_def buf_res_def)

text \<open>
  A write to a good buffer replaces it: by the data, or by nothing when there is no memory. When the data
  cannot be copied the new buffer is freed and the pointer to it kept.
\<close>

lemma proc_write_cases:
  assumes "buf_ok b" "resources s = Some (H + buf_res b)" "proc_write buf cnt b s = (r, b', s')"
  shows "resources s' = Some (H + buf_res b')"
    and "r = int cnt \<Longrightarrow> buf_ok b' \<and> buf_mem b' = Some (map buf [0..<cnt])"
    and "r = - ENOMEM \<Longrightarrow> b' = pbuf_init"
    and "r = - EFAULT \<Longrightarrow> dangling b'"
    and "r \<in> {int cnt, - ENOMEM, - EFAULT}"
  using assms
  by (auto simp: proc_write_def buf_ok_def buf_res_def dangling_def pbuf_init_def kernel_simps mem_res_def Let_def
      answer_simps split: if_splits)

text \<open>With a dangling pointer both the next write and the removal free the buffer a second time.\<close>

lemma dangling_double_free:
  assumes "dangling b" "resources s = Some H" "Mem (ker_buf b) \<notin># H"
  shows "resources (snd (snd (proc_write buf cnt b s))) = None" "resources (my_exit b s) = None"
  using assms
  by (auto simp: proc_write_def my_exit_def dangling_def kernel_simps mem_res_def kstep_def Let_def
      split: prod.splits Option.bind_splits if_splits dest: in_diffD)

lemma dangling_read: "dangling b \<Longrightarrow> proc_read data b page = None"
  by (simp add: proc_read_def dangling_def)

text \<open>
  Reading back: what was written up to the first \<open>NUL\<close> byte, if there is one; the kernel adds none, so a
  text written without it makes the read run over the end of the buffer.
\<close>

lemma proc_write_read:
  assumes "buf_ok b" "proc_write buf cnt b s = (int cnt, b', s')"
  shows "proc_read data b' page = (case c_str (map buf [0..<cnt]) of
      None \<Rightarrow> None
    | Some str \<Rightarrow> Some (Suc (length str), sprintf_at 0 (str @ [CHR 0x0A]) page))"
  using assms
  by (auto simp: proc_write_def proc_read_def kernel_simps answer_simps Let_def split: if_splits option.splits)

lemma proc_text_roundtrip:
  assumes "buf_ok b" "proc_write (\<lambda>i. if i < length str then char_byte (str ! i) else 0) (Suc (length str)) b s =
      (int (Suc (length str)), b', s')" "CHR 0x00 \<notin> set str"
  shows "\<exists>page'. proc_read data b' page = Some (Suc (length str), page') \<and>
    text_at page' 0 (Suc (length str)) = str @ [CHR 0x0A]"
proof -
  have "map (\<lambda>i. if i < length str then char_byte (str ! i) else 0) [0..<Suc (length str)] = map char_byte str @ [0]"
    by (rule nth_equalityI) (auto simp: nth_append less_Suc_eq)
  moreover have "c_str (map char_byte str @ [0]) = Some str"
    using assms(3) by (auto simp: c_str_def takeWhile_append takeWhile_eq_all_conv o_def)
  ultimately show ?thesis
    using proc_write_read [OF assms(1,2), of data page] text_at_sprintf_start [of 0 "str @ [CHR 0x0A]" page]
    by simp
qed

subsection \<open>Loading, writing, unloading\<close>

interpretation proc_mod: partial_lifecycle "\<lambda>_ s. Some (my_init s)" "\<lambda>b s. Some (my_exit b s)"
  "\<lambda>b. add_mset (Proc ''proc_test2'') (buf_res b)" buf_ok
  by unfold_locales
    (auto simp: my_init_def my_exit_def pbuf_init_def buf_ok_def buf_res_def kernel_simps mem_res_def Let_def
      split: if_splits)

text \<open>
  A load, any writes none of which failed to copy, and the removal leave nothing behind; a write that
  failed to copy, other than the last thing that happens to the buffer, makes it freed twice.
\<close>

fun write_run :: "((nat \<Rightarrow> byte) \<times> nat) list \<Rightarrow> pbuf \<Rightarrow> kworld \<Rightarrow> int list \<times> pbuf \<times> kworld" where
  "write_run [] b s = ([], b, s)"
| "write_run ((buf, cnt) # ws) b s =
     (case proc_write buf cnt b s of (r, b, s) \<Rightarrow>
      case write_run ws b s of (rs, b, s) \<Rightarrow> (r # rs, b, s))"

lemma write_run_ok:
  assumes "buf_ok b" "resources s = Some (H + buf_res b)" "write_run ws b s = (rs, b', s')" "- EFAULT \<notin> set rs"
  shows "buf_ok b' \<and> resources s' = Some (H + buf_res b')"
  using assms
proof (induction ws arbitrary: b s rs)
  case (Cons w ws)
  obtain buf cnt where w: "w = (buf, cnt)" by (rule prod.exhaust)
  obtain r b1 s1 where 1: "proc_write buf cnt b s = (r, b1, s1)" by (cases "proc_write buf cnt b s") auto
  obtain rs1 where 2: "write_run ws b1 s1 = (rs1, b', s')" "rs = r # rs1"
    using Cons.prems(3) by (auto simp: w 1 split: prod.splits)
  note c = proc_write_cases [OF Cons.prems(1,2) 1]
  have "buf_ok b1" using c(2,3,5) 2 Cons.prems(4) pbuf_init_ok(1) by auto
  then show ?case using Cons.IH [OF _ c(1) 2(1)] 2 Cons.prems(4) by simp
qed simp

lemma proc_module_clean:
  assumes "resources s = Some H" "my_init s = (0, b, s1)" "write_run ws b s1 = (rs, b', s2)" "- EFAULT \<notin> set rs"
  shows "resources (my_exit b' s2) = Some H"
proof -
  have "buf_ok b" "resources s1 = Some (add_mset (Proc ''proc_test2'') H + buf_res b)"
    using proc_mod.init_ok [OF assms(1), of 0 b s1] assms(2) by auto
  from write_run_ok [OF this assms(3,4)] proc_mod.exit_ok [of b' s2 H] show ?thesis by auto
qed

end
