(* ===== verification/Proc_Text.thy ===== *)
theory Proc_Text
  imports Kernel_Text Pipe
begin

text \<open>
  Modules whose only work is to print: the clock entries \<open>time/my_time.c\<close> and \<open>time/my_delay.c\<close>, the report of
  the pipe device (\<open>my_proc\<close> of \<open>protect/pipe.c\<close>), the first modules \<open>module/mymod1.c\<close> and \<open>mymod2.c\<close>, and
  \<open>debug/my_print.c\<close>. A proc entry prints into one page; the property that matters is that its text ends
  inside the page. What the clocks and \<open>%p\<close> give is the kernel's: arguments.
\<close>

abbreviation (input) nl :: string where "nl \<equiv> [CHR 0x0A]"
abbreviation (input) PAGE_SIZE :: nat where "PAGE_SIZE \<equiv> 4096"

subsection \<open>Clocks\<close>

text \<open>What the expressions of one block of prints read.\<close>

record clocks =
  jiffies :: "64 word"
  jiffies_64 :: "64 word"
  tval_sec :: "64 word"
  tval_usec :: "64 word"
  tspec_sec :: "64 word"
  tspec_nsec :: "64 word"

definition fmt_ld :: "64 word \<Rightarrow> string" where
  "fmt_ld w = fmt_d (sint w)"

definition clock_lines :: "clocks \<Rightarrow> string list" where
  "clock_lines c =
     [''Use jiffies: 0x'' @ fmt_x (unat (jiffies c)) @ nl,
      ''Use jiffies_64: 0x'' @ fmt_x (unat (jiffies_64 c)) @ nl,
      ''Use timeval: '' @ fmt_ld (tval_sec c) @ ''s, '' @ fmt_ld (tval_usec c) @ ''us'' @ nl,
      ''Use timespec: '' @ fmt_ld (tspec_sec c) @ ''s, '' @ fmt_ld (tspec_nsec c) @ ''ns'' @ nl]"

definition time_proc :: "clocks \<Rightarrow> text_mem \<Rightarrow> nat \<times> text_mem" where
  "time_proc c page = sprints ((''Current time is: '' @ nl) # clock_lines c) page"

text \<open>The clocks are read at the start and after each of the three delays.\<close>

definition delay_proc :: "clocks \<Rightarrow> clocks \<Rightarrow> clocks \<Rightarrow> clocks \<Rightarrow> text_mem \<Rightarrow> nat \<times> text_mem" where
  "delay_proc c ns us ms page = sprints
     ((''Current time is: '' @ nl) # clock_lines c @
      (nl @ ''----Delay 300ns---- '' @ nl) # clock_lines ns @
      (nl @ ''----Delay 300us---- '' @ nl) # clock_lines us @
      (nl @ ''----Delay 300ms----'' @ nl) # clock_lines ms) page"

definition clock_init :: "string \<Rightarrow> kworld \<Rightarrow> int \<times> kworld" where
  "clock_init name s = (0, create_proc_read_entry name s)"

definition clock_exit :: "string \<Rightarrow> kworld \<Rightarrow> kworld" where
  "clock_exit name s = remove_proc_entry name s"

interpretation time_mod: module_lifecycle "\<lambda>(g :: unit) s. case clock_init ''proc_time'' s of (r, s) \<Rightarrow> (r, g, s)"
  "\<lambda>_. clock_exit ''proc_time''" "\<lambda>_. {#Proc ''proc_time''#}"
  by unfold_locales (auto simp: clock_init_def clock_exit_def kernel_simps)

interpretation delay_mod: module_lifecycle "\<lambda>(g :: unit) s. case clock_init ''proc_sdelay'' s of (r, s) \<Rightarrow> (r, g, s)"
  "\<lambda>_. clock_exit ''proc_sdelay''" "\<lambda>_. {#Proc ''proc_sdelay''#}"
  by unfold_locales (auto simp: clock_init_def clock_exit_def kernel_simps)

lemma length_fmt_ld: "length (fmt_ld w) \<le> 20"
proof -
  have "- (2 ^ 63) \<le> sint w" "sint w < 2 ^ 63"
    using sint_ge [of w] sint_less [of w] by simp_all
  then show ?thesis unfolding fmt_ld_def by (intro order.trans [OF length_fmt_d_le [of _ 19]]) auto
qed

lemma length_fmt_lx: "length (fmt_x (unat w)) \<le> 16" for w :: "64 word"
  using unsigned_less [of w, where 'a = nat] by (intro length_fmt_x_le) simp_all

lemma length_clock_lines: "length (concat (clock_lines c)) \<le> 186"
  using length_fmt_lx [of "jiffies c"] length_fmt_lx [of "jiffies_64 c"] length_fmt_ld [of "tval_sec c"]
    length_fmt_ld [of "tval_usec c"] length_fmt_ld [of "tspec_sec c"] length_fmt_ld [of "tspec_nsec c"]
  by (simp add: clock_lines_def)

text \<open>Both texts, and the \<open>NUL\<close> behind them, end inside the page, whatever the clocks say.\<close>

lemma delay_proc_fits:
  assumes "delay_proc c ns us ms page = (ret, page')"
  shows "ret < PAGE_SIZE" "\<forall>i\<ge>PAGE_SIZE. page' i = page i"
proof -
  let ?ls = "(''Current time is: '' @ nl) # clock_lines c @ (nl @ ''----Delay 300ns---- '' @ nl) # clock_lines ns @
    (nl @ ''----Delay 300us---- '' @ nl) # clock_lines us @ (nl @ ''----Delay 300ms----'' @ nl) # clock_lines ms"
  have ret: "ret = length (concat ?ls)" "\<forall>i>ret. page' i = page i"
    using sprints_text [OF assms [unfolded delay_proc_def]] by blast+
  show "ret < PAGE_SIZE"
    using length_clock_lines [of c] length_clock_lines [of ns] length_clock_lines [of us] length_clock_lines [of ms]
    by (simp add: ret(1))
  with ret(2) show "\<forall>i\<ge>PAGE_SIZE. page' i = page i" by auto
qed

lemma time_proc_fits:
  assumes "time_proc c page = (ret, page')"
  shows "ret < PAGE_SIZE" "text_at page' 0 ret = concat ((''Current time is: '' @ nl) # clock_lines c)"
proof -
  have ret: "ret = length (concat ((''Current time is: '' @ nl) # clock_lines c))"
    using sprints_text [OF assms [unfolded time_proc_def]] by blast
  show "ret < PAGE_SIZE" using length_clock_lines [of c] by (simp add: ret)
  show "text_at page' 0 ret = concat ((''Current time is: '' @ nl) # clock_lines c)"
    using sprints_text [OF assms [unfolded time_proc_def]] by blast
qed

subsection \<open>The report of the pipe\<close>

definition pipe_proc :: "(addr \<Rightarrow> string) \<Rightarrow> mydev \<Rightarrow> text_mem \<Rightarrow> nat \<times> bool \<times> text_mem" where
  "pipe_proc fmt_p d page =
     (let (ret, page) = sprints
        [''------Buffer-----'' @ nl,
         ''Readers: '' @ fmt_d (nreaders d) @ '' ; Writers: '' @ fmt_d (nwriters d) @ nl,
         ''Start from 0x'' @ fmt_p (d_start d) @ '', end in 0x'' @ fmt_p (d_end d) @ nl,
         ''Wp: 0x'' @ fmt_p (d_wp d) @ '' ; Rp: 0x'' @ fmt_p (d_rp d) @ nl] page
      in (ret, True, page))"

lemma pipe_proc_fits:
  assumes "pipe_proc fmt_p d page = (ret, eof, page')" "\<forall>a. length (fmt_p a) \<le> 16"
    "\<bar>nreaders d\<bar> < 10 ^ 10" "\<bar>nwriters d\<bar> < 10 ^ 10"
  shows "ret < PAGE_SIZE" "eof"
proof -
  have p: "length (fmt_p (d_start d)) \<le> 16" "length (fmt_p (d_end d)) \<le> 16" "length (fmt_p (d_wp d)) \<le> 16"
    "length (fmt_p (d_rp d)) \<le> 16" using assms(2) by simp_all
  have n: "length (fmt_d (nreaders d)) \<le> Suc 10" "length (fmt_d (nwriters d)) \<le> Suc 10"
    using assms(3,4) by (intro length_fmt_d_le; simp)+
  show "eof" using assms(1) by (auto simp: pipe_proc_def Let_def split: prod.splits)
  show "ret < PAGE_SIZE" using assms(1) p n
    by (auto simp: pipe_proc_def Let_def split: prod.splits dest!: sprints_text)
qed

subsection \<open>Modules that print when they are loaded\<close>

text \<open>The kernel log as a list of lines, oldest first. \<open>%d\<close> of an unsigned parameter shows it as signed.\<close>

definition mymod1_init :: "32 word \<Rightarrow> 32 word list \<Rightarrow> int \<Rightarrow> int \<times> string list" where
  "mymod1_init order many num =
     (0, [''Enter my_init, order='' @ fmt_d (sint order) @ nl] @
         map (\<lambda>i. ''many['' @ fmt_d (int i) @ ''] = '' @ fmt_d (sint (many ! i)) @ nl) [0..<length many] @
         [''num = '' @ fmt_d num @ nl])"

definition mymod1_exit :: "string list" where
  "mymod1_exit = [''Exit my module'' @ nl]"

definition my_print :: "string list" where
  "my_print = [''print from mymod1.c'' @ nl]"

text \<open>\<open>mymod2\<close> calls the function that \<open>mymod1\<close> exports; without it the module is not loaded at all.\<close>

definition mymod2_init :: "(string list) option \<Rightarrow> (int \<times> string list) option" where
  "mymod2_init exported = do {
     lines \<leftarrow> exported;
     Some (0, [''call from mymod2.c'' @ nl] @ lines)
   }"

definition print_levels :: "string \<Rightarrow> int \<times> string list" where
  "print_levels file_name =
     (0, map (\<lambda>i. ''<'' @ fmt_d (int i) @ ''> Debug level '' @ fmt_d (int i) @ '', in '' @ file_name @ nl) [0..<8])"

lemma mymod2_after_mymod1:
  "mymod2_init (Some my_print) = Some (0, [''call from mymod2.c'' @ nl, ''print from mymod1.c'' @ nl])"
  by (simp add: mymod2_init_def my_print_def)

end
