(* ===== verification/Slab_Items.thy ===== *)
theory Slab_Items
  imports Interfaces Kernel_Text
begin

text \<open>
  The slab demonstration of \<open>memory/my_slab.c\<close>: loading allocates a thousand items from a cache of its
  own and puts them on a list; a proc entry prints their values. The list is the list of its items from
  the head on, each an address with its value. The cache is created with \<open>SLAB_PANIC\<close>: failing to
  create it stops the kernel, which is \<open>None\<close>.
\<close>

abbreviation (input) ITEM_LEN :: nat where "ITEM_LEN \<equiv> 1000"

record sdev =
  s_count :: int
  s_items :: "(addr \<times> byte) list"

definition mydev_init :: sdev where
  "mydev_init = \<lparr>s_count = 0, s_items = []\<rparr>"

definition value_line :: "byte \<Rightarrow> string" where
  "value_line v = ''Value = '' @ fmt_d (uint v) @ [CHR 0x0A]"

fun print_values :: "byte list \<Rightarrow> nat \<Rightarrow> text_mem \<Rightarrow> nat \<times> text_mem" where
  "print_values [] ret page = (ret, page)"
| "print_values (v # vs) ret page = print_values vs (ret + length (value_line v)) (sprintf_at ret (value_line v) page)"

text \<open>The list is walked from its tail.\<close>

definition proc_read :: "sdev \<Rightarrow> text_mem \<Rightarrow> nat \<times> text_mem" where
  "proc_read d page =
     (let line = ''count = '' @ fmt_d (s_count d) @ [CHR 0x0A]
      in print_values (map snd (rev (s_items d))) (length line) (sprintf_at 0 line page))"

text \<open>The loop of \<open>my_init\<close> from \<open>i\<close> on, \<open>n\<close> items to go; the flag tells whether it ran to its end.\<close>

fun alloc_items :: "nat \<Rightarrow> nat \<Rightarrow> sdev \<Rightarrow> kworld \<Rightarrow> bool \<times> sdev \<times> kworld" where
  "alloc_items 0 i d s = (True, d, s)"
| "alloc_items (Suc n) i d s =
     (let (pos, s) = obtain_obj ''kmem_cache_alloc'' ''item'' s in
      if pos = 0 then (False, d, s)
      else alloc_items n (Suc i) (d\<lparr>s_items := (pos, of_nat i) # s_items d, s_count := s_count d + 1\<rparr>) s)"

fun free_items :: "(addr \<times> byte) list \<Rightarrow> kworld \<Rightarrow> kworld" where
  "free_items [] s = s"
| "free_items ((pos, v) # ks) s = free_items ks (giveback_obj ''kmem_cache_free'' ''item'' pos s)"

definition my_init :: "kworld \<Rightarrow> (int \<times> (addr \<times> sdev) \<times> kworld) option" where
  "my_init s =
     (let (my_cache, s) = obtain_obj ''kmem_cache_create'' ''cache'' s in
      if my_cache = 0 then None
      else
        let (ok, d, s) = alloc_items ITEM_LEN 0 mydev_init s in
        if ok then Some (0, (my_cache, d), create_proc_read_entry ''proc_slab'' s)
        else Some (- ENOMEM, (my_cache, d),
          giveback_obj ''kmem_cache_destroy'' ''cache'' my_cache (free_items (s_items d) s)))"

definition my_exit :: "addr \<times> sdev \<Rightarrow> kworld \<Rightarrow> kworld" where
  "my_exit g s =
     (case g of (my_cache, d) \<Rightarrow>
        giveback_obj ''kmem_cache_destroy'' ''cache'' my_cache
          (free_items (s_items d) (remove_proc_entry ''proc_slab'' s)))"

subsection \<open>The items and their memory\<close>

definition item_res :: "(addr \<times> byte) list \<Rightarrow> res multiset" where
  "item_res ks = mset (map (\<lambda>(p, v). Obj ''item'' p) ks)"

definition items_ok :: "(addr \<times> byte) list \<Rightarrow> bool" where
  "items_ok ks \<longleftrightarrow> list_all (\<lambda>(p, v). p \<noteq> 0) ks"

lemma item_res_simps [simp]:
  "item_res [] = {#}" "item_res ((p, v) # ks) = add_mset (Obj ''item'' p) (item_res ks)"
  by (simp_all add: item_res_def)

lemma free_items_res:
  "items_ok ks \<Longrightarrow> resources s = Some (H + item_res ks) \<Longrightarrow> resources (free_items ks s) = Some H"
  by (induction ks s rule: free_items.induct) (auto simp: items_ok_def kernel_simps objs_def)

text \<open>Whether or not the loop ends, the items it allocated are on the list, the count is their number and
  the values are those of the loop index.\<close>

lemma alloc_items_inv:
  assumes "alloc_items n i d s = (ok, d', s')" "items_ok (s_items d)" "resources s = Some (H + item_res (s_items d))"
  shows "\<exists>k \<le> n. (ok \<longrightarrow> k = n) \<and> items_ok (s_items d') \<and> resources s' = Some (H + item_res (s_items d')) \<and>
    s_count d' = s_count d + int k \<and> map snd (rev (s_items d')) = map snd (rev (s_items d)) @ map of_nat [i..<i + k]"
  using assms
proof (induction n i d s rule: alloc_items.induct)
  case (1 i d s)
  then show ?case by simp
next
  case (2 n i d s)
  define p where "p = ask s"
  define s1 where "s1 = answered (Obtain ''kmem_cache_alloc'' (objs ''item'' p)) s"
  let ?d = "d\<lparr>s_items := (p, of_nat i) # s_items d, s_count := s_count d + 1\<rparr>"
  have step: "obtain_obj ''kmem_cache_alloc'' ''item'' s = (p, s1)" by (simp add: obtain_obj_def p_def s1_def)
  show ?case
  proof (cases "p = 0")
    case True
    with 2(2) step have "d' = d" "s' = s1" "\<not> ok" by simp_all
    moreover have "resources s1 = resources s" using True by (cases "resources s") (simp_all add: s1_def kernel_simps)
    ultimately show ?thesis using 2(3,4) by (intro exI [of _ 0]) simp
  next
    case False
    have "resources s1 = Some (H + item_res (s_items ?d))"
      using 2(4) False by (simp add: s1_def kernel_simps objs_def)
    moreover have "items_ok (s_items ?d)" using 2(3) False by (simp add: items_ok_def)
    moreover have "alloc_items n (Suc i) ?d s1 = (ok, d', s')" using 2(2) step False by simp
    ultimately obtain k where k: "k \<le> n" "ok \<longrightarrow> k = n" "items_ok (s_items d')"
      "resources s' = Some (H + item_res (s_items d'))" "s_count d' = s_count ?d + int k"
      "map snd (rev (s_items d')) = map snd (rev (s_items ?d)) @ map of_nat [Suc i..<Suc i + k]"
      using 2(1) [OF step [symmetric] refl False] by blast
    have "[i..<i + Suc k] = i # [Suc i..<Suc i + k]" by (simp add: upt_conv_Cons)
    with k show ?thesis by (intro exI [of _ "Suc k"]) (simp del: upt_Suc)
  qed
qed

definition slab_ready :: "addr \<times> sdev \<Rightarrow> bool" where
  "slab_ready g \<longleftrightarrow> fst g \<noteq> 0 \<and> items_ok (s_items (snd g))"

definition slab_owns :: "addr \<times> sdev \<Rightarrow> res multiset" where
  "slab_owns g = {#Obj ''cache'' (fst g), Proc ''proc_slab''#} + item_res (s_items (snd g))"

lemma my_init_loaded:
  assumes "my_init s = Some (r, (c, d), s')" "resources s = Some H"
  shows "r \<noteq> 0 \<Longrightarrow> resources s' = Some H"
    and "r = 0 \<Longrightarrow> slab_ready (c, d) \<and> resources s' = Some (H + slab_owns (c, d)) \<and> s_count d = 1000 \<and>
      map snd (rev (s_items d)) = map of_nat [0..<ITEM_LEN]"
proof -
  define s1 where "s1 = answered (Obtain ''kmem_cache_create'' (objs ''cache'' (ask s))) s"
  obtain ok d1 s2 where a: "alloc_items ITEM_LEN 0 mydev_init s1 = (ok, d1, s2)"
    by (cases "alloc_items ITEM_LEN 0 mydev_init s1") auto
  have c: "ask s \<noteq> 0" using assms(1) by (auto simp: my_init_def obtain_obj_def)
  have s1: "resources s1 = Some (add_mset (Obj ''cache'' (ask s)) H + item_res (s_items mydev_init))"
    using assms(2) c by (simp add: s1_def kernel_simps objs_def mydev_init_def)
  have "items_ok (s_items mydev_init)" by (simp add: items_ok_def mydev_init_def)
  from alloc_items_inv [OF a this s1] obtain k where k: "ok \<longrightarrow> k = ITEM_LEN" "items_ok (s_items d1)"
    "resources s2 = Some (add_mset (Obj ''cache'' (ask s)) H + item_res (s_items d1))"
    "s_count d1 = int k" "map snd (rev (s_items d1)) = map of_nat [0..<k]"
    by (auto simp: mydev_init_def)
  have run: "my_init s = (if ok then Some (0, (ask s, d1), create_proc_read_entry ''proc_slab'' s2)
      else Some (- ENOMEM, (ask s, d1), giveback_obj ''kmem_cache_destroy'' ''cache'' (ask s) (free_items (s_items d1) s2)))"
    using c a by (simp add: my_init_def obtain_obj_def s1_def)
  show "r \<noteq> 0 \<Longrightarrow> resources s' = Some H"
    using run assms(1) free_items_res [OF k(2,3)] c by (auto simp: kernel_simps objs_def split: if_splits)
  show "r = 0 \<Longrightarrow> slab_ready (c, d) \<and> resources s' = Some (H + slab_owns (c, d)) \<and> s_count d = 1000 \<and>
      map snd (rev (s_items d)) = map of_nat [0..<ITEM_LEN]"
    using run assms(1) k c by (auto simp: kernel_simps slab_ready_def slab_owns_def simp del: upt_Suc split: if_splits)
qed

interpretation slab_mod: partial_lifecycle "\<lambda>_. my_init" "\<lambda>g s. Some (my_exit g s)" slab_owns slab_ready
proof (unfold_locales, goal_cases)
  case (1 s H g r g' s')
  then show ?case using my_init_loaded(1) [of s r "fst g'" "snd g'" s' H] by simp
next
  case (2 s H g r g' s')
  then show ?case using my_init_loaded(2) [of s r "fst g'" "snd g'" s' H] by simp
next
  case (3 g s H)
  define s1 where "s1 = remove_proc_entry ''proc_slab'' s"
  have "resources s1 = Some (add_mset (Obj ''cache'' (fst g)) H + item_res (s_items (snd g)))"
    using 3(2) by (simp add: s1_def slab_owns_def kernel_simps)
  from free_items_res [OF _ this] 3(1) show ?case
    unfolding my_exit_def s1_def [symmetric] by (auto simp: slab_ready_def kernel_simps objs_def split: prod.splits)
qed

subsection \<open>The text of the proc entry\<close>

lemma print_values_text:
  "print_values vs ret page = (ret', page') \<Longrightarrow>
   ret' = ret + length (concat (map value_line vs)) \<and> text_at page' 0 ret' = text_at page 0 ret @ concat (map value_line vs)"
proof (induction vs ret page rule: print_values.induct)
  case (2 v vs ret page)
  then show ?case using text_at_sprintf [of 0 ret "value_line v" page] by auto
qed simp

lemma proc_read_text:
  assumes "proc_read d page = (ret, page')"
  shows "text_at page' 0 ret = ''count = '' @ fmt_d (s_count d) @ [CHR 0x0A] @ concat (map value_line (map snd (rev (s_items d))))"
proof -
  let ?l = "''count = '' @ fmt_d (s_count d) @ [CHR 0x0A]"
  have "text_at (sprintf_at 0 ?l page) 0 (length ?l) = ?l" by (rule text_at_sprintf_start)
  with print_values_text [of _ "length ?l" "sprintf_at 0 ?l page" ret page'] assms show ?thesis
    by (simp add: proc_read_def Let_def)
qed

text \<open>How long the lines are.\<close>

lemma length_value_line:
  "length (value_line v) = 9 + (if unat v < 10 then 1 else if unat v < 100 then 2 else 3)"
  by (simp add: value_line_def length_fmt_byte)

lemma upt_split: "i \<le> j \<Longrightarrow> j \<le> k \<Longrightarrow> [i..<k] = [i..<j] @ [j..<k]" for i :: nat
  using upt_add_eq_append [of i j "k - j"] by simp

lemma sum_const: "\<forall>i \<in> {a..<b}. f i = c \<Longrightarrow> sum_list (map f [a..<b]) = (b - a) * c" for f :: "nat \<Rightarrow> nat"
proof -
  assume "\<forall>i \<in> {a..<b}. f i = c"
  then have "map f [a..<b] = replicate (b - a) c" by (intro nth_equalityI) auto
  then show ?thesis by (simp add: sum_list_replicate)
qed

text \<open>A stretch of the index within which the values do not wrap.\<close>

lemma block_length:
  assumes "100 \<le> n" "n \<le> 256"
  shows "sum_list (map (\<lambda>i. length (value_line (of_nat i))) [256 * k..<256 * k + n]) = 12 * n - 110"
proof -
  let ?f = "\<lambda>i. length (value_line (of_nat i))"
  have f: "?f (256 * k + i) = 9 + (if i < 10 then 1 else if i < 100 then 2 else 3)" if "i < 256" for i
  proof -
    have "unat (word_of_nat (256 * k + i) :: byte) = i" using that by (simp only: unat_of_nat) simp
    then show ?thesis by (simp only: length_value_line)
  qed
  have f': "?f i = 9 + (if i - 256 * k < 10 then 1 else if i - 256 * k < 100 then 2 else 3)"
    if "256 * k \<le> i" "i < 256 * k + 256" for i
    using f [of "i - 256 * k"] that by simp
  have "[256 * k..<256 * k + n] = [256 * k..<256 * k + 10] @ [256 * k + 10..<256 * k + 100] @ [256 * k + 100..<256 * k + n]"
    using assms upt_split [of "256 * k" "256 * k + 10" "256 * k + n"]
      upt_split [of "256 * k + 10" "256 * k + 100" "256 * k + n"] by simp
  moreover have "sum_list (map ?f [256 * k..<256 * k + 10]) = 10 * 10"
    by (subst sum_const [where c = 10]) (auto simp: f')
  moreover have "sum_list (map ?f [256 * k + 10..<256 * k + 100]) = 90 * 11"
    by (subst sum_const [where c = 11]) (auto simp: f')
  moreover have "sum_list (map ?f [256 * k + 100..<256 * k + n]) = (n - 100) * 12"
    using assms by (subst sum_const [where c = 12]) (auto simp: f')
  ultimately show ?thesis using assms by simp
qed

text \<open>
  After every successful load a read of the entry prints the values 0 to 255 again and again in the order
  of allocation: 11573 bytes, where the kernel passes a page of 4096.
\<close>

lemma slab_text_length:
  assumes "my_init s = Some (0, (c, d), s')" "resources s = Some H" "proc_read d page = (ret, page')"
  shows "ret = 11573" "text_at page' 0 ret = ''count = 1000'' @ [CHR 0x0A] @ concat (map (\<lambda>i. value_line (of_nat i)) [0..<ITEM_LEN])"
proof -
  note l = my_init_loaded(2) [OF assms(1,2) refl]
  have c: "fmt_d (s_count d) = ''1000''"
    using l by (simp add: fmt_d_def digits.simps char_of_def bit_0)
  have "map value_line (map snd (rev (s_items d))) = map (\<lambda>i. value_line (of_nat i)) [0..<ITEM_LEN]"
    using l by (simp only: map_map o_def)
  then show t: "text_at page' 0 ret = ''count = 1000'' @ [CHR 0x0A] @ concat (map (\<lambda>i. value_line (of_nat i)) [0..<ITEM_LEN])"
    using proc_read_text [OF assms(3)] c by simp
  have "[0..<ITEM_LEN] = [0..<256] @ [256..<512] @ [512..<768] @ [768..<ITEM_LEN]"
    using upt_split [of 0 256 ITEM_LEN] upt_split [of 256 512 ITEM_LEN] upt_split [of 512 768 ITEM_LEN] by simp
  then have "length (concat (map (\<lambda>i. value_line (of_nat i)) [0..<ITEM_LEN])) = 11560"
    using block_length [of 256 0] block_length [of 256 1] block_length [of 256 2] block_length [of 232 3]
    by (simp add: length_concat o_def del: upt_Suc upt_rec_numeral)
  with arg_cong [OF t, of length] show "ret = 11573" by (simp del: upt_rec_numeral)
qed

end
