(* ===== verification/List_Buffer.thy ===== *)
theory List_Buffer
  imports Kernel_Text Interfaces
begin

text \<open>
  The page cache browser of \<open>memory/list_buffer.c\<close>: a \<open>/proc\<close> entry that finds an inode by its
  number in every mounted file system of a type, walks the radix tree of its pages and reports
  which of them have buffer heads.

  A pointer in the tree is a \<open>slot\<close>: \<open>NULL\<close>, a page, or an interior node with its height and its
  slots; the code does not know which of the last two a pointer is, it counts levels. Taking one
  for the other, a slot outside the array or a shift by 64 bits or more is \<open>None\<close>. The buffer heads
  of a page are linked through \<open>b_this_page\<close>, a function on addresses, in which the loop may run
  forever. The kernel lists of superblocks, inodes and names are HOL lists. How the kernel prints
  a pointer (\<open>%p\<close>) is the parameter \<open>fp\<close>. Counters and lengths, \<open>int\<close> in the source, are not bounded.
\<close>

subsection \<open>Pages and their buffer heads\<close>

record page =
  p_addr :: addr
  page_has_buffers :: bool
  page_buffers :: addr

record out_state =
  pagebuf :: text_mem
  printk :: "string list"

datatype slot = Null | Page page | Node nat "slot list"

partial_function (option) buffer_loop :: "(addr \<Rightarrow> addr) \<Rightarrow> addr \<Rightarrow> addr \<Rightarrow> int \<Rightarrow> int option" where
  "buffer_loop b_this_page head bh buffer_count =
     (let buffer_count = buffer_count + 1; bh = b_this_page bh in
      if bh \<noteq> head then buffer_loop b_this_page head bh buffer_count else Some buffer_count)"

definition radix_node_has_buffer ::
    "(addr \<Rightarrow> string) \<Rightarrow> (addr \<Rightarrow> addr) \<Rightarrow> slot \<Rightarrow> out_state \<Rightarrow> (int \<times> out_state) option" where
  "radix_node_has_buffer fp b_this_page node st =
     (case node of
        Null \<Rightarrow> Some (0, st)
      | Node h slots \<Rightarrow> None
      | Page page \<Rightarrow>
          if page_has_buffers page then do {
            buffer_count \<leftarrow> buffer_loop b_this_page (page_buffers page) (page_buffers page) 0;
            Some (buffer_count,
              if buffer_count \<noteq> 1 then
                st\<lparr>printk := printk st @ [''page['' @ fp (p_addr page) @ ''] links with '' @
                  fmt_d buffer_count @ '' buffer heads'' @ [CHR 0x0A]]\<rparr>
              else st)
          } else Some (0, st))"

subsection \<open>The radix tree\<close>

abbreviation (input) "RADIX_TREE_MAP_SHIFT \<equiv> 6 :: nat"
abbreviation (input) "RADIX_TREE_MAP_MASK \<equiv> 63 :: nat"
abbreviation (input) "RADIX_TREE_MAX_PATH \<equiv> 11 :: nat"

datatype rptr = Direct slot | Indirect slot

record radix_root =
  r_addr :: addr
  rnode :: rptr

fun indirect_to_ptr :: "rptr \<Rightarrow> slot" where
  "indirect_to_ptr (Direct n) = n"
| "indirect_to_ptr (Indirect n) = n"

definition maxindex :: "nat \<Rightarrow> nat" where
  "maxindex height =
     (let width = u32 (int height * int RADIX_TREE_MAP_SHIFT); shift = 64 - int width in
      if shift < 0 then 2 ^ 64 - 1
      else if shift \<ge> 64 then 0
      else drop_bit (nat shift) (2 ^ 64 - 1))"

definition radix_tree_init_maxindex :: "nat list" where
  "radix_tree_init_maxindex = map maxindex [0..<RADIX_TREE_MAX_PATH + 1]"

definition radix_tree_maxindex :: "nat list \<Rightarrow> nat \<Rightarrow> nat option" where
  "radix_tree_maxindex height_to_maxindex height =
     (if height < length height_to_maxindex then Some (height_to_maxindex ! height) else None)"

text \<open>
  The inner loop: down from a node with \<open>height\<close> levels. A node of height 0 gives a shift of
  \<open>2 ^ 32 - 6\<close>, which has no defined result.
\<close>

fun descend :: "nat \<Rightarrow> nat \<Rightarrow> nat \<Rightarrow> slot \<Rightarrow> slot option" where
  "descend (Suc h) index shift (Node _ slots) =
     (let k = drop_bit shift index AND RADIX_TREE_MAP_MASK in
      if shift < 64 \<and> k < length slots then
        (if slots ! k = Null \<or> h = 0 then Some (slots ! k)
         else descend h index (u32 (int shift - int RADIX_TREE_MAP_SHIFT)) (slots ! k))
      else None)"
| "descend _ index shift _ = None"

record walk_acc =
  ret :: nat
  page_count :: int
  buffer_head_count :: int
  out :: out_state

definition index_line :: "nat \<Rightarrow> string" where
  "index_line index = ''    Page Index ['' @ fmt_d (int index) @ ''] has buffer'' @ [CHR 0x0A]"

definition summary_line :: "(addr \<Rightarrow> string) \<Rightarrow> addr \<Rightarrow> int \<Rightarrow> int \<Rightarrow> string" where
  "summary_line fp root pages buffers = ''Tree['' @ fp root @ '']has '' @ fmt_d pages @
     '' pages , and '' @ fmt_d buffers @ '' buffer head'' @ [CHR 0x0A]"

definition visit :: "(addr \<Rightarrow> string) \<Rightarrow> (addr \<Rightarrow> addr) \<Rightarrow> nat \<Rightarrow> nat \<Rightarrow> slot \<Rightarrow> walk_acc \<Rightarrow>
    walk_acc option" where
  "visit fp b_this_page pos index node acc =
     (if node = Null then Some acc
      else do {
        (temp, st) \<leftarrow> radix_node_has_buffer fp b_this_page node (out acc);
        let acc = (if temp \<noteq> 0 then
            acc\<lparr>ret := ret acc + length (index_line index),
                buffer_head_count := buffer_head_count acc + temp,
                out := st\<lparr>pagebuf := sprintf_at (pos + ret acc) (index_line index) (pagebuf st)\<rparr>\<rparr>
          else acc\<lparr>out := st\<rparr>);
        Some (acc\<lparr>page_count := page_count acc + 1\<rparr>)
      })"

fun walk_loop :: "(addr \<Rightarrow> string) \<Rightarrow> (addr \<Rightarrow> addr) \<Rightarrow> nat \<Rightarrow> radix_root \<Rightarrow> nat list \<Rightarrow> walk_acc \<Rightarrow>
    walk_acc option" where
  "walk_loop fp b_this_page pos root [] acc = Some acc"
| "walk_loop fp b_this_page pos root (index # rest) acc =
     (case indirect_to_ptr (rnode root) of
        Node height slots \<Rightarrow> do {
          node \<leftarrow> descend height index (u32 ((int height - 1) * int RADIX_TREE_MAP_SHIFT))
            (Node height slots);
          acc \<leftarrow> visit fp b_this_page pos index node acc;
          walk_loop fp b_this_page pos root rest acc
        }
      | _ \<Rightarrow> None)"

text \<open>The text goes to \<open>page + pos\<close>; the result is the number of bytes the caller skips.\<close>

definition radix_tree_walk_through :: "(addr \<Rightarrow> string) \<Rightarrow> (addr \<Rightarrow> addr) \<Rightarrow> nat \<Rightarrow> radix_root \<Rightarrow>
    out_state \<Rightarrow> (nat \<times> out_state) option" where
  "radix_tree_walk_through fp b_this_page pos root st =
     (case rnode root of
        Direct Null \<Rightarrow> Some (0, st)
      | Direct node \<Rightarrow>
          map_option (\<lambda>(n, st). (nat n, st)) (radix_node_has_buffer fp b_this_page node st)
      | Indirect (Node height slots) \<Rightarrow> do {
          m \<leftarrow> radix_tree_maxindex radix_tree_init_maxindex height;
          let max_index = u32 (int m);
          acc \<leftarrow> walk_loop fp b_this_page pos root [0..<Suc max_index]
            \<lparr>ret = 0, page_count = 0, buffer_head_count = 0, out = st\<rparr>;
          let line = summary_line fp (r_addr root) (page_count acc) (buffer_head_count acc);
          Some (ret acc + length line,
            (out acc)\<lparr>pagebuf := sprintf_at (pos + ret acc) line (pagebuf (out acc))\<rparr>)
        }
      | Indirect _ \<Rightarrow> None)"

subsection \<open>Inodes and superblocks\<close>

record cinode =
  c_addr :: addr
  i_ino :: int
  nrpages :: int
  page_tree :: radix_root
  mapping_is_i_data :: bool
  i_dentry :: "string list"
  private_list :: "addr list"

record super_block =
  s_id :: string
  s_inodes :: "cinode list"

definition inode_has_buffers :: "cinode \<Rightarrow> bool" where
  "inode_has_buffers inode = (private_list inode \<noteq> [])"

definition test_sb :: "super_block \<Rightarrow> bool" where
  "test_sb sb = True"

definition print_dentry :: "cinode \<Rightarrow> string \<Rightarrow> out_state \<Rightarrow> out_state" where
  "print_dentry inode s st = st\<lparr>printk := printk st @
     map (\<lambda>name. ''['' @ s @ '']dentry name '' @ name @ '' '' @ [CHR 0x0A]) (i_dentry inode)\<rparr>"

definition dentry_line :: "string \<Rightarrow> string" where
  "dentry_line name = ''        dentry name '' @ name @ '' '' @ [CHR 0x0A]"

fun show_dentry :: "string list \<Rightarrow> nat \<Rightarrow> nat \<Rightarrow> out_state \<Rightarrow> nat \<times> out_state" where
  "show_dentry [] pos r st = (r, st)"
| "show_dentry (name # names) pos r st =
     show_dentry names pos (r + length (dentry_line name))
       (st\<lparr>pagebuf := sprintf_at (pos + r) (dentry_line name) (pagebuf st)\<rparr>)"

record set_acc =
  s_ret :: nat
  total_page_count :: int
  total_inode_count :: int
  buffer_inode_count :: int
  s_out :: out_state

definition inode_line :: "(addr \<Rightarrow> string) \<Rightarrow> cinode \<Rightarrow> string" where
  "inode_line fp inode = ''    inode '' @ fp (c_addr inode) @ '' page count = '' @
     fmt_d (loff_t (nrpages inode)) @ [CHR 0x0A]"

text \<open>One inode of the list; \<open>pos\<close> is the offset of the superblock's text in the page.\<close>

definition list_inode :: "int \<Rightarrow> (addr \<Rightarrow> string) \<Rightarrow> (addr \<Rightarrow> addr) \<Rightarrow> nat \<Rightarrow> cinode \<Rightarrow> set_acc \<Rightarrow>
    set_acc option" where
  "list_inode list_buffer_of_inode fp b_this_page pos inode acc =
     (if i_ino inode \<noteq> size_t list_buffer_of_inode then Some acc
      else do {
        let line = inode_line fp inode;
        let st = (s_out acc)\<lparr>pagebuf := sprintf_at (pos + s_ret acc) line (pagebuf (s_out acc))\<rparr>;
        let r = s_ret acc + length line;
        let (n, st) = show_dentry (i_dentry inode) (pos + r) 0 st;
        let r = r + n;
        let st = (if \<not> mapping_is_i_data inode
          then print_dentry inode ''[Inode i_mapping NOT point to i_data]'' st else st);
        let (st, b) = (if inode_has_buffers inode
          then (print_dentry inode ''[Inode has buffers]'' st, size_t (buffer_inode_count acc + 1))
          else (st, buffer_inode_count acc));
        (n, st) \<leftarrow> radix_tree_walk_through fp b_this_page (pos + r) (page_tree inode) st;
        Some \<lparr>s_ret = r + n, total_page_count = size_t (total_page_count acc + nrpages inode),
          total_inode_count = size_t (total_inode_count acc + 1), buffer_inode_count = b, s_out = st\<rparr>
      })"

fun list_inodes :: "int \<Rightarrow> (addr \<Rightarrow> string) \<Rightarrow> (addr \<Rightarrow> addr) \<Rightarrow> nat \<Rightarrow> cinode list \<Rightarrow> set_acc \<Rightarrow>
    set_acc option" where
  "list_inodes ino fp b_this_page pos [] acc = Some acc"
| "list_inodes ino fp b_this_page pos (inode # inodes) acc = do {
     acc \<leftarrow> list_inode ino fp b_this_page pos inode acc;
     list_inodes ino fp b_this_page pos inodes acc
   }"

definition totals_lines :: "set_acc \<Rightarrow> string \<times> string" where
  "totals_lines acc =
     (''total page count '' @ fmt_d (loff_t (total_page_count acc)) @ '' size = '' @
        fmt_d (loff_t (size_t (total_page_count acc * 4))) @ '' K'' @ [CHR 0x0A],
      ''total inode count '' @ fmt_d (loff_t (total_inode_count acc)) @
        ''  inode address space private buffer = '' @ fmt_d (loff_t (buffer_inode_count acc)) @
        '' '' @ [CHR 0x0A])"

definition set_sb :: "int \<Rightarrow> (addr \<Rightarrow> string) \<Rightarrow> (addr \<Rightarrow> addr) \<Rightarrow> nat \<Rightarrow> super_block \<Rightarrow> out_state \<Rightarrow>
    (nat \<times> out_state) option" where
  "set_sb ino fp b_this_page pos sb st = do {
     let line = ''fst sid = '' @ s_id sb @ [CHR 0x0A];
     acc \<leftarrow> list_inodes ino fp b_this_page pos (s_inodes sb)
       \<lparr>s_ret = length line, total_page_count = 0, total_inode_count = 0, buffer_inode_count = 0,
        s_out = st\<lparr>pagebuf := sprintf_at pos line (pagebuf st)\<rparr>\<rparr>;
     let (l1, l2) = totals_lines acc;
     let m = sprintf_at (pos + s_ret acc) l1 (pagebuf (s_out acc));
     let r = s_ret acc + length l1;
     Some (r + length l2, (s_out acc)\<lparr>pagebuf := sprintf_at (pos + r) l2 m\<rparr>)
   }"

fun list_supers :: "int \<Rightarrow> (addr \<Rightarrow> string) \<Rightarrow> (addr \<Rightarrow> addr) \<Rightarrow> super_block list \<Rightarrow> nat \<Rightarrow> out_state \<Rightarrow>
    (nat \<times> out_state) option" where
  "list_supers ino fp b_this_page [] r st = Some (r, st)"
| "list_supers ino fp b_this_page (old # supers) r st =
     (if \<not> test_sb old then list_supers ino fp b_this_page supers r st
      else do {
        (n, st) \<leftarrow> set_sb ino fp b_this_page r old st;
        list_supers ino fp b_this_page supers (r + n) st
      })"

text \<open>
  The method of the \<open>/proc\<close> entry. \<open>get_fs_type\<close> returns the type with a reference taken; its
  superblocks are the parameter \<open>fs_supers\<close>.
\<close>

definition list_buffer :: "int \<Rightarrow> string \<Rightarrow> (addr \<Rightarrow> super_block list) \<Rightarrow> (addr \<Rightarrow> string) \<Rightarrow>
    (addr \<Rightarrow> addr) \<Rightarrow> out_state \<Rightarrow> kworld \<Rightarrow> (nat \<times> out_state \<times> kworld) option" where
  "list_buffer ino species fs_supers fp b_this_page st s =
     (let (fstype, s) = obtain_obj ''get_fs_type'' ''file_system_type'' s in
      if fstype = 0 then
        (let line = ''found no super block of ['' @ species @ '']'' @ [CHR 0x0A] in
         Some (length line, st\<lparr>pagebuf := sprintf_at 0 line (pagebuf st)\<rparr>, s))
      else do {
        let line = ''List Inode ['' @ fmt_d ino @ ''] on super block ['' @ species @ '']'' @ [CHR 0x0A];
        (r, st) \<leftarrow> list_supers ino fp b_this_page (fs_supers fstype) (length line)
          (st\<lparr>pagebuf := sprintf_at 0 line (pagebuf st)\<rparr>);
        Some (r, st, s)
      })"

definition my_init :: "kworld \<Rightarrow> int \<times> kworld" where
  "my_init s = (0, create_proc_read_entry ''list_buffer'' s)"

definition my_exit :: "kworld \<Rightarrow> kworld" where
  "my_exit s = remove_proc_entry ''list_buffer'' s"

subsection \<open>Counting the buffer heads of a page\<close>

lemma buffer_loop_ring:
  "map nx (b # xs) = xs @ [head] \<Longrightarrow> head \<notin> set xs \<Longrightarrow>
   buffer_loop nx head b n = Some (n + 1 + int (length xs))"
proof (induction xs arbitrary: b n)
  case (Cons x xs)
  then have "buffer_loop nx head x (n + 1) = Some (n + 1 + 1 + int (length xs))"
    by (intro Cons.IH) auto
  with Cons.prems show ?case by (subst buffer_loop.simps) auto
qed (auto simp: buffer_loop.simps)

lemma buffer_loop_count:
  "bh_ring nx head xs \<Longrightarrow> buffer_loop nx head head 0 = Some (int (length xs))"
  using buffer_loop_ring [of nx head "tl xs" head 0] by (cases xs) (auto simp: bh_ring_def)

text \<open>How many buffer heads a page has, when its ring is \<open>rings\<close> of the page.\<close>

definition nbuf :: "(page \<Rightarrow> addr list) \<Rightarrow> page \<Rightarrow> int" where
  "nbuf rings page = (if page_has_buffers page then int (length (rings page)) else 0)"

definition ringed :: "(addr \<Rightarrow> addr) \<Rightarrow> (page \<Rightarrow> addr list) \<Rightarrow> page \<Rightarrow> bool" where
  "ringed b_this_page rings page =
     (page_has_buffers page \<longrightarrow> bh_ring b_this_page (page_buffers page) (rings page))"

lemma radix_node_has_buffer_page:
  assumes "ringed nx rings page"
  obtains st' where "radix_node_has_buffer fp nx (Page page) st = Some (nbuf rings page, st')"
    "pagebuf st' = pagebuf st"
  using assms
  by (cases "page_has_buffers page")
    (auto simp: radix_node_has_buffer_def ringed_def nbuf_def buffer_loop_count)

subsection \<open>The tree as a list of pages\<close>

fun wf_tree :: "nat \<Rightarrow> slot \<Rightarrow> bool" where
  "wf_tree h Null = True"
| "wf_tree 0 (Page _) = True"
| "wf_tree (Suc h) (Node _ slots) = (length slots = 64 \<and> list_all (wf_tree h) slots)"
| "wf_tree _ _ = False"

text \<open>The pages below a slot, in order, with their indexes (which start at \<open>base\<close>).\<close>

fun tree_pages :: "nat \<Rightarrow> nat \<Rightarrow> slot \<Rightarrow> (nat \<times> page) list" where
  "tree_pages 0 base (Page page) = [(base, page)]"
| "tree_pages (Suc h) base (Node _ slots) =
     concat (map (\<lambda>k. tree_pages h (base + k * 64 ^ h) (slots ! k)) [0..<length slots])"
| "tree_pages _ _ _ = []"

fun lookup :: "nat \<Rightarrow> nat \<Rightarrow> slot \<Rightarrow> slot" where
  "lookup 0 i s = s"
| "lookup (Suc h) i (Node _ slots) = lookup h (i mod 64 ^ h) (slots ! (i div 64 ^ h))"
| "lookup (Suc h) i _ = Null"

lemma lookup_Null [simp]: "lookup h i Null = Null"
  by (cases h) simp_all

lemma and_63: "(n :: nat) AND 63 = n mod 64"
  using take_bit_eq_mask [of 6 n] by (simp add: take_bit_eq_mod mask_eq_exp_minus_1)

lemma digit_mod: "(i mod 64 ^ Suc h) div 64 ^ h = i div 64 ^ h mod (64 :: nat)"
proof -
  have "i mod 64 ^ Suc h = 64 ^ h * (i div 64 ^ h mod 64) + i mod 64 ^ h"
    using mod_mult2_eq [of i "64 ^ h" 64] by (simp add: mult.commute)
  then show ?thesis by simp
qed

lemma digit_mod_mod: "(i mod 64 ^ Suc h) mod 64 ^ h = (i mod 64 ^ h :: nat)"
  by (rule mod_mod_cancel) simp

text \<open>Descending with the masked digits of the index is looking up the index.\<close>

lemma descend_lookup:
  assumes "wf_tree (Suc h) (Node k slots)" "h \<le> 10"
  shows "descend (Suc h) index (6 * h) (Node k slots) =
    Some (lookup (Suc h) (index mod 64 ^ Suc h) (Node k slots))"
  using assms
proof (induction h arbitrary: k slots)
  case 0
  then show ?case by (simp add: and_63 Let_def)
next
  case (Suc h)
  define d where "d = index div 64 ^ Suc h mod 64"
  have "(2 :: nat) ^ (6 * Suc h) = 64 ^ Suc h" by (simp only: power_mult) simp
  then have d: "drop_bit (6 * Suc h) index AND 63 = d"
    by (simp only: and_63 drop_bit_eq_div d_def)
  have wf: "wf_tree (Suc h) (slots ! d)" and len: "d < length slots"
    using Suc.prems by (auto simp: d_def list_all_length)
  have sh: "u32 (int (6 * Suc h) - 6) = 6 * h"
    using Suc.prems(2) u32_id [of "6 * h"] by simp
  have look: "lookup (Suc (Suc h)) (index mod 64 ^ Suc (Suc h)) (Node k slots)
      = lookup (Suc h) (index mod 64 ^ Suc h) (slots ! d)"
    by (simp only: lookup.simps digit_mod digit_mod_mod d_def)
  have desc: "descend (Suc (Suc h)) index (6 * Suc h) (Node k slots) =
      (if slots ! d = Null then Some Null else descend (Suc h) index (6 * h) (slots ! d))"
    using d len sh Suc.prems(2) by (simp add: Let_def)
  show ?case
    unfolding look desc using wf Suc.IH Suc.prems(2) by (cases "slots ! d") simp_all
qed

subsection \<open>The index loop is a traversal of the tree\<close>

fun page_at :: "nat \<Rightarrow> slot \<Rightarrow> (nat \<times> page) list" where
  "page_at i (Page page) = [(i, page)]"
| "page_at i _ = []"

lemma upt_mult: "[0..<m * n] = concat (map (\<lambda>k. map ((+) (k * n)) [0..<n]) [0..<m])"
proof (induction m)
  case (Suc m)
  have "map ((+) (m * n)) [0..<n] = map (\<lambda>i. i + m * n) [0..<n]" by (simp add: add.commute)
  then have "[0..<Suc m * n] = [0..<m * n] @ map ((+) (m * n)) [0..<n]"
    using upt_add_eq_append [of 0 "m * n" n] map_add_upt [of "m * n" n]
    by (simp add: add.commute)
  with Suc show ?case by simp
qed simp

lemma concat_map_concat: "concat (map f (concat xss)) = concat (map (\<lambda>xs. concat (map f xs)) xss)"
  by (induction xss) auto

lemma tree_pages_lookup:
  "wf_tree h s \<Longrightarrow>
   concat (map (\<lambda>i. page_at (base + i) (lookup h i s)) [0..<64 ^ h]) = tree_pages h base s"
proof (induction h s arbitrary: base rule: wf_tree.induct)
  case (3 h k slots)
  have step: "concat (map (\<lambda>i. page_at (base + i) (lookup (Suc h) i (Node k slots)))
      (map ((+) (j * 64 ^ h)) [0..<64 ^ h])) = tree_pages h (base + j * 64 ^ h) (slots ! j)"
    if "j < 64" for j
  proof -
    have "concat (map (\<lambda>i. page_at (base + j * 64 ^ h + i) (lookup h i (slots ! j))) [0..<64 ^ h])
        = tree_pages h (base + j * 64 ^ h) (slots ! j)"
      using 3 that by (intro "3.IH") (auto simp: list_all_iff)
    moreover have "map (\<lambda>i. page_at (base + j * 64 ^ h + i) (lookup h i (slots ! j))) [0..<64 ^ h]
        = map (\<lambda>i. page_at (base + i) (lookup (Suc h) i (Node k slots)))
            (map ((+) (j * 64 ^ h)) [0..<64 ^ h])"
      by (auto simp: add.assoc)
    ultimately show ?thesis by (simp only:)
  qed
  have "[0..<64 ^ Suc h] = concat (map (\<lambda>j. map ((+) (j * 64 ^ h)) [0..<64 ^ h]) [0..<64])"
    using upt_mult [of 64 "64 ^ h"] by simp
  then have "concat (map (\<lambda>i. page_at (base + i) (lookup (Suc h) i (Node k slots))) [0..<64 ^ Suc h])
      = concat (map (\<lambda>j. concat (map (\<lambda>i. page_at (base + i) (lookup (Suc h) i (Node k slots)))
          (map ((+) (j * 64 ^ h)) [0..<64 ^ h]))) [0..<64])"
    by (simp only: concat_map_concat map_map comp_def)
  also have "\<dots> = concat (map (\<lambda>j. tree_pages h (base + j * 64 ^ h) (slots ! j)) [0..<64])"
    by (intro arg_cong [of _ _ concat] map_cong refl step) auto
  finally show ?case using 3 by simp
qed simp_all

lemma lookup_wf: "wf_tree h s \<Longrightarrow> i < 64 ^ h \<Longrightarrow> lookup h i s = Null \<or> (\<exists>page. lookup h i s = Page page)"
proof (induction h s arbitrary: i rule: wf_tree.induct)
  case (3 h k slots)
  then have "i div 64 ^ h < 64" by (simp add: less_mult_imp_div_less mult.commute)
  with 3 show ?case by (simp add: list_all_length)
qed simp_all

lemma lookup_in_tree:
  assumes "wf_tree h s" "i < 64 ^ h" "lookup h i s = Page page"
  shows "(i, page) \<in> set (tree_pages h 0 s)"
  using assms tree_pages_lookup [OF assms(1), of 0, symmetric] by (auto intro!: bexI [of _ i])

subsection \<open>What the walk reports\<close>

definition report_lines :: "(page \<Rightarrow> addr list) \<Rightarrow> (nat \<times> page) list \<Rightarrow> string" where
  "report_lines rings pages =
     concat (map (\<lambda>(i, page). if nbuf rings page = 0 then [] else index_line i) pages)"

definition total_buffers :: "(page \<Rightarrow> addr list) \<Rightarrow> (nat \<times> page) list \<Rightarrow> int" where
  "total_buffers rings pages = sum_list (map (\<lambda>(i, page). nbuf rings page) pages)"

lemmas report_defs = report_lines_def total_buffers_def

text \<open>The state of the loop after the pages of the list.\<close>

definition reported :: "(page \<Rightarrow> addr list) \<Rightarrow> nat \<Rightarrow> (nat \<times> page) list \<Rightarrow> walk_acc \<Rightarrow> bool" where
  "reported rings pos pages acc \<longleftrightarrow>
     page_count acc = int (length pages) \<and> buffer_head_count acc = total_buffers rings pages \<and>
     ret acc = length (report_lines rings pages) \<and>
     text_at (pagebuf (out acc)) pos (ret acc) = report_lines rings pages"

lemma visit_reported:
  assumes acc: "reported rings pos pages acc"
    and node: "node = Null \<or> (\<exists>page. node = Page page \<and> ringed nx rings page)"
  shows "\<exists>acc'. visit fp nx pos index node acc = Some acc' \<and>
    reported rings pos (pages @ page_at index node) acc'"
proof (cases "node = Null")
  case False
  with node obtain page where page: "node = Page page" "ringed nx rings page" by auto
  from radix_node_has_buffer_page [OF page(2)] obtain st' where
    "radix_node_has_buffer fp nx (Page page) (out acc) = Some (nbuf rings page, st')"
    "pagebuf st' = pagebuf (out acc)" by blast
  with acc page(1) show ?thesis
    by (auto simp: visit_def reported_def report_defs text_at_sprintf)
qed (use acc in \<open>simp add: visit_def\<close>)

lemma walk_loop_reported:
  assumes root: "rnode root = Indirect (Node (Suc h) slots)" "h \<le> 10"
    and tree: "wf_tree (Suc h) (Node (Suc h) slots)"
    and rings: "\<forall>(i, page) \<in> set (tree_pages (Suc h) 0 (Node (Suc h) slots)). ringed nx rings page"
  shows "\<forall>i\<in>set is. i < 64 ^ Suc h \<Longrightarrow> reported rings pos pages acc \<Longrightarrow>
    \<exists>acc'. walk_loop fp nx pos root is acc = Some acc' \<and> reported rings pos
      (pages @ concat (map (\<lambda>i. page_at i (lookup (Suc h) i (Node (Suc h) slots))) is)) acc'"
proof (induction "is" arbitrary: pages acc)
  case (Cons i "is")
  let ?node = "lookup (Suc h) i (Node (Suc h) slots)"
  from Cons.prems have i: "i < 64 ^ Suc h" by simp
  have "u32 ((int (Suc h) - 1) * 6) = 6 * h"
    using root(2) u32_id [of "6 * h"] by (simp add: mult.commute)
  then have d: "descend (Suc h) i (u32 ((int (Suc h) - 1) * 6)) (Node (Suc h) slots) = Some ?node"
    using descend_lookup [OF tree root(2), of i] i by (simp only: mod_less)
  have "?node = Null \<or> (\<exists>page. ?node = Page page \<and> ringed nx rings page)"
    using lookup_wf [OF tree i] lookup_in_tree [OF tree i] rings by fastforce
  from visit_reported [OF Cons.prems(2) this, of fp i] obtain acc1
    where "visit fp nx pos i ?node acc = Some acc1" "reported rings pos (pages @ page_at i ?node) acc1"
    by auto
  with Cons.IH [of "pages @ page_at i ?node" acc1] Cons.prems(1) root(1) d show ?case
    by (simp del: lookup.simps descend.simps)
qed simp

text \<open>The indexes a tree of a height can hold, cut off at what \<open>unsigned int\<close> can hold.\<close>

lemma max_index_bound:
  assumes "h \<le> RADIX_TREE_MAX_PATH"
  shows "\<exists>m. radix_tree_maxindex radix_tree_init_maxindex h = Some m \<and>
    m = min (64 ^ h) (2 ^ 64) - 1 \<and> u32 (int m) = min (64 ^ h) (2 ^ 32) - 1"
proof -
  have "h = 0 \<or> h = 1 \<or> h = 2 \<or> h = 3 \<or> h = 4 \<or> h = 5 \<or> h = 6 \<or> h = 7 \<or> h = 8 \<or>
      h = 9 \<or> h = 10 \<or> h = 11" using assms by presburger
  then have "maxindex h = min (64 ^ h) (2 ^ 64) - 1 \<and>
      u32 (int (maxindex h)) = min (64 ^ h) (2 ^ 32) - 1"
    by (auto simp: maxindex_def u32_def drop_bit_eq_div)
  moreover have "radix_tree_maxindex radix_tree_init_maxindex h = Some (maxindex h)"
    using assms by (simp add: radix_tree_maxindex_def radix_tree_init_maxindex_def del: upt_Suc)
  ultimately show ?thesis by blast
qed

lemma walk_through_reported:
  assumes root: "rnode root = Indirect (Node h slots)" "1 \<le> h" "h \<le> 5"
    and tree: "wf_tree h (Node h slots)"
    and rings: "\<forall>(i, page) \<in> set (tree_pages h 0 (Node h slots)). ringed nx rings page"
    and report: "report = report_lines rings (tree_pages h 0 (Node h slots)) @
      summary_line fp (r_addr root) (int (length (tree_pages h 0 (Node h slots))))
        (total_buffers rings (tree_pages h 0 (Node h slots)))"
  shows "\<exists>st'. radix_tree_walk_through fp nx pos root st = Some (length report, st') \<and>
    text_at (pagebuf st') pos (length report) = report"
proof -
  obtain h' where h: "h = Suc h'" using root(2) by (cases h) auto
  have "(64 :: nat) ^ h \<le> 64 ^ 5" by (rule power_increasing [OF root(3)]) simp
  with max_index_bound [of h] root(3) obtain m
    where m: "radix_tree_maxindex radix_tree_init_maxindex h = Some m" "Suc (u32 (int m)) = 64 ^ h"
    by auto
  have "reported rings pos [] \<lparr>ret = 0, page_count = 0, buffer_head_count = 0, out = st\<rparr>"
    by (simp add: reported_def report_defs)
  from walk_loop_reported [OF root(1) [unfolded h] _ tree [unfolded h] rings [unfolded h]
      _ this, of "[0..<64 ^ h]" fp] root(3) h
  obtain acc where acc: "walk_loop fp nx pos root [0..<64 ^ h]
      \<lparr>ret = 0, page_count = 0, buffer_head_count = 0, out = st\<rparr> = Some acc"
    "reported rings pos (tree_pages h 0 (Node h slots)) acc"
    using tree_pages_lookup [OF tree, of 0] by auto
  define line where "line = summary_line fp (r_addr root) (page_count acc) (buffer_head_count acc)"
  have "radix_tree_walk_through fp nx pos root st = Some (ret acc + length line,
      (out acc)\<lparr>pagebuf := sprintf_at (pos + ret acc) line (pagebuf (out acc))\<rparr>)"
    using root(1) m acc(1) by (simp add: radix_tree_walk_through_def Let_def line_def del: upt_Suc)
  with acc(2) show ?thesis by (auto simp: report line_def reported_def text_at_sprintf)
qed

subsection \<open>When the loop over the buffer heads ends\<close>

lemma buffer_loop_first_return:
  "(nx ^^ Suc k) b = head \<Longrightarrow> (\<And>j. j < k \<Longrightarrow> (nx ^^ Suc j) b \<noteq> head) \<Longrightarrow>
   buffer_loop nx head b n = Some (n + int (Suc k))"
proof (induction k arbitrary: b n)
  case (Suc k)
  have "buffer_loop nx head (nx b) (n + 1) = Some (n + 1 + int (Suc k))"
  proof (rule Suc.IH)
    show "(nx ^^ Suc k) (nx b) = head" using Suc.prems(1) by (simp add: funpow_swap1)
    show "(nx ^^ Suc j) (nx b) \<noteq> head" if "j < k" for j
      using Suc.prems(2) [of "Suc j"] that by (simp add: funpow_swap1)
  qed
  with Suc.prems(2) [of 0] show ?case by (subst buffer_loop.simps) (simp add: Let_def)
qed (simp add: buffer_loop.simps)

lemma buffer_loop_returns:
  "buffer_loop nx head b n = Some m \<Longrightarrow> \<exists>k. (nx ^^ Suc k) b = head"
proof (induction rule: buffer_loop.raw_induct [rotated, consumes 1])
  case (1 bl nx head b n m)
  show ?case
  proof (cases "nx b = head")
    case False
    with 1(2) have "bl nx head (nx b) (n + 1) = Some m" by (simp add: Let_def)
    from 1(1) [OF this] obtain k where "(nx ^^ Suc k) (nx b) = head" ..
    then have "(nx ^^ Suc (Suc k)) b = head" by (simp add: funpow_swap1)
    then show ?thesis ..
  qed (auto intro: exI [of _ 0])
qed

text \<open>
  C30: The loop over the buffer heads of a page returns exactly when following \<open>b_this_page\<close> from
  the first buffer head comes back to it; otherwise \<open>radix_node_has_buffer\<close> hangs in the kernel.
\<close>

theorem buffer_loop_terminates:
  "(\<exists>n. buffer_loop b_this_page head head 0 = Some n) \<longleftrightarrow>
   (\<exists>k. 0 < k \<and> (b_this_page ^^ k) head = head)" (is "?L \<longleftrightarrow> ?R")
proof
  assume ?L
  then show ?R using buffer_loop_returns by blast
next
  assume ?R
  then have ex: "\<exists>k. (b_this_page ^^ Suc k) head = head" by (metis gr0_conv_Suc)
  define k where "k = (LEAST k. (b_this_page ^^ Suc k) head = head)"
  have "(b_this_page ^^ Suc k) head = head" unfolding k_def by (rule LeastI_ex [OF ex])
  moreover have "(b_this_page ^^ Suc j) head \<noteq> head" if "j < k" for j
    using not_less_Least that unfolding k_def by blast
  ultimately show ?L using buffer_loop_first_return by blast
qed

subsection \<open>The walk\<close>

text \<open>
  C29: For a well-formed radix tree of height 1 to 5, the walk over all indexes prints exactly what
  an in-order traversal of the tree gives: one line per page that has buffer heads, in the order
  of the indexes, and then the number of all pages and of all buffer heads. It returns the length
  of that text.
\<close>

theorem walk_reports_tree:
  assumes "rnode root = Indirect (Node h slots)" "1 \<le> h" "h \<le> 5" "wf_tree h (Node h slots)"
    and "\<forall>(i, page) \<in> set (tree_pages h 0 (Node h slots)). ringed b_this_page rings page"
    and "pages = tree_pages h 0 (Node h slots)"
    and "report = report_lines rings pages @
      summary_line fp (r_addr root) (int (length pages)) (total_buffers rings pages)"
  shows "\<exists>st'. radix_tree_walk_through fp b_this_page pos root st = Some (length report, st') \<and>
    text_at (pagebuf st') pos (length report) = report"
  using walk_through_reported [OF assms(1-5)] assms(6,7) by blast

definition sample_page :: page where
  "sample_page = \<lparr>p_addr = 4096, page_has_buffers = True, page_buffers = 1\<rparr>"

definition sample_ring :: "addr \<Rightarrow> addr" where
  "sample_ring p = (if p = 1 then 2 else 1)"

definition sample_slots :: "slot list" where
  "sample_slots = Page sample_page # replicate 62 Null @ [Page (sample_page\<lparr>page_has_buffers := False\<rparr>)]"

lemma sample_pages: "tree_pages (Suc 0) 0 (Node (Suc 0) sample_slots) =
    [(0, sample_page), (63, sample_page\<lparr>page_has_buffers := False\<rparr>)]"
  by (simp add: sample_slots_def upt_rec numeral_eq_Suc)

lemma sample_wf: "wf_tree (Suc 0) (Node (Suc 0) sample_slots)"
  by (simp add: sample_slots_def list_all_iff)

lemma sample_ringed: "ringed sample_ring (\<lambda>_. [1, 2]) sample_page"
    "ringed sample_ring (\<lambda>_. [1, 2]) (sample_page\<lparr>page_has_buffers := False\<rparr>)"
  by (simp_all add: ringed_def bh_ring_def sample_page_def sample_ring_def)

definition sample_report :: string where
  "sample_report = ''    Page Index [0] has buffer'' @ [CHR 0x0A] @
     ''Tree[P]has 2 pages , and 2 buffer head'' @ [CHR 0x0A]"

lemma sample_report: "report_lines (\<lambda>_. [1, 2]) (tree_pages (Suc 0) 0 (Node (Suc 0) sample_slots)) @
    summary_line (\<lambda>_. ''P'') 7 (int (length (tree_pages (Suc 0) 0 (Node (Suc 0) sample_slots))))
      (total_buffers (\<lambda>_. [1, 2]) (tree_pages (Suc 0) 0 (Node (Suc 0) sample_slots))) = sample_report"
  unfolding sample_pages
  by (simp add: report_defs summary_line_def index_line_def nbuf_def sample_page_def fmt_d_def
      digits.simps char_of_def bit_0 sample_report_def)

theorem walk_reports_tree_witness:
  "\<exists>st'. radix_tree_walk_through (\<lambda>_. ''P'') sample_ring 5
      \<lparr>r_addr = 7, rnode = Indirect (Node (Suc 0) sample_slots)\<rparr> \<lparr>pagebuf = (\<lambda>_. CHR ''x''), printk = []\<rparr>
    = Some (length sample_report, st') \<and> text_at (pagebuf st') 5 (length sample_report) = sample_report"
proof (rule walk_reports_tree)
  show "\<forall>(i, page) \<in> set (tree_pages (Suc 0) 0 (Node (Suc 0) sample_slots)).
      ringed sample_ring (\<lambda>_. [1, 2]) page"
    unfolding sample_pages by (simp add: sample_ringed)
qed (simp_all add: sample_wf sample_report [symmetric] del: tree_pages.simps wf_tree.simps)

subsection \<open>The size of the text\<close>

lemma length_index_line: "30 \<le> length (index_line i)"
  using length_fmt_d [of "int i"] by (simp add: index_line_def)

lemma report_lines_length:
  "30 * length (filter (\<lambda>(i, page). nbuf rings page \<noteq> 0) pages) \<le> length (report_lines rings pages)"
proof (induction pages)
  case (Cons p ps)
  then show ?case using length_index_line [of "fst p"] by (cases p) (auto simp: report_lines_def)
qed simp

text \<open>Whatever is printed for one inode is part of the text of the superblock and of the entry.\<close>

lemma list_inode_mono:
  "list_inode ino fp nx pos inode acc = Some acc' \<Longrightarrow> s_ret acc \<le> s_ret acc'"
  by (auto simp: list_inode_def Let_def split: if_splits prod.splits Option.bind_splits)

lemma list_inodes_mono:
  "list_inodes ino fp nx pos inodes acc = Some acc' \<Longrightarrow> s_ret acc \<le> s_ret acc'"
  by (induction inodes arbitrary: acc)
    (auto split: Option.bind_splits dest!: list_inode_mono intro: order_trans)

lemma list_inodes_contains:
  assumes "inode \<in> set inodes" "i_ino inode = size_t ino"
    and walk: "\<And>pos st n st'. radix_tree_walk_through fp nx pos (page_tree inode) st = Some (n, st') \<Longrightarrow> k \<le> n"
    and "list_inodes ino fp nx pos inodes acc = Some acc'"
  shows "k \<le> s_ret acc'"
  using assms(1,4)
proof (induction inodes arbitrary: acc)
  case (Cons x xs)
  from Cons.prems(2) obtain acc1 where acc1: "list_inode ino fp nx pos x acc = Some acc1"
    "list_inodes ino fp nx pos xs acc1 = Some acc'" by (auto split: Option.bind_splits)
  show ?case
  proof (cases "x = inode")
    case True
    with acc1(1) assms(2) have "k \<le> s_ret acc1"
      by (auto simp: list_inode_def Let_def split: if_splits prod.splits Option.bind_splits
          dest!: walk)
    with list_inodes_mono [OF acc1(2)] show ?thesis by simp
  next
    case False
    with Cons.prems(1) Cons.IH [OF _ acc1(2)] show ?thesis by simp
  qed
qed simp

lemma list_supers_mono:
  "list_supers ino fp nx supers r st = Some (r', st') \<Longrightarrow> r \<le> r'"
  by (induction supers arbitrary: r st) (fastforce split: Option.bind_splits if_splits)+

lemma list_supers_contains:
  assumes "sb \<in> set supers"
    and set: "\<And>pos st n st'. set_sb ino fp nx pos sb st = Some (n, st') \<Longrightarrow> k \<le> n"
    and "list_supers ino fp nx supers r st = Some (r', st')"
  shows "r + k \<le> r'"
  using assms(1,3)
proof (induction supers arbitrary: r st)
  case (Cons x xs)
  from Cons.prems(2) obtain n st1 where 1: "set_sb ino fp nx r x st = Some (n, st1)"
    "list_supers ino fp nx xs (r + n) st1 = Some (r', st')"
    by (auto simp: test_sb_def split: Option.bind_splits)
  show ?case
  proof (cases "x = sb")
    case True
    with set 1(1) list_supers_mono [OF 1(2)] show ?thesis by fastforce
  next
    case False
    with Cons.prems(1) Cons.IH [OF _ 1(2)] show ?thesis by simp
  qed
qed simp

text \<open>
  C31: Take any inode with the number that is looked for, with a tree of height 1 to 5. Reading the \<open>/proc\<close> entry
  prints at least 30 bytes for every page of this inode with buffer heads, and nothing bounds it: with 137 such pages it
  writes past the page of 4096 bytes that the kernel passes. Each such read also takes a reference on
  the file system type and keeps it.
\<close>

theorem list_buffer_unbounded:
  assumes "list_buffer ino species fs_supers fp b_this_page st s = Some (r, st', s')"
    and "resources s = Some H" "ask s \<noteq> 0"
    and "sb \<in> set (fs_supers (ask s))" "inode \<in> set (s_inodes sb)" "i_ino inode = size_t ino"
    and "rnode (page_tree inode) = Indirect (Node h slots)" "1 \<le> h" "h \<le> 5"
    and "wf_tree h (Node h slots)"
    and "\<forall>(i, page) \<in> set (tree_pages h 0 (Node h slots)). ringed b_this_page rings page"
  shows "30 * length (filter (\<lambda>(i, page). nbuf rings page \<noteq> 0) (tree_pages h 0 (Node h slots))) < r \<and>
    resources s' = Some (add_mset (Obj ''file_system_type'' (ask s)) H)"
proof (intro conjI)
  let ?k = "30 * length (filter (\<lambda>(i, page). nbuf rings page \<noteq> 0) (tree_pages h 0 (Node h slots)))"
  have walk: "?k \<le> n" if "radix_tree_walk_through fp b_this_page pos (page_tree inode) st = Some (n, st')"
    for pos st n st'
    using that walk_through_reported [OF assms(7-11) refl, of fp pos st] report_lines_length
    by (fastforce intro: trans_le_add1)
  have set: "?k \<le> n" if "set_sb ino fp b_this_page pos sb st = Some (n, st')" for pos st n st'
    using that list_inodes_contains [OF assms(5,6) walk]
    by (fastforce simp: set_sb_def Let_def split: Option.bind_splits prod.splits intro: trans_le_add1)
  show "?k < r"
    using assms(1,3) list_supers_contains [OF assms(4) set]
    by (fastforce simp: list_buffer_def obtain_obj_def Let_def split: Option.bind_splits)
  show "resources s' = Some (add_mset (Obj ''file_system_type'' (ask s)) H)"
    using assms(1-3)
    by (auto simp: list_buffer_def obtain_obj_def objs_def Let_def ksimps split: Option.bind_splits)
qed

definition sample_root :: radix_root where
  "sample_root = \<lparr>r_addr = 7, rnode = Indirect (Node (Suc 0) sample_slots)\<rparr>"

lemma sample_walk:
  "\<exists>f. \<forall>pos st. radix_tree_walk_through (\<lambda>_. ''P'') sample_ring pos sample_root st =
     Some (length sample_report, f pos st)"
proof -
  have rings: "\<forall>(i, page) \<in> set (tree_pages (Suc 0) 0 (Node (Suc 0) sample_slots)).
      ringed sample_ring (\<lambda>_. [1, 2]) page"
    unfolding sample_pages by (simp add: sample_ringed)
  have "\<exists>st'. radix_tree_walk_through (\<lambda>_. ''P'') sample_ring pos sample_root st =
      Some (length sample_report, st') \<and> text_at (pagebuf st') pos (length sample_report) = sample_report"
    for pos st
    by (rule walk_through_reported [OF _ _ _ sample_wf rings])
      (simp_all add: sample_root_def sample_report [symmetric] del: tree_pages.simps)
  then show ?thesis by metis
qed

definition sample_sb :: super_block where
  "sample_sb = \<lparr>s_id = ''sda1'', s_inodes = [\<lparr>c_addr = 9, i_ino = 8, nrpages = 2,
     page_tree = sample_root, mapping_is_i_data = True, i_dentry = [''journal''], private_list = []\<rparr>]\<rparr>"

definition sample_world :: kworld where
  "sample_world = \<lparr>answers = (\<lambda>_. 3), ncalls = 0, klog = []\<rparr>"

theorem list_buffer_unbounded_witness:
  "\<exists>r st' s'. list_buffer 8 ''ext3'' (\<lambda>_. [sample_sb]) (\<lambda>_. ''P'') sample_ring
      \<lparr>pagebuf = (\<lambda>_. CHR ''x''), printk = []\<rparr> sample_world = Some (r, st', s') \<and> 30 < r \<and>
    resources s' = Some {#Obj ''file_system_type'' 3#}"
proof -
  obtain r st' s' where lb: "list_buffer 8 ''ext3'' (\<lambda>_. [sample_sb]) (\<lambda>_. ''P'') sample_ring
      \<lparr>pagebuf = (\<lambda>_. CHR ''x''), printk = []\<rparr> sample_world = Some (r, st', s')"
    using sample_walk
    by (auto simp: list_buffer_def sample_world_def obtain_obj_def ask_def set_sb_def list_inode_def
        sample_sb_def totals_lines_def Let_def test_sb_def inode_has_buffers_def)
  have 1: "resources sample_world = Some {#}" "ask sample_world = 3"
    by (simp_all add: sample_world_def resources_def ask_def)
  show ?thesis
    using list_buffer_unbounded [OF lb 1(1), of sample_sb "hd (s_inodes sample_sb)" "Suc 0" sample_slots
        "\<lambda>_. [1, 2]"] lb 1(2) sample_wf sample_ringed
    by (simp add: sample_pages sample_sb_def sample_root_def nbuf_def sample_page_def
        del: tree_pages.simps wf_tree.simps)
qed

subsection \<open>Loading the module\<close>

text \<open>The \<open>/proc\<close> entry is all the module holds, and unloading removes it.\<close>

interpretation list_buffer_mod: module_lifecycle "\<lambda>g s. (case my_init s of (r, s') \<Rightarrow> (r, g, s'))"
  "\<lambda>_. my_exit" "\<lambda>_. {#Proc ''list_buffer''#}"
  by unfold_locales (auto simp: my_init_def my_exit_def kernel_simps)

end
