(* ===== verification/List_Cache.thy ===== *)
theory List_Cache
  imports List_Buffer
begin

text \<open>
  The page cache statistics of \<open>memory/list_cache.c\<close>: the same walk over superblocks and inodes as
  \<open>List_Buffer\<close>, without the radix tree; every inode is counted and those with more pages than the
  threshold are printed. The helpers for names and for the totals are the same functions.
\<close>

definition cache_inode :: "int \<Rightarrow> (addr \<Rightarrow> string) \<Rightarrow> nat \<Rightarrow> cinode \<Rightarrow> set_acc \<Rightarrow> set_acc" where
  "cache_inode show_threshold fp pos inode acc =
     (let r = s_ret acc; st = s_out acc;
          (r, st) =
            (if nrpages inode > size_t show_threshold then
               let line = inode_line fp inode;
                   st = st\<lparr>pagebuf := sprintf_at (pos + r) line (pagebuf st)\<rparr>;
                   r = r + length line;
                   (n, st) = show_dentry (i_dentry inode) (pos + r) 0 st
               in (r + n, st)
             else (r, st));
          st = (if \<not> mapping_is_i_data inode
                then print_dentry inode ''[Inode i_mapping NOT point to i_data]'' st else st);
          (st, b) = (if inode_has_buffers inode
            then (print_dentry inode ''[Inode has buffers]'' st, size_t (buffer_inode_count acc + 1))
            else (st, buffer_inode_count acc))
      in \<lparr>s_ret = r, total_page_count = size_t (total_page_count acc + nrpages inode),
          total_inode_count = size_t (total_inode_count acc + 1), buffer_inode_count = b, s_out = st\<rparr>)"

definition cache_set :: "int \<Rightarrow> (addr \<Rightarrow> string) \<Rightarrow> nat \<Rightarrow> super_block \<Rightarrow> out_state \<Rightarrow> nat \<times> set_acc \<times> out_state" where
  "cache_set show_threshold fp pos sb st =
     (let line = ''fst sid = '' @ s_id sb @ [CHR 0x0A];
          acc = fold (cache_inode show_threshold fp pos) (s_inodes sb)
            \<lparr>s_ret = length line, total_page_count = 0, total_inode_count = 0, buffer_inode_count = 0,
             s_out = st\<lparr>pagebuf := sprintf_at pos line (pagebuf st)\<rparr>\<rparr>;
          (l1, l2) = totals_lines acc;
          m = sprintf_at (pos + s_ret acc) l1 (pagebuf (s_out acc));
          r = s_ret acc + length l1
      in (r + length l2, acc, (s_out acc)\<lparr>pagebuf := sprintf_at (pos + r) l2 m\<rparr>))"

fun cache_supers :: "int \<Rightarrow> (addr \<Rightarrow> string) \<Rightarrow> super_block list \<Rightarrow> nat \<Rightarrow> out_state \<Rightarrow> nat \<times> out_state" where
  "cache_supers show_threshold fp [] r st = (r, st)"
| "cache_supers show_threshold fp (old # supers) r st =
     (if \<not> test_sb old then cache_supers show_threshold fp supers r st
      else case cache_set show_threshold fp r old st of
        (n, acc, st) \<Rightarrow> cache_supers show_threshold fp supers (r + n) st)"

definition list_cache :: "int \<Rightarrow> string \<Rightarrow> (addr \<Rightarrow> super_block list) \<Rightarrow> (addr \<Rightarrow> string) \<Rightarrow> out_state \<Rightarrow>
    kworld \<Rightarrow> nat \<times> out_state \<times> kworld" where
  "list_cache show_threshold species fs_supers fp st s =
     (let (fstype, s) = obtain_obj ''get_fs_type'' ''file_system_type'' s in
      if fstype = 0 then
        let line = ''found no super block of ['' @ species @ '']'' @ [CHR 0x0A]
        in (length line, st\<lparr>pagebuf := sprintf_at 0 line (pagebuf st)\<rparr>, s)
      else
        let line = ''list super block of ['' @ species @ '']'' @ [CHR 0x0A];
            (r, st) = cache_supers show_threshold fp (fs_supers fstype) (length line)
              (st\<lparr>pagebuf := sprintf_at 0 line (pagebuf st)\<rparr>)
        in (r, st, s))"

definition cache_init :: "kworld \<Rightarrow> int \<times> kworld" where
  "cache_init s = (0, create_proc_read_entry ''list_cache'' s)"

definition cache_exit :: "kworld \<Rightarrow> kworld" where
  "cache_exit s = remove_proc_entry ''list_cache'' s"

subsection \<open>The totals\<close>

lemma size_t_add: "size_t (size_t a + b) = size_t (a + b)"
  by (simp add: size_t_def mod_add_left_eq)

lemma cache_inode_totals:
  "total_page_count (cache_inode th fp pos inode acc) = size_t (total_page_count acc + nrpages inode)"
  "total_inode_count (cache_inode th fp pos inode acc) = size_t (total_inode_count acc + 1)"
  "buffer_inode_count (cache_inode th fp pos inode acc) =
     (if inode_has_buffers inode then size_t (buffer_inode_count acc + 1) else buffer_inode_count acc)"
  by (simp_all add: cache_inode_def Let_def split: prod.splits)

text \<open>The printed totals are the sums over all inodes of the superblock, modulo \<open>2 ^ 64\<close>.\<close>

lemma fold_cache_totals:
  "size_t (total_page_count acc) = total_page_count acc \<Longrightarrow>
   size_t (total_inode_count acc) = total_inode_count acc \<Longrightarrow>
   size_t (buffer_inode_count acc) = buffer_inode_count acc \<Longrightarrow>
   total_page_count (fold (cache_inode th fp pos) inodes acc) =
     size_t (total_page_count acc + sum_list (map nrpages inodes)) \<and>
   total_inode_count (fold (cache_inode th fp pos) inodes acc) =
     size_t (total_inode_count acc + int (length inodes)) \<and>
   buffer_inode_count (fold (cache_inode th fp pos) inodes acc) =
     size_t (buffer_inode_count acc + int (length (filter inode_has_buffers inodes)))"
proof (induction inodes arbitrary: acc)
  case (Cons inode inodes)
  have "size_t (size_t x) = size_t x" for x by (simp add: size_t_def)
  with Cons show ?case
    by (auto simp: cache_inode_totals size_t_add add.assoc)
qed simp

lemma cache_set_totals:
  assumes "cache_set th fp pos sb st = (n, acc, st')"
  shows "total_page_count acc = size_t (sum_list (map nrpages (s_inodes sb))) \<and>
    total_inode_count acc = size_t (int (length (s_inodes sb))) \<and>
    buffer_inode_count acc = size_t (int (length (filter inode_has_buffers (s_inodes sb))))"
  using assms fold_cache_totals by (auto simp: cache_set_def Let_def size_t_def split: prod.splits)

text \<open>Each read of the entry keeps the reference on the file system type.\<close>

lemma list_cache_keeps_reference:
  assumes "list_cache th species fs_supers fp st s = (r, st', s')" "resources s = Some H" "ask s \<noteq> 0"
  shows "resources s' = Some (add_mset (Obj ''file_system_type'' (ask s)) H)"
  using assms by (auto simp: list_cache_def obtain_obj_def objs_nonzero ksimps Let_def split: prod.splits)

interpretation list_cache_mod: module_lifecycle "\<lambda>g s. (case cache_init s of (r, s') \<Rightarrow> (r, g, s'))"
  "\<lambda>_. cache_exit" "\<lambda>_. {#Proc ''list_cache''#}"
  by unfold_locales (auto simp: cache_init_def cache_exit_def kernel_simps)

end
