(* ===== verification/Journal_Map.thy ===== *)
theory Journal_Map
  imports Interfaces
begin

text \<open>
  The address space operations of the journalling lesson file systems: \<open>fs/journal/address_mapping.c\<close>
  and its earlier version \<open>fs/jbd2/address_mapping.c\<close>. Data pages are written through a journal:
  \<open>write_begin\<close> grabs the page, opens a transaction handle and gets write access for each of its
  buffers, \<open>write_end\<close> files the buffers and closes the handle.

  Pages and buffer heads live in two maps from addresses. The page cache, the journal and the block
  layer are kernel code: their answers come from the world; a locked page, a page reference and an
  open handle are objects that the log acquires and gives back. \<open>__block_write_begin\<close>, which attaches
  buffers to a page and maps them with the callback it is given, is the parameter \<open>bwb\<close>. A
  dereference of \<open>NULL\<close>, \<open>page_buffers\<close> of a page without buffers and a walk that does not end are
  \<open>None\<close>. An error pointer is a negative address. \<open>page_zero_new_buffers\<close>
  does nothing to the buffers, as the callback never marks one as new.
\<close>

subsection \<open>State\<close>

record jbuf =
  b_this_page :: addr
  b_size :: nat
  b_blocknr :: int
  buffer_mapped :: bool
  buffer_freed :: bool
  buffer_uptodate :: bool
  buffer_dirty :: bool

record jpage =
  page_private :: addr  \<comment> \<open>the first buffer head; \<open>0\<close>: the page has no buffers\<close>
  PageChecked :: bool
  PageUptodate :: bool
  PageDirty :: bool

record jst =
  bufs :: "addr \<Rightarrow> jbuf"
  pages :: "addr \<Rightarrow> jpage"
  i_size :: int
  kw :: kworld

abbreviation (input) "PAGE_CACHE_SHIFT \<equiv> 12 :: nat"
abbreviation (input) "PAGE_CACHE_SIZE \<equiv> 4096 :: nat"

definition upd_buf :: "addr \<Rightarrow> (jbuf \<Rightarrow> jbuf) \<Rightarrow> jst \<Rightarrow> jst" where
  "upd_buf bh f st = st\<lparr>bufs := (bufs st)(bh := f (bufs st bh))\<rparr>"

definition upd_page :: "addr \<Rightarrow> (jpage \<Rightarrow> jpage) \<Rightarrow> jst \<Rightarrow> jst" where
  "upd_page p f st = st\<lparr>pages := (pages st)(p := f (pages st p))\<rparr>"

text \<open>Kernel calls on the state.\<close>

definition jcall :: "(kworld \<Rightarrow> 'a \<times> kworld) \<Rightarrow> jst \<Rightarrow> 'a \<times> jst" where
  [kdefs]: "jcall f st = (case f (kw st) of (x, s) \<Rightarrow> (x, st\<lparr>kw := s\<rparr>))"

definition jdo :: "(kworld \<Rightarrow> kworld) \<Rightarrow> jst \<Rightarrow> jst" where
  [kdefs]: "jdo f st = st\<lparr>kw := f (kw st)\<rparr>"

definition page_held :: "addr \<Rightarrow> res list" where
  "page_held p = [Obj ''page_lock'' p, Obj ''page_ref'' p]"

text \<open>The page is returned locked and with a reference, or \<open>NULL\<close>.\<close>

definition grab_cache_page_write_begin :: "int \<Rightarrow> kworld \<Rightarrow> addr \<times> kworld" where
  [kdefs]: "grab_cache_page_write_begin index s =
     (ask s, answered (Obtain ''grab_cache_page_write_begin'' (if ask s = 0 then [] else page_held (ask s))) s)"

definition unlock_page :: "addr \<Rightarrow> kworld \<Rightarrow> kworld" where
  [kdefs]: "unlock_page p s = call (Giveback ''unlock_page'' [Obj ''page_lock'' p]) s"

definition page_cache_release :: "addr \<Rightarrow> kworld \<Rightarrow> kworld" where
  [kdefs]: "page_cache_release p s = call (Giveback ''page_cache_release'' [Obj ''page_ref'' p]) s"

definition journal_start :: "int \<Rightarrow> kworld \<Rightarrow> addr \<times> kworld" where
  [kdefs]: "journal_start credits s =
     (ask s, answered (Obtain ''journal_start'' (if IS_ERR (ask s) then [] else objs ''handle'' (ask s))) s)"

text \<open>\<open>journal_stop\<close> takes the transaction from the handle it is given, which must not be \<open>NULL\<close>.\<close>

definition journal_stop :: "addr \<Rightarrow> jst \<Rightarrow> (int \<times> jst) option" where
  "journal_stop handle st =
     (if handle = 0 then None
      else Some (jcall (\<lambda>s. (ask s, answered (Giveback ''journal_stop'' [Obj ''handle'' handle]) s)) st))"

text \<open>A page that is passed locked and is unlocked by the call.\<close>

definition block_write_full_page :: "addr \<Rightarrow> kworld \<Rightarrow> int \<times> kworld" where
  [kdefs]: "block_write_full_page p s =
     (ask s, answered (Giveback ''block_write_full_page'' [Obj ''page_lock'' p]) s)"

subsection \<open>Operations that do not touch the journal's buffers\<close>

definition example_journal_sync_file :: "jst \<Rightarrow> int \<times> jst" where
  "example_journal_sync_file st =
     (let (ret, st) = jcall (status_call ''filemap_write_and_wait_range'') st in
      if ret \<noteq> 0 then (ret, st)
      else
        let (ret, st) = jcall (status_call ''journal_force_commit'') st;
            (err, st) = jcall (status_call ''blkdev_issue_flush'') st
        in (if ret = 0 then err else ret, st))"

text \<open>Every block of a file is mapped to block 0 of the device, with the block size of the superblock.\<close>

definition map_bh :: "nat \<Rightarrow> int \<Rightarrow> jbuf \<Rightarrow> jbuf" where
  "map_bh s_blocksize block bh =
     bh\<lparr>buffer_mapped := True, b_blocknr := block, b_size := s_blocksize\<rparr>"

definition example_get_block :: "addr \<Rightarrow> nat \<Rightarrow> int \<Rightarrow> addr \<Rightarrow> jst \<Rightarrow> (int \<times> jst) option" where
  "example_get_block example_journal s_blocksize iblock bh_result st =
     (if example_journal = 0 then None
      else
        let st = upd_buf bh_result (map_bh s_blocksize 0) st;
            st = upd_buf bh_result (\<lambda>bh. bh\<lparr>b_size := 1 * b_size bh\<rparr>) st
        in Some (0, st))"

definition example_readpage :: "((int \<Rightarrow> addr \<Rightarrow> jst \<Rightarrow> (int \<times> jst) option) \<Rightarrow> addr \<Rightarrow> jst \<Rightarrow> (int \<times> jst) option) \<Rightarrow>
    addr \<Rightarrow> nat \<Rightarrow> addr \<Rightarrow> jst \<Rightarrow> (int \<times> jst) option" where
  "example_readpage mpage_readpage example_journal s_blocksize private_page st =
     mpage_readpage (example_get_block example_journal s_blocksize) private_page st"

definition example_journalled_set_page_dirty :: "addr \<Rightarrow> jst \<Rightarrow> int \<times> jst" where
  "example_journalled_set_page_dirty page st =
     jcall (status_call ''__set_page_dirty_nobuffers'') (upd_page page (\<lambda>p. p\<lparr>PageChecked := True\<rparr>) st)"

definition page_has_buffers :: "addr \<Rightarrow> jst \<Rightarrow> bool" where
  "page_has_buffers page st = (page_private (pages st page) \<noteq> 0)"

definition page_buffers :: "addr \<Rightarrow> jst \<Rightarrow> addr option" where
  "page_buffers page st =
     (if page_has_buffers page st then Some (page_private (pages st page)) else None)"

text \<open>\<open>WARN_ON\<close> only prints.\<close>

definition example_releasepage :: "addr \<Rightarrow> jst \<Rightarrow> int \<times> jst" where
  "example_releasepage page st =
     (if \<not> page_has_buffers page st then (0, st)
      else jcall (status_call ''journal_try_to_free_buffers'') st)"

subsection \<open>Walking the buffers of a page\<close>

type_synonym buf_fn = "addr \<Rightarrow> jst \<Rightarrow> (int \<times> jst) option"

partial_function (option) walk_from :: "buf_fn \<Rightarrow> addr \<Rightarrow> nat \<Rightarrow> nat \<Rightarrow> nat \<Rightarrow> addr \<Rightarrow> nat \<Rightarrow> int \<Rightarrow>
    bool \<Rightarrow> jst \<Rightarrow> (int \<times> bool \<times> jst) option" where
  "walk_from fn head blocksize from to bh block_start ret partial st =
     (if ret = 0 \<and> (bh \<noteq> head \<or> block_start = 0) then
        (let next = b_this_page (bufs st bh); block_end = u32 (int block_start + int blocksize) in
         if block_end \<le> from \<or> to \<le> block_start then
           walk_from fn head blocksize from to next block_end ret
             (partial \<or> \<not> buffer_uptodate (bufs st bh)) st
         else do {
           (err, st) \<leftarrow> fn bh st;
           walk_from fn head blocksize from to next block_end (if ret = 0 then err else ret) partial st
         })
      else Some (ret, partial, st))"

text \<open>
  The flag \<open>*partial\<close> is returned; a caller that passes \<open>NULL\<close> ignores it.
\<close>

definition walk_page_buffers :: "buf_fn \<Rightarrow> addr \<Rightarrow> nat \<Rightarrow> nat \<Rightarrow> jst \<Rightarrow> (int \<times> bool \<times> jst) option" where
  "walk_page_buffers fn head from to st =
     walk_from fn head (b_size (bufs st head)) from to head 0 0 False st"

definition write_end_fn :: "addr \<Rightarrow> buf_fn" where
  "write_end_fn handle bh st =
     (if handle = 0 then None
      else if \<not> buffer_mapped (bufs st bh) \<or> buffer_freed (bufs st bh) then Some (0, st)
      else
        let st = upd_buf bh (\<lambda>b. b\<lparr>buffer_uptodate := True\<rparr>) st
        in Some (jcall (status_call ''journal_dirty_metadata'') st))"

definition do_journal_get_write_access :: "addr \<Rightarrow> buf_fn" where
  "do_journal_get_write_access handle bh st =
     (if handle = 0 then None
      else if \<not> buffer_mapped (bufs st bh) \<or> buffer_freed (bufs st bh) then Some (0, st)
      else
        let dirty = buffer_dirty (bufs st bh);
            st = (if dirty then upd_buf bh (\<lambda>b. b\<lparr>buffer_dirty := False\<rparr>) st else st)
        in Some (jcall (status_call ''journal_get_write_access'') st))"

subsection \<open>Writing\<close>

type_synonym bwb_fn = "addr \<Rightarrow> nat \<Rightarrow> nat \<Rightarrow> (int \<Rightarrow> buf_fn) \<Rightarrow> jst \<Rightarrow> (int \<times> jst) option"

definition example_journalled_writepage ::
    "bwb_fn \<Rightarrow> addr \<Rightarrow> nat \<Rightarrow> addr \<Rightarrow> jst \<Rightarrow> (int \<times> jst) option" where
  "example_journalled_writepage bwb example_journal s_blocksize page st =
     (if page_has_buffers page st \<and> \<not> PageChecked (pages st page)
      then Some (jcall (block_write_full_page page) st)
      else
        let (current_handler, st) = jcall (status_call ''journal_current_handle'') st in
        if current_handler \<noteq> 0 then Some (0, st)
        else
          let (aborted, st) = jcall (status_call ''is_journal_aborted'') st in
          if aborted \<noteq> 0 then Some (- EROFS, st)
          else
            let (new_handle, st) = jcall (journal_start 4) st in
            if IS_ERR new_handle then Some (new_handle, st)
            else do {
              let st = upd_page page (\<lambda>p. p\<lparr>PageChecked := False\<rparr>) st;
              (ret, st) \<leftarrow> bwb page 0 PAGE_CACHE_SIZE (example_get_block example_journal s_blocksize) st;
              if ret \<noteq> 0 then do {
                (_, st) \<leftarrow> journal_stop new_handle st;
                Some (0, st)
              } else do {
                head \<leftarrow> page_buffers page st;
                (ret, _, st) \<leftarrow> walk_page_buffers (do_journal_get_write_access new_handle) head 0
                  PAGE_CACHE_SIZE st;
                (err, _, st) \<leftarrow> walk_page_buffers (write_end_fn new_handle) head 0 PAGE_CACHE_SIZE st;
                let ret = (if ret = 0 then err else ret);
                let st = jdo (unlock_page page) st;
                (err, st) \<leftarrow> journal_stop new_handle st;
                Some (if ret = 0 then err else ret, st)
              }
            })"

text \<open>The result is the return value and \<open>*pagep\<close> (\<open>0\<close> when it is not set).\<close>

definition example_journalled_write_begin ::
    "bwb_fn \<Rightarrow> addr \<Rightarrow> nat \<Rightarrow> int \<Rightarrow> jst \<Rightarrow> (int \<times> addr \<times> jst) option" where
  "example_journalled_write_begin bwb example_journal s_blocksize pos st =
     (let index = drop_bit PAGE_CACHE_SHIFT pos;
          (page, st) = jcall (grab_cache_page_write_begin index) st in
      if page = 0 then Some (- ENOMEM, 0, st)
      else
        let (current_handler, st) = jcall (status_call ''journal_current_handle'') st in
        if current_handler \<noteq> 0 then Some (0, page, st)
        else
          let (aborted, st) = jcall (status_call ''is_journal_aborted'') st in
          if aborted \<noteq> 0 then Some (- EROFS, page, st)
          else
            let (new_handle, st) = jcall (journal_start 4) st in
            if IS_ERR new_handle then Some (new_handle, page, st)
            else do {
              (ret, st) \<leftarrow> bwb page 0 PAGE_CACHE_SIZE (example_get_block example_journal s_blocksize) st;
              if ret \<noteq> 0 then do {
                (_, st) \<leftarrow> journal_stop new_handle st;
                Some (0, page, st)
              } else do {
                head \<leftarrow> page_buffers page st;
                (ret, _, st) \<leftarrow> walk_page_buffers (do_journal_get_write_access new_handle) head 0
                  PAGE_CACHE_SIZE st;
                Some (ret, page, st)
              }
            })"

text \<open>
  The first attempt at \<open>write_end\<close>, left in the file but not installed: it stops the handle and
  then runs the generic function.
\<close>

definition example_journalled_write_end111 :: "addr \<Rightarrow> jst \<Rightarrow> (int \<times> jst) option" where
  "example_journalled_write_end111 page st = do {
     let (new_handle, st) = jcall (status_call ''journal_current_handle'') st;
     head \<leftarrow> page_buffers page st;
     (err, _, st) \<leftarrow> walk_page_buffers (write_end_fn new_handle) head 0 PAGE_CACHE_SIZE st;
     let st = jdo (unlock_page page) st;
     (err, st) \<leftarrow> journal_stop new_handle st;
     Some (jcall (\<lambda>s. (ask s, answered (Giveback ''generic_write_end'' (page_held page)) s)) st)
   }"

text \<open>The installed \<open>write_end\<close>: its second half, from the walk on, and the whole.\<close>

definition write_end_commit ::
    "addr \<Rightarrow> int \<Rightarrow> nat \<Rightarrow> nat \<Rightarrow> nat \<Rightarrow> addr \<Rightarrow> jst \<Rightarrow> (int \<times> jst) option" where
  "write_end_commit current_handle pos copied from to page st = do {
     head \<leftarrow> page_buffers page st;
     (ret, partial, st) \<leftarrow> walk_page_buffers (write_end_fn current_handle) head from to st;
     let st = (if \<not> partial then upd_page page (\<lambda>p. p\<lparr>PageUptodate := True\<rparr>) st else st);
     let st = (if loff_t (pos + int copied) > i_size st
               then st\<lparr>i_size := loff_t (pos + int copied)\<rparr> else st);
     (ret2, st) \<leftarrow> journal_stop current_handle st;
     let ret = (if ret = 0 then ret2 else ret);
     let st = jdo (page_cache_release page) (jdo (unlock_page page) st);
     Some (if ret \<noteq> 0 then ret else int copied, st)
   }"

definition example_journalled_write_end ::
    "int \<Rightarrow> nat \<Rightarrow> nat \<Rightarrow> addr \<Rightarrow> jst \<Rightarrow> (int \<times> jst) option" where
  "example_journalled_write_end pos len copied page st =
     (let (current_handle, st) = jcall (status_call ''journal_current_handle'') st;
          from = nat (pos AND (int PAGE_CACHE_SIZE - 1));
          to = u32 (int from + int len)
      in if copied < len then
           let copied = (if \<not> PageUptodate (pages st page) then 0 else copied);
               st = jdo (call (Plain ''page_zero_new_buffers'' (int (u32 (int from + int copied))))) st;
               to = u32 (int from + int copied)
           in write_end_commit current_handle pos copied from to page st
         else write_end_commit current_handle pos copied from to page st)"

subsection \<open>The walk as a pass over a list\<close>

text \<open>
  The reference: the buffers one after the other, the block at offset \<open>k\<close> being \<open>blocksize\<close> long;
  the function is applied to those that meet the bytes from \<open>from\<close> to \<open>to\<close>, up to the first error.
\<close>

definition outside :: "nat \<Rightarrow> nat \<Rightarrow> nat \<Rightarrow> nat \<Rightarrow> bool" where
  "outside blocksize from to k = (k + blocksize \<le> from \<or> to \<le> k)"

fun walk_list :: "buf_fn \<Rightarrow> nat \<Rightarrow> nat \<Rightarrow> nat \<Rightarrow> nat \<Rightarrow> addr list \<Rightarrow> bool \<Rightarrow> jst \<Rightarrow>
    (int \<times> bool \<times> jst) option" where
  "walk_list fn blocksize from to k [] partial st = Some (0, partial, st)"
| "walk_list fn blocksize from to k (bh # bhs) partial st =
     (if outside blocksize from to k then
        walk_list fn blocksize from to (k + blocksize) bhs (partial \<or> \<not> buffer_uptodate (bufs st bh)) st
      else do {
        (err, st) \<leftarrow> fn bh st;
        if err \<noteq> 0 then Some (err, partial, st)
        else walk_list fn blocksize from to (k + blocksize) bhs partial st
      })"

definition links :: "jst \<Rightarrow> addr \<Rightarrow> addr" where
  "links st bh = b_this_page (bufs st bh)"

definition keeps_links :: "buf_fn \<Rightarrow> bool" where
  "keeps_links fn \<longleftrightarrow> (\<forall>bh st err st'. fn bh st = Some (err, st') \<longrightarrow> links st' = links st)"

lemma walk_from_stop: "ret \<noteq> 0 \<or> (bh = head \<and> k \<noteq> 0) \<Longrightarrow>
    walk_from fn head bs from to bh k ret part st = Some (ret, part, st)"
  by (subst walk_from.simps) auto

lemma walk_from_list:
  assumes fn: "keeps_links fn" and "0 < bs"
  shows "map (links st) (bh # bhs) = bhs @ [head] \<Longrightarrow> head \<notin> set bhs \<Longrightarrow> bh \<noteq> head \<or> k = 0 \<Longrightarrow>
    k + bs * Suc (length bhs) < 2 ^ 32 \<Longrightarrow>
    walk_from fn head bs from to bh k 0 part st = walk_list fn bs from to k (bh # bhs) part st"
proof (induction bhs arbitrary: bh k part st)
  case Nil
  then have "links st bh = head" "u32 (int k + int bs) = k + bs"
    using u32_id [of "k + bs"] by simp_all
  then show ?case using Nil(3) \<open>0 < bs\<close>
    by (subst walk_from.simps)
      (auto simp: walk_from_stop links_def outside_def Let_def split: Option.bind_splits)
next
  case (Cons b bhs)
  then have next_eq: "b_this_page (bufs st bh) = b" and u: "u32 (int k + int bs) = k + bs"
    using u32_id [of "k + bs"] by (simp_all add: links_def algebra_simps)
  have IH: "walk_from fn head bs from to b (k + bs) 0 part' st' =
      walk_list fn bs from to (k + bs) (b # bhs) part' st'" if "links st' = links st" for part' st'
    using Cons.prems that by (intro Cons.IH) (auto simp: algebra_simps)
  have err: "walk_from fn head bs from to b (k + bs) e part' st' =
      (if e \<noteq> 0 then Some (e, part', st') else walk_list fn bs from to (k + bs) (b # bhs) part' st')"
    if "links st' = links st" for e part' st'
    using IH [OF that] by (simp add: walk_from_stop)
  have run: "bh \<noteq> head \<or> k = 0" by (rule Cons.prems(3))
  show ?case
  proof (cases "outside bs from to k")
    case True
    have "walk_from fn head bs from to bh k 0 part st =
        walk_from fn head bs from to b (k + bs) 0 (part \<or> \<not> buffer_uptodate (bufs st bh)) st"
      using run True by (subst walk_from.simps) (simp add: next_eq u outside_def Let_def)
    then show ?thesis by (simp only: IH walk_list.simps(2) [of fn bs _ _ k bh] True if_True)
  next
    case False
    have "walk_from fn head bs from to bh k 0 part st =
        fn bh st \<bind> (\<lambda>(e, st'). walk_from fn head bs from to b (k + bs) e part st')"
      using run False by (subst walk_from.simps) (simp add: next_eq u outside_def Let_def cong: if_cong)
    then show ?thesis using fn False
      by (cases "fn bh st") (auto simp: keeps_links_def err simp del: walk_list.simps(2)
          simp: walk_list.simps(2) [of fn bs _ _ k bh])
  qed
qed

lemma walk_page_buffers_list:
  assumes "keeps_links fn" "bh_ring (links st) head xs" "0 < b_size (bufs st head)"
    and "b_size (bufs st head) * length xs < 2 ^ 32"
  shows "walk_page_buffers fn head from to st =
    walk_list fn (b_size (bufs st head)) from to 0 xs False st"
proof -
  from bh_ring_head [OF assms(2)] obtain ys where xs: "xs = head # ys" by blast
  with assms show ?thesis
    unfolding walk_page_buffers_def by (auto simp: bh_ring_def intro!: walk_from_list simp del: walk_list.simps)
qed

subsection \<open>Filing the buffers\<close>

text \<open>A buffer that \<open>write_end_fn\<close> works on.\<close>

definition live :: "jbuf \<Rightarrow> bool" where
  "live b = (buffer_mapped b \<and> \<not> buffer_freed b)"

definition mark :: "addr \<Rightarrow> (addr \<Rightarrow> jbuf) \<Rightarrow> addr \<Rightarrow> jbuf" where
  "mark bh B = (if live (B bh) then B(bh := B bh\<lparr>buffer_uptodate := True\<rparr>) else B)"

lemma mark_simps [simp]:
  "live (mark bh B x) = live (B x)"
  "buffer_uptodate (mark bh B x) = (buffer_uptodate (B x) \<or> x = bh \<and> live (B x))"
  "b_this_page (mark bh B x) = b_this_page (B x)"
  "b_size (mark bh B x) = b_size (B x)"
  by (auto simp: mark_def live_def)

text \<open>Two states that agree in everything a walk leaves alone.\<close>

definition same_rest :: "jst \<Rightarrow> jst \<Rightarrow> bool" where
  "same_rest st st' \<longleftrightarrow> pages st' = pages st \<and> i_size st' = i_size st \<and>
     resources (kw st') = resources (kw st) \<and> links st' = links st"

lemma same_rest_trans: "same_rest st st' \<Longrightarrow> same_rest st' st'' \<Longrightarrow> same_rest st st''"
  by (simp add: same_rest_def)

lemma write_end_fn_eq:
  "write_end_fn handle bh st = (if handle = 0 then None
     else if live (bufs st bh) then Some (ask (kw st), st\<lparr>bufs := mark bh (bufs st),
       kw := answered (Plain ''journal_dirty_metadata'' (ask (kw st))) (kw st)\<rparr>)
     else Some (0, st))"
  by (auto simp: write_end_fn_def upd_buf_def mark_def live_def jcall_def status_call_def Let_def)

lemma write_end_fn_step:
  assumes "handle \<noteq> 0"
  obtains e st' where "write_end_fn handle bh st = Some (e, st')" "same_rest st st'"
    "bufs st' = mark bh (bufs st)"
proof (cases "live (bufs st bh)")
  case True
  with assms show ?thesis
    by (intro that) (auto simp: write_end_fn_eq same_rest_def links_def fun_eq_iff ksimps)
next
  case False
  with assms show ?thesis
    by (intro that) (auto simp: write_end_fn_eq same_rest_def mark_def)
qed

lemma write_end_fn_links: "keeps_links (write_end_fn handle)"
  by (auto simp: keeps_links_def write_end_fn_def upd_buf_def links_def fun_eq_iff jcall_def
      status_call_def Let_def split: if_splits)

lemma get_write_access_links: "keeps_links (do_journal_get_write_access handle)"
  by (auto simp: keeps_links_def do_journal_get_write_access_def upd_buf_def links_def fun_eq_iff
      jcall_def status_call_def Let_def split: if_splits)

lemma get_write_access_step:
  assumes "do_journal_get_write_access handle bh st = Some (e, st')"
  shows "same_rest st st'"
  using assms by (auto simp: do_journal_get_write_access_def upd_buf_def same_rest_def
      links_def fun_eq_iff kdefs ksimps Let_def split: if_splits)

lemma walk_list_rest:
  assumes "\<And>bh st e st'. fn bh st = Some (e, st') \<Longrightarrow> same_rest st st'"
  shows "walk_list fn bs from to k xs part st = Some (e, part', st') \<Longrightarrow> same_rest st st'"
proof (induction xs arbitrary: k part st)
  case (Cons x xs)
  from Cons.prems show ?case
    by (auto split: if_splits Option.bind_splits dest!: assms intro: Cons.IH same_rest_trans [OF _ Cons.IH])
qed (simp add: same_rest_def)

text \<open>
  A walk with \<open>write_end_fn\<close> always returns; without an error, every live buffer in the range is
  up to date, and the flag tells whether a buffer outside the range is not.
\<close>

lemma walk_list_write_end:
  assumes "handle \<noteq> 0"
  shows "distinct xs \<Longrightarrow>
    \<exists>e part' st'. walk_list (write_end_fn handle) bs from to k xs part st = Some (e, part', st') \<and>
      same_rest st st' \<and>
      (\<forall>b. buffer_uptodate (bufs st b) \<longrightarrow> buffer_uptodate (bufs st' b)) \<and>
      (e = 0 \<longrightarrow>
        (\<forall>i<length xs. \<not> outside bs from to (k + i * bs) \<and> live (bufs st (xs ! i)) \<longrightarrow>
           buffer_uptodate (bufs st' (xs ! i))) \<and>
        (part' \<longleftrightarrow> part \<or> (\<exists>i<length xs. outside bs from to (k + i * bs) \<and>
           \<not> buffer_uptodate (bufs st (xs ! i)))))"
proof (induction xs arbitrary: k part st)
  case Nil
  show ?case by (simp add: same_rest_def)
next
  case (Cons x xs)
  then have dist: "distinct xs" and x: "\<And>i. i < length xs \<Longrightarrow> xs ! i \<noteq> x" by auto
  have shift: "k + Suc i * bs = (k + bs) + i * bs" for i by simp
  show ?case
  proof (cases "outside bs from to k")
    case True
    from Cons.IH [OF dist, of "k + bs" "part \<or> \<not> buffer_uptodate (bufs st x)" st]
    show ?thesis
      unfolding length_Cons All_less_Suc2 ex_less_Suc_shift shift using True by fastforce
  next
    case False
    from write_end_fn_step [OF assms] obtain e st1 where
      fn: "write_end_fn handle x st = Some (e, st1)" "same_rest st st1" "bufs st1 = mark x (bufs st)"
      by blast
    show ?thesis
    proof (cases "e = 0")
      case True
      have ex: "(\<exists>i<length xs. outside bs from to (k + bs + i * bs) \<and> \<not> buffer_uptodate (bufs st1 (xs ! i)))
          \<longleftrightarrow> (\<exists>i<length xs. outside bs from to (k + bs + i * bs) \<and> \<not> buffer_uptodate (bufs st (xs ! i)))"
        using x by (auto simp: fn(3))
      have lv: "live (bufs st1 b) = live (bufs st b)" for b by (simp add: fn(3))
      from Cons.IH [OF dist, of "k + bs" part st1, unfolded ex lv] obtain e' p' st2 where
        r: "walk_list (write_end_fn handle) bs from to (k + bs) xs part st1 = Some (e', p', st2)" and
        IH: "same_rest st1 st2" "\<forall>b. buffer_uptodate (bufs st1 b) \<longrightarrow> buffer_uptodate (bufs st2 b)"
          "e' = 0 \<longrightarrow>
        (\<forall>i<length xs. \<not> outside bs from to (k + bs + i * bs) \<and> live (bufs st (xs ! i)) \<longrightarrow>
           buffer_uptodate (bufs st2 (xs ! i))) \<and>
        (p' \<longleftrightarrow> part \<or> (\<exists>i<length xs. outside bs from to (k + bs + i * bs) \<and>
           \<not> buffer_uptodate (bufs st (xs ! i))))"
        by blast
      have "walk_list (write_end_fn handle) bs from to k (x # xs) part st = Some (e', p', st2)"
        using False True fn(1) r by simp
      moreover have "same_rest st st2" by (rule same_rest_trans [OF fn(2) IH(1)])
      ultimately show ?thesis
        unfolding length_Cons All_less_Suc2 ex_less_Suc_shift shift
        using IH(2,3) False fn(3) by auto
    next
      case e: False
      with False fn show ?thesis by auto
    qed
  qed
qed

subsection \<open>Ending a write\<close>

text \<open>What is held while a write is between \<open>write_begin\<close> and \<open>write_end\<close>.\<close>

definition write_open :: "addr \<Rightarrow> addr \<Rightarrow> res multiset" where
  "write_open page handle = add_mset (Obj ''handle'' handle) (mset (page_held page))"

text \<open>A page whose buffers form a ring of blocks of one size that cover the page.\<close>

definition page_ready :: "jst \<Rightarrow> addr \<Rightarrow> addr list \<Rightarrow> nat \<Rightarrow> bool" where
  "page_ready st page xs bs \<longleftrightarrow> page_private (pages st page) \<noteq> 0 \<and>
     bh_ring (links st) (page_private (pages st page)) xs \<and>
     b_size (bufs st (page_private (pages st page))) = bs \<and> bs * length xs = PAGE_CACHE_SIZE"

text \<open>What \<open>write_end\<close> counts as copied.\<close>

definition really_copied :: "jst \<Rightarrow> addr \<Rightarrow> nat \<Rightarrow> nat \<Rightarrow> nat" where
  "really_copied st page len copied =
     (if copied < len \<and> \<not> PageUptodate (pages st page) then 0 else copied)"

lemma page_ready_walk:
  assumes "page_ready st page xs bs" "keeps_links fn"
  shows "page_buffers page st = Some (page_private (pages st page))"
    and "walk_page_buffers fn (page_private (pages st page)) from to st = walk_list fn bs from to 0 xs False st"
proof -
  have "0 < bs" using assms(1) by (cases bs) (auto simp: page_ready_def)
  with assms show "page_buffers page st = Some (page_private (pages st page))"
    "walk_page_buffers fn (page_private (pages st page)) from to st = walk_list fn bs from to 0 xs False st"
    by (auto simp: page_ready_def page_buffers_def page_has_buffers_def intro: walk_page_buffers_list)
qed

lemma and_4095: "0 \<le> pos \<Longrightarrow> nat (pos AND 4095) = nat (pos mod 4096)"
  using take_bit_eq_mask [of 12 pos] by (simp add: take_bit_eq_mod mask_eq_exp_minus_1)

text \<open>The range worked out.\<close>

lemma write_end_range:
  assumes "0 \<le> pos" "nat (pos mod 4096) + len \<le> PAGE_CACHE_SIZE" "copied \<le> len" "ask (kw st) = handle"
    and "c = really_copied st page len copied" "f = nat (pos mod 4096)"
  obtains st1 where "same_rest st st1" "bufs st1 = bufs st"
    "example_journalled_write_end pos len copied page st =
       write_end_commit handle pos c f (f + c) page st1"
proof -
  define s0 where "s0 = snd (jcall (status_call ''journal_current_handle'') st)"
  define st1 where "st1 = (if copied < len
    then jdo (call (Plain ''page_zero_new_buffers'' (int (f + c)))) s0 else s0)"
  have s0: "jcall (status_call ''journal_current_handle'') st = (handle, s0)"
    "pages s0 = pages st"
    using assms(4) by (simp_all add: s0_def kdefs)
  have st1: "same_rest st st1" "bufs st1 = bufs st"
    by (simp_all add: st1_def s0_def same_rest_def links_def fun_eq_iff kdefs ksimps)
  have u: "u32 (int f + int len) = f + len" "u32 (int f + int c) = f + c"
    using assms(2,3) u32_id [of "f + len"] u32_id [of "f + c"]
    by (auto simp: assms(5,6) really_copied_def)
  have f: "nat (pos AND (int PAGE_CACHE_SIZE - 1)) = f" using and_4095 [OF assms(1)] assms(6) by simp
  have "example_journalled_write_end pos len copied page st =
      write_end_commit handle pos c f (f + c) page st1"
  proof (cases "copied < len")
    case True
    then have "(if \<not> PageUptodate (pages s0 page) then 0 else copied) = c"
      using assms(5) s0(2) by (simp add: really_copied_def)
    with True show ?thesis
      unfolding example_journalled_write_end_def Let_def s0(1) prod.case f
      by (simp only: u st1_def if_True)
  next
    case False
    with assms(3,5) show ?thesis
      unfolding example_journalled_write_end_def Let_def s0(1) prod.case f
      by (simp add: u st1_def really_copied_def)
  qed
  then show ?thesis using that st1 by blast
qed

lemma journal_stop_eq: "handle \<noteq> 0 \<Longrightarrow> journal_stop handle st = Some (ask (kw st),
    st\<lparr>kw := answered (Giveback ''journal_stop'' [Obj ''handle'' handle]) (kw st)\<rparr>)"
  by (simp add: journal_stop_def jcall_def)

lemma write_end_commit_ok:
  assumes ready: "page_ready st page xs bs" and "handle \<noteq> 0"
    and held: "resources (kw st) = Some (H + write_open page handle)"
    and pos: "0 \<le> pos" "pos + int c < 2 ^ 63"
  shows "\<exists>err st'. write_end_commit handle pos c from to page st = Some (if err = 0 then int c else err, st') \<and>
    resources (kw st') = Some H \<and> i_size st' = max (i_size st) (pos + int c) \<and>
    (err = 0 \<longrightarrow>
      (\<forall>i<length xs. \<not> outside bs from to (i * bs) \<and> live (bufs st (xs ! i)) \<longrightarrow>
        buffer_uptodate (bufs st' (xs ! i))) \<and>
      (PageUptodate (pages st' page) \<longleftrightarrow> PageUptodate (pages st page) \<or>
        (\<forall>i<length xs. outside bs from to (i * bs) \<longrightarrow> buffer_uptodate (bufs st (xs ! i)))))"
proof -
  have "distinct xs" using ready by (simp add: page_ready_def bh_ring_def)
  from walk_list_write_end [OF assms(2) this, of bs "from" to 0 False st]
  obtain e part st1 where w: "walk_list (write_end_fn handle) bs from to 0 xs False st = Some (e, part, st1)"
    and rest: "same_rest st st1"
    and filed: "e = 0 \<longrightarrow>
        (\<forall>i<length xs. \<not> outside bs from to (i * bs) \<and> live (bufs st (xs ! i)) \<longrightarrow>
           buffer_uptodate (bufs st1 (xs ! i))) \<and>
        (part \<longleftrightarrow> (\<exists>i<length xs. outside bs from to (i * bs) \<and> \<not> buffer_uptodate (bufs st (xs ! i))))"
    by auto
  define st2 where "st2 = (if \<not> part then upd_page page (\<lambda>p. p\<lparr>PageUptodate := True\<rparr>) st1 else st1)"
  define st3 where "st3 = (if loff_t (pos + int c) > i_size st2 then st2\<lparr>i_size := loff_t (pos + int c)\<rparr> else st2)"
  have st3: "bufs st3 = bufs st1" "kw st3 = kw st1" "i_size st3 = max (i_size st) (pos + int c)"
    "PageUptodate (pages st3 page) \<longleftrightarrow> PageUptodate (pages st page) \<or> \<not> part"
    using rest pos by (auto simp: st3_def st2_def upd_page_def same_rest_def)
  define err where "err = (if e = 0 then ask (kw st3) else e)"
  define fin where "fin = jdo (page_cache_release page) (jdo (unlock_page page)
    (st3\<lparr>kw := answered (Giveback ''journal_stop'' [Obj ''handle'' handle]) (kw st3)\<rparr>))"
  have fin: "bufs fin = bufs st1" "i_size fin = max (i_size st) (pos + int c)"
    "PageUptodate (pages fin page) \<longleftrightarrow> PageUptodate (pages st page) \<or> \<not> part"
    using st3 by (simp_all add: fin_def jdo_def)
  have "resources (kw fin) = Some H"
    using rest held
    by (simp add: fin_def same_rest_def st3(2) kdefs ksimps write_open_def page_held_def)
  moreover have "write_end_commit handle pos c from to page st = Some (if err = 0 then int c else err, fin)"
    unfolding write_end_commit_def page_ready_walk [OF ready write_end_fn_links] w bind.bind_lunit
      prod.case Let_def st2_def [symmetric] st3_def [symmetric] journal_stop_eq [OF assms(2)]
    by (simp add: err_def fin_def)
  moreover have "err = 0 \<Longrightarrow> e = 0" by (simp add: err_def split: if_splits)
  ultimately show ?thesis
    using filed fin by (intro exI [of _ err] exI [of _ fin]) auto
qed

subsection \<open>What the operations guarantee\<close>

text \<open>
  A page at address 100 with two live buffers of 2048 bytes that are not up to date; the kernel
  answers every call with 9 first and then with 0.
\<close>

definition sample_buf :: "addr \<Rightarrow> jbuf" where
  "sample_buf a = \<lparr>b_this_page = (if a = 1 then 2 else 1), b_size = 2048, b_blocknr = 0,
     buffer_mapped = True, buffer_freed = False, buffer_uptodate = False, buffer_dirty = False\<rparr>"

definition sample_jpage :: jpage where
  "sample_jpage = \<lparr>page_private = 1, PageChecked = False, PageUptodate = False, PageDirty = False\<rparr>"

definition sample_jst :: "kcall list \<Rightarrow> jst" where
  "sample_jst lg = \<lparr>bufs = sample_buf, pages = (\<lambda>_. sample_jpage), i_size = 10,
     kw = \<lparr>answers = (\<lambda>n. if n = 0 then 9 else 0), ncalls = 0, klog = lg\<rparr>\<rparr>"

definition sample_open :: "kcall list" where
  "sample_open = [Obtain ''grab_cache_page_write_begin'' (page_held 100),
     Obtain ''journal_start'' [Obj ''handle'' 9]]"

lemma sample_ready: "page_ready (sample_jst lg) 100 [1, 2] 2048"
  by (simp add: page_ready_def sample_jst_def sample_jpage_def bh_ring_def links_def sample_buf_def)

text \<open>
  C32: Over a ring of buffers of one size, \<open>walk_page_buffers\<close> is one pass over the list of the
  buffers: it applies its function to those whose block meets the range, in order, stops at the
  first error, and notes whether a buffer outside the range is not up to date. In particular it
  ends whenever its function does.
\<close>

theorem walk_page_buffers_refines:
  assumes "keeps_links fn" "bh_ring (links st) head xs" "0 < b_size (bufs st head)"
    and "b_size (bufs st head) * length xs < 2 ^ 32"
  shows "walk_page_buffers fn head from to st =
    walk_list fn (b_size (bufs st head)) from to 0 xs False st"
  using assms by (rule walk_page_buffers_list)

theorem walk_page_buffers_refines_witness:
  "walk_page_buffers (write_end_fn 9) 1 0 4096 (sample_jst []) =
    walk_list (write_end_fn 9) 2048 0 4096 0 [1, 2] False (sample_jst [])"
  using walk_page_buffers_refines [OF write_end_fn_links, of "sample_jst []" 1 "[1, 2]" 9 0 4096]
  by (simp add: sample_jst_def bh_ring_def links_def sample_buf_def)

text \<open>
  C33: \<open>write_end\<close>, called with the locked page and the open handle that \<open>write_begin\<close> left, always
  returns, gives the handle, the lock and the reference back, and extends the file to the end of
  what was copied (nothing, when a short copy met a page that was not up to date). It returns that
  number or an error of the journal; without an error every live buffer in the range is up to
  date, and the page is marked up to date exactly when it was or the buffers outside the range are.
\<close>

theorem write_end_completes:
  assumes "page_ready st page xs bs" "handle \<noteq> 0" "ask (kw st) = handle"
    and "resources (kw st) = Some (H + write_open page handle)"
    and "0 \<le> pos" "pos + int len < 2 ^ 63" "copied \<le> len"
    and "nat (pos mod 4096) + len \<le> PAGE_CACHE_SIZE"
    and "f = nat (pos mod 4096)" "c = really_copied st page len copied"
  shows "\<exists>err st'. example_journalled_write_end pos len copied page st =
      Some (if err = 0 then int c else err, st') \<and>
    resources (kw st') = Some H \<and> i_size st' = max (i_size st) (pos + int c) \<and>
    (err = 0 \<longrightarrow>
      (\<forall>i<length xs. \<not> outside bs f (f + c) (i * bs) \<and> live (bufs st (xs ! i)) \<longrightarrow>
        buffer_uptodate (bufs st' (xs ! i))) \<and>
      (PageUptodate (pages st' page) \<longleftrightarrow> PageUptodate (pages st page) \<or>
        (\<forall>i<length xs. outside bs f (f + c) (i * bs) \<longrightarrow> buffer_uptodate (bufs st (xs ! i)))))"
proof -
  obtain st1 where st1: "same_rest st st1" "bufs st1 = bufs st"
    "example_journalled_write_end pos len copied page st = write_end_commit handle pos c f (f + c) page st1"
    using write_end_range [OF assms(5,8,7,3,10,9)] by blast
  have ready: "page_ready st1 page xs bs" and held: "resources (kw st1) = Some (H + write_open page handle)"
    and same: "pages st1 = pages st" "i_size st1 = i_size st"
    using assms(1,4) st1(1,2) by (simp_all add: page_ready_def same_rest_def)
  have "pos + int c < 2 ^ 63" using assms(6,7,10) by (auto simp: really_copied_def)
  from write_end_commit_ok [OF ready assms(2) held assms(5) this, of f "f + c"]
  show ?thesis by (simp only: st1(2,3) same)
qed

theorem write_end_completes_witness:
  "\<exists>err st'. example_journalled_write_end 8192 4096 4096 100 (sample_jst sample_open) =
      Some (if err = 0 then 4096 else err, st') \<and> resources (kw st') = Some {#} \<and> i_size st' = 12288"
proof -
  have "resources (kw (sample_jst sample_open)) = Some ({#} + write_open 100 9)"
    by (simp add: sample_jst_def sample_open_def resources_def page_held_def write_open_def kstep_def)
  from write_end_completes [OF sample_ready _ _ this, of 8192 4096 4096 0 4096]
  show ?thesis by (auto simp: sample_jst_def ask_def really_copied_def)
qed

text \<open>What \<open>write_begin\<close> does once the page is grabbed, up to the mapping of its blocks.\<close>

lemma write_begin_eq:
  "example_journalled_write_begin bwb j bs pos st =
     (let n = ncalls (kw st); A = answers (kw st); page = A n;
        s1 = answered (Obtain ''grab_cache_page_write_begin'' (if page = 0 then [] else page_held page)) (kw st);
        s2 = answered (Plain ''journal_current_handle'' (A (n + 1))) s1;
        s3 = answered (Plain ''is_journal_aborted'' (A (n + 2))) s2;
        h = A (n + 3);
        s4 = answered (Obtain ''journal_start'' (if h < 0 then [] else objs ''handle'' h)) s3 in
      if page = 0 then Some (- ENOMEM, 0, st\<lparr>kw := s1\<rparr>)
      else if A (n + 1) \<noteq> 0 then Some (0, page, st\<lparr>kw := s2\<rparr>)
      else if A (n + 2) \<noteq> 0 then Some (- EROFS, page, st\<lparr>kw := s3\<rparr>)
      else if h < 0 then Some (h, page, st\<lparr>kw := s4\<rparr>)
      else do {
        (ret, st) \<leftarrow> bwb page 0 PAGE_CACHE_SIZE (example_get_block j bs) (st\<lparr>kw := s4\<rparr>);
        if ret \<noteq> 0 then do {
          (_, st) \<leftarrow> journal_stop h st;
          Some (0, page, st)
        } else do {
          head \<leftarrow> page_buffers page st;
          (ret, _, st) \<leftarrow> walk_page_buffers (do_journal_get_write_access h) head 0 PAGE_CACHE_SIZE st;
          Some (ret, page, st)
        }
      })"
  unfolding example_journalled_write_begin_def
  by (simp add: kdefs answer_simps IS_ERR_def Let_def ask_def numeral_eq_Suc)

lemma walk_from_rest:
  assumes fn: "\<And>bh st e st'. fn bh st = Some (e, st') \<Longrightarrow> same_rest st st'"
  shows "walk_from fn head bs from to bh k ret part st = Some (e, part', st') \<Longrightarrow> same_rest st st'"
proof -
  have "case y of (e, part', st') \<Rightarrow> (\<forall>bh st e st'. fn bh st = Some (e, st') \<longrightarrow> same_rest st st') \<longrightarrow>
      same_rest st st'" if "walk_from fn head bs from to bh k ret part st = Some y" for y
    using that
  proof (induction rule: walk_from.raw_induct [rotated, consumes 1])
    case (1 wf fn head bs "from" to bh k ret part st y)
    from 1(2) show ?case
      by (auto simp: Let_def same_rest_def split: if_splits Option.bind_splits dest!: 1(1))
  qed
  then show "walk_from fn head bs from to bh k ret part st = Some (e, part', st') \<Longrightarrow> same_rest st st'"
    using fn by fastforce
qed

text \<open>
  Every way \<open>write_begin\<close> can return. Without a page it returns \<open>-ENOMEM\<close> and holds nothing.
  With a page it holds the lock and the reference in every case, also when it returns an error,
  where no \<open>write_end\<close> will follow to give them back; and it may hold the transaction handle.
\<close>

lemma write_begin_outcomes:
  assumes "example_journalled_write_begin bwb journal s_blocksize pos st = Some (r, page, st')"
    and "resources (kw st) = Some H" "answers (kw st) (ncalls (kw st) + 3) \<noteq> 0"
    and "\<And>p a b gb s e s'. bwb p a b gb s = Some (e, s') \<Longrightarrow> resources (kw s') = resources (kw s)"
  shows "page = 0 \<and> r = - ENOMEM \<and> resources (kw st') = Some H \<or>
    page \<noteq> 0 \<and> r \<le> 0 \<and> resources (kw st') = Some (H + mset (page_held page)) \<or>
    page \<noteq> 0 \<and> (\<exists>handle. resources (kw st') = Some (H + write_open page handle))"
proof -
  have walk: "resources (kw s') = resources (kw s)"
    if "walk_page_buffers (do_journal_get_write_access h) head f t' s = Some (e, part, s')" for h head f t' s e part s'
    using walk_from_rest [OF get_write_access_step] that
    by (auto simp: walk_page_buffers_def same_rest_def)
  show ?thesis
    using assms(1,2,3) unfolding write_begin_eq
    by (auto simp: Let_def ksimps kdefs objs_def write_open_def journal_stop_def
        split: if_splits Option.bind_splits dest!: assms(4) walk)
qed

text \<open>A journal that was aborted: the write fails with the page still locked.\<close>

definition sample_aborted :: jst where
  "sample_aborted = (sample_jst [])\<lparr>kw := \<lparr>answers = (\<lambda>n. if n = 0 then 100 else if n = 1 then 0 else 7),
     ncalls = 0, klog = []\<rparr>\<rparr>"

definition sample_bwb :: "int \<Rightarrow> bwb_fn" where
  "sample_bwb e page from to get_block st = Some (e, st)"

lemma write_end_without_handle:
  assumes "ask (kw st) = 0"
  shows "example_journalled_write_end pos len copied page st = None"
proof -
  have "write_end_commit 0 pos c f t' page s = None" for c f t' s
    by (auto simp: write_end_commit_def journal_stop_def Let_def split: Option.bind_splits)
  with assms show ?thesis
    by (simp add: example_journalled_write_end_def jcall_def status_call_def Let_def)
qed

text \<open>
  What \<open>journal_current_handle\<close> is documented to return: the handle that the process has open, or \<open>NULL\<close> when it has none.
\<close>

definition open_handles :: "res multiset \<Rightarrow> res multiset" where
  "open_handles H = filter_mset (\<lambda>r. case r of Obj kind p \<Rightarrow> kind = ''handle'' | _ \<Rightarrow> False) H"

definition current_handle_ok :: "jst \<Rightarrow> bool" where
  "current_handle_ok st \<longleftrightarrow>
     (case resources (kw st) of None \<Rightarrow> False
      | Some H \<Rightarrow> if open_handles H = {#} then ask (kw st) = 0 else Obj ''handle'' (ask (kw st)) \<in># open_handles H)"

lemma open_handles_page [simp]: "open_handles (H + mset (page_held page)) = open_handles H"
  by (simp add: open_handles_def page_held_def)

text \<open>
  C34: When \<open>__block_write_begin\<close> fails, \<open>write_begin\<close> stops the handle it has opened and still returns success, with
  the page locked and referenced and no handle open. Any \<open>write_end\<close> that follows with the same things held finds no
  current handle and dereferences \<open>NULL\<close>, whatever was copied.
\<close>

theorem write_begin_hides_failure:
  assumes "resources (kw st) = Some H" "open_handles H = {#}"
    and "n = ncalls (kw st)" "answers (kw st) n = page" "page \<noteq> 0"
    and "answers (kw st) (n + 1) = 0" "answers (kw st) (n + 2) = 0" "0 < answers (kw st) (n + 3)"
    and "\<And>s. \<exists>s'. bwb page 0 PAGE_CACHE_SIZE (example_get_block journal s_blocksize) s = Some (e, s') \<and>
      resources (kw s') = resources (kw s)"
    and "e \<noteq> 0"
  shows "\<exists>st1. example_journalled_write_begin bwb journal s_blocksize pos st = Some (0, page, st1) \<and>
    resources (kw st1) = Some (H + mset (page_held page)) \<and>
    (\<forall>st2 len copied. resources (kw st2) = resources (kw st1) \<and> current_handle_ok st2 \<longrightarrow>
      example_journalled_write_end pos len copied page st2 = None)"
proof -
  obtain f where f: "bwb page 0 PAGE_CACHE_SIZE (example_get_block journal s_blocksize) s = Some (e, f s)"
    "resources (kw (f s)) = resources (kw s)" for s
    using assms(9) by metis
  let ?h = "answers (kw st) (n + 3)"
  define s4 where "s4 = answered (Obtain ''journal_start'' (objs ''handle'' ?h)) (answered (Plain ''is_journal_aborted'' 0)
    (answered (Plain ''journal_current_handle'' 0) (answered (Obtain ''grab_cache_page_write_begin'' (page_held page)) (kw st))))"
  define st1 where "st1 = (f (st\<lparr>kw := s4\<rparr>))\<lparr>kw := answered (Giveback ''journal_stop'' [Obj ''handle'' ?h]) (kw (f (st\<lparr>kw := s4\<rparr>)))\<rparr>"
  have "example_journalled_write_begin bwb journal s_blocksize pos st = Some (0, page, st1)"
    unfolding write_begin_eq using assms(3-8,10)
    by (simp add: Let_def f(1) journal_stop_eq st1_def s4_def)
  moreover have res: "resources (kw st1) = Some (H + mset (page_held page))"
  proof -
    have "resources s4 = Some (H + mset (page_held page) + {#Obj ''handle'' ?h#})"
      using assms(1,8) by (simp add: s4_def ksimps objs_nonzero)
    then have "resources (kw (f (st\<lparr>kw := s4\<rparr>))) = Some (H + mset (page_held page) + {#Obj ''handle'' ?h#})"
      by (simp add: f(2))
    then show ?thesis by (simp add: st1_def ksimps)
  qed
  moreover have "example_journalled_write_end pos len copied page st2 = None"
    if "resources (kw st2) = resources (kw st1)" "current_handle_ok st2" for st2 len copied
    using that assms(2) by (intro write_end_without_handle) (simp add: current_handle_ok_def res)
  ultimately show ?thesis by blast
qed

definition sample_begin :: jst where
  "sample_begin = (sample_jst [])\<lparr>kw := \<lparr>answers = (\<lambda>n. if n = 0 then 100 else if n = 3 then 9 else 0),
     ncalls = 0, klog = []\<rparr>\<rparr>"

theorem write_begin_hides_failure_witness:
  "\<exists>st1. example_journalled_write_begin (sample_bwb (- EIO)) 1 1024 0 sample_begin = Some (0, 100, st1) \<and>
    example_journalled_write_end 0 10 10 100 (st1\<lparr>kw := (kw st1)\<lparr>answers := (\<lambda>_. 0)\<rparr>\<rparr>) = None"
proof -
  have "resources (kw sample_begin) = Some {#}" "open_handles {#} = {#}"
    by (simp_all add: sample_begin_def resources_def open_handles_def)
  from write_begin_hides_failure [OF this, where n = 0 and e = "- EIO" and page = 100 and bwb = "sample_bwb (- EIO)"
      and journal = 1 and s_blocksize = 1024 and pos = 0]
  obtain st1 where st1: "example_journalled_write_begin (sample_bwb (- EIO)) 1 1024 0 sample_begin = Some (0, 100, st1)"
    "resources (kw st1) = Some (mset (page_held 100))"
    "\<And>st2. resources (kw st2) = resources (kw st1) \<Longrightarrow> current_handle_ok st2 \<Longrightarrow> example_journalled_write_end 0 10 10 100 st2 = None"
    by (auto simp: sample_begin_def sample_bwb_def)
  let ?st2 = "st1\<lparr>kw := (kw st1)\<lparr>answers := (\<lambda>_. 0)\<rparr>\<rparr>"
  have r: "resources (kw ?st2) = resources (kw st1)" by (simp add: resources_def)
  then have "current_handle_ok ?st2"
    using st1(2) by (simp add: current_handle_ok_def ask_def open_handles_def page_held_def)
  with st1(1,3) r show ?thesis by blast
qed

end
