(* ===== verification/Jbd2_Map.thy ===== *)
theory Jbd2_Map
  imports Journal_Map
begin

text \<open>
  The earlier version of the journalled address space, \<open>fs/jbd2/address_mapping.c\<close>. Its
  \<open>writepage\<close> is the one of \<open>fs/journal\<close> without the messages that look into the handle and with
  one journal credit instead of four; its \<open>write_begin\<close> and \<open>write_end\<close> do not use the journal, they
  are the generic functions of the page cache. \<open>block_write_begin\<close> (which grabs the page, and drops
  it again when it fails) and \<open>generic_write_end\<close> are kernel code. The
  function that walks the buffers is the same in both files and modelled once.
\<close>

definition jbd2_write_end_fn :: "addr \<Rightarrow> buf_fn" where
  "jbd2_write_end_fn handle bh st =
     (if \<not> buffer_mapped (bufs st bh) \<or> buffer_freed (bufs st bh) then Some (0, st)
      else Some (jcall (status_call ''journal_dirty_metadata'')
        (upd_buf bh (\<lambda>b. b\<lparr>buffer_uptodate := True\<rparr>) st)))"

definition jbd2_do_journal_get_write_access :: "addr \<Rightarrow> buf_fn" where
  "jbd2_do_journal_get_write_access handle bh st =
     (let dirty = buffer_dirty (bufs st bh) in
      if \<not> buffer_mapped (bufs st bh) \<or> buffer_freed (bufs st bh) then Some (0, st)
      else Some (jcall (status_call ''journal_get_write_access'')
        (if dirty then upd_buf bh (\<lambda>b. b\<lparr>buffer_dirty := False\<rparr>) st else st)))"

definition jbd2_journalled_writepage ::
    "bwb_fn \<Rightarrow> addr \<Rightarrow> nat \<Rightarrow> addr \<Rightarrow> jst \<Rightarrow> (int \<times> jst) option" where
  "jbd2_journalled_writepage bwb example_journal s_blocksize page st =
     (if \<not> page_has_buffers page st \<or> PageChecked (pages st page)
      then
        let (current_handler, st) = jcall (status_call ''journal_current_handle'') st in
        if current_handler \<noteq> 0 then Some (0, st)
        else
          let (aborted, st) = jcall (status_call ''is_journal_aborted'') st in
          if aborted \<noteq> 0 then Some (- EROFS, st)
          else
            let (new_handle, st) = jcall (journal_start 1) st in
            if IS_ERR new_handle then Some (new_handle, st)
            else do {
              let st = upd_page page (\<lambda>p. p\<lparr>PageChecked := False\<rparr>) st;
              (ret, st) \<leftarrow> bwb page 0 PAGE_CACHE_SIZE (example_get_block example_journal s_blocksize) st;
              if ret \<noteq> 0 then do {
                (_, st) \<leftarrow> journal_stop new_handle st;
                Some (0, st)
              } else do {
                head \<leftarrow> page_buffers page st;
                (ret, _, st) \<leftarrow> walk_page_buffers (jbd2_do_journal_get_write_access new_handle)
                  head 0 PAGE_CACHE_SIZE st;
                (err, _, st) \<leftarrow> walk_page_buffers (jbd2_write_end_fn new_handle) head 0
                  PAGE_CACHE_SIZE st;
                let ret = (if ret = 0 then err else ret);
                let st = jdo (unlock_page page) st;
                (err, st) \<leftarrow> journal_stop new_handle st;
                Some (if ret = 0 then err else ret, st)
              }
            }
      else Some (jcall (block_write_full_page page) st))"

text \<open>The page that \<open>block_write_begin\<close> stores is its second answer.\<close>

definition jbd2_journalled_write_begin :: "jst \<Rightarrow> int \<times> addr \<times> jst" where
  "jbd2_journalled_write_begin st =
     (let s = kw st; ret = ask s; page = answers s (Suc (ncalls s));
          s' = (answered (Obtain ''block_write_begin'' (if ret < 0 then [] else page_held page)) s)
                 \<lparr>ncalls := Suc (Suc (ncalls s))\<rparr>
      in (ret, if ret < 0 then 0 else page, st\<lparr>kw := s'\<rparr>))"

definition jbd2_journalled_write_end :: "addr \<Rightarrow> jst \<Rightarrow> int \<times> jst" where
  "jbd2_journalled_write_end page st =
     jcall (\<lambda>s. (ask s, answered (Giveback ''generic_write_end'' (page_held page)) s)) st"

subsection \<open>The two versions compared\<close>

lemma jbd2_fn_eq:
  assumes "handle \<noteq> 0"
  shows "jbd2_write_end_fn handle = write_end_fn handle"
    and "jbd2_do_journal_get_write_access handle = do_journal_get_write_access handle"
  using assms by (auto simp: fun_eq_iff jbd2_write_end_fn_def write_end_fn_def Let_def
      jbd2_do_journal_get_write_access_def do_journal_get_write_access_def)

text \<open>
  The two versions of \<open>writepage\<close> behave alike: as \<open>journal_start\<close> never returns \<open>NULL\<close>, the
  messages that the later version added and that look into the handle do no harm.
\<close>

lemma jbd2_writepage_same:
  assumes "answers (kw st) (Suc (Suc (ncalls (kw st)))) \<noteq> 0"
  shows "jbd2_journalled_writepage bwb journal s_blocksize page st =
    example_journalled_writepage bwb journal s_blocksize page st"
  unfolding jbd2_journalled_writepage_def example_journalled_writepage_def
  by (auto simp: kdefs answer_simps ask_def Let_def; unfold jbd2_fn_eq [OF assms]; rule refl)

text \<open>In the generic pair of functions nothing is left behind.\<close>

lemma jbd2_write_balanced:
  assumes "resources (kw st) = Some H" "jbd2_journalled_write_begin st = (r, page, st1)"
  shows "resources (kw (if r < 0 then st1 else snd (jbd2_journalled_write_end page st1))) = Some H"
  using assms by (auto simp: jbd2_journalled_write_begin_def jbd2_journalled_write_end_def jcall_def
      Let_def ksimps)

end
