(* ===== verification/Lesson_Fs.thy ===== *)
theory Lesson_Fs
  imports Interfaces
begin

text \<open>
  The skeleton shared by the lesson file systems under \<open>fs\<close>: registering the type, mounting and
  unmounting with a reference on the module (\<open>fs/write_page/file_system.c\<close> and its copies), filling
  the superblock and the root inode, looking up a name and listing the directory
  (\<open>super.c\<close> and \<open>inode.c\<close> of the same directories).

  The kernel decides how a mount proceeds: \<open>mount_bdev\<close> may fail before there is a superblock, may
  find the device mounted already and share its superblock, or calls back \<open>example_fill_super\<close> on a
  new one and the type's \<open>kill_sb\<close> when that fails. Which of these happens is the parameter
  \<open>pick\<close>. Inodes and module references are objects that the log acquires and gives back; an access
  through \<open>NULL\<close> is \<open>None\<close>.
\<close>

subsection \<open>Registering\<close>

text \<open>The state of the module is whether its type is registered; removing an unknown type changes nothing.\<close>

definition unregister_filesystem :: "bool \<Rightarrow> kworld \<Rightarrow> kworld" where
  "unregister_filesystem registered s =
     (if registered then call (Giveback ''unregister_filesystem'' [Obj ''filesystem'' 1]) s
      else call (Plain ''unregister_filesystem'' (- EINVAL)) s)"

definition init_example_fs :: "bool \<Rightarrow> kworld \<Rightarrow> int \<times> bool \<times> kworld" where
  "init_example_fs registered s =
     (let (err, s) = obtain_if_ok ''register_filesystem'' ''filesystem'' 1 s;
          s = (if err \<noteq> 0 then unregister_filesystem False s else s)
      in (err, err = 0, s))"

definition exit_example_fs :: "bool \<Rightarrow> kworld \<Rightarrow> kworld" where
  "exit_example_fs registered s = unregister_filesystem registered s"

subsection \<open>The root of a superblock\<close>

abbreviation (input) S_IFMT :: "16 word" where "S_IFMT \<equiv> 0xF000"
abbreviation (input) S_IFDIR :: "16 word" where "S_IFDIR \<equiv> 0x4000"
abbreviation (input) S_IFBLK :: "16 word" where "S_IFBLK \<equiv> 0x6000"
abbreviation (input) S_IFREG :: "16 word" where "S_IFREG \<equiv> 0x8000"

record linode =
  l_addr :: addr
  l_ino :: nat
  l_mode :: "16 word"
  l_uid :: nat
  l_gid :: nat
  l_size :: int

text \<open>The mode is \<open>S_IFDIR | S_IRUGO | S_IXUGO | S_IWUSR\<close>.\<close>

definition get_example_fs_root_inode :: "kworld \<Rightarrow> (linode \<times> kworld) option" where
  "get_example_fs_root_inode s =
     (let (p, s) = obtain_obj ''new_inode'' ''inode'' s in
      if p = 0 then None
      else Some (\<lparr>l_addr = p, l_ino = 1, l_mode = S_IFDIR OR 0x124 OR 0x49 OR 0x80,
        l_uid = 0, l_gid = 0, l_size = 0\<rparr>, s))"

text \<open>\<open>d_make_root\<close> takes the inode over, and drops it when it fails.\<close>

definition d_make_root :: "addr \<Rightarrow> kworld \<Rightarrow> addr \<times> kworld" where
  "d_make_root p s =
     (ask s, answered (Giveback ''d_make_root'' (if ask s = 0 then [Obj ''inode'' p] else [])) s)"

record super =
  s_blocksize :: nat
  s_blocksize_bits :: nat
  s_root :: addr

text \<open>The result has the inode that the root owns, for \<open>kill_block_super\<close>.\<close>

definition example_fill_super :: "kworld \<Rightarrow> (int \<times> super \<times> addr \<times> kworld) option" where
  "example_fill_super s = do {
     let sb = \<lparr>s_blocksize = 1024, s_blocksize_bits = 10, s_root = 0\<rparr>;
     (inode, s) \<leftarrow> get_example_fs_root_inode s;
     let (root, s) = d_make_root (l_addr inode) s;
     Some (if root \<noteq> 0 then 0 else - ENOMEM, sb\<lparr>s_root := root\<rparr>, l_addr inode, s)
   }"

subsection \<open>Mounting and unmounting\<close>

datatype outcome = Early int | Reuse | Fresh

datatype mroot = NULL | Err int | Root

text \<open>A mounted superblock: its device, how often it is mounted, the inode of its root.\<close>

record mounted =
  m_dev :: nat
  m_active :: nat
  m_inode :: addr

text \<open>
  The superblocks of the type, and how many mounts took a module reference that no \<open>kill_sb\<close> will
  give back: those that failed early and those that shared a superblock.
\<close>

record lfs =
  sbs :: "mounted list"
  early :: nat
  reused :: nat

definition module_ref :: res where
  "module_ref = Obj ''module'' 1"

definition try_module_get :: "kworld \<Rightarrow> int \<times> kworld" where
  "try_module_get s = (ask s, answered (Obtain ''try_module_get'' (if ask s = 0 then [] else [module_ref])) s)"

definition module_put :: "kworld \<Rightarrow> kworld" where
  "module_put s = call (Giveback ''module_put'' [module_ref]) s"

definition example_kill_block_super :: "res list \<Rightarrow> kworld \<Rightarrow> kworld" where
  "example_kill_block_super held s = call (Giveback ''kill_block_super'' held) (module_put s)"

text \<open>What \<open>mount_bdev\<close> does with the callbacks, in each of its outcomes.\<close>

definition mount_bdev :: "outcome \<Rightarrow> nat \<Rightarrow> lfs \<Rightarrow> kworld \<Rightarrow> (mroot \<times> lfs \<times> kworld) option" where
  "mount_bdev oc dev st s =
     (case oc of
        Early e \<Rightarrow> Some (Err e, st\<lparr>early := early st + 1\<rparr>, s)
      | Reuse \<Rightarrow> Some (Root, st\<lparr>reused := reused st + 1,
          sbs := map (\<lambda>m. if m_dev m = dev then m\<lparr>m_active := m_active m + 1\<rparr> else m) (sbs st)\<rparr>, s)
      | Fresh \<Rightarrow> do {
          (r, sb, inode, s) \<leftarrow> example_fill_super s;
          if r = 0 then
            Some (Root, st\<lparr>sbs := \<lparr>m_dev = dev, m_active = 1, m_inode = inode\<rparr> # sbs st\<rparr>, s)
          else Some (Err r, st, example_kill_block_super [] s)
        })"

definition example_fs_mount :: "(nat \<Rightarrow> lfs \<Rightarrow> outcome) \<Rightarrow> nat \<Rightarrow> lfs \<Rightarrow> kworld \<Rightarrow>
    (mroot \<times> lfs \<times> kworld) option" where
  "example_fs_mount pick dev st s =
     (let (got, s) = try_module_get s in
      if got = 0 then Some (NULL, st, s)
      else mount_bdev (pick dev st) dev st s)"

text \<open>Unmounting: the last user of a superblock has the kernel call \<open>kill_sb\<close>.\<close>

definition umount :: "nat \<Rightarrow> lfs \<Rightarrow> kworld \<Rightarrow> lfs \<times> kworld" where
  "umount dev st s =
     (case find (\<lambda>m. m_dev m = dev) (sbs st) of
        None \<Rightarrow> (st, s)
      | Some m \<Rightarrow>
          if m_active m = 1 then
            (st\<lparr>sbs := remove1 m (sbs st)\<rparr>, example_kill_block_super [Obj ''inode'' (m_inode m)] s)
          else
            (st\<lparr>sbs := map (\<lambda>m. if m_dev m = dev then m\<lparr>m_active := m_active m - 1\<rparr> else m) (sbs st)\<rparr>, s))"

datatype mop = Mount nat | Umount nat

fun mount_run :: "(nat \<Rightarrow> lfs \<Rightarrow> outcome) \<Rightarrow> mop list \<Rightarrow> lfs \<Rightarrow> kworld \<Rightarrow> (lfs \<times> kworld) option" where
  "mount_run pick [] st s = Some (st, s)"
| "mount_run pick (Mount dev # ops) st s = do {
     (_, st, s) \<leftarrow> example_fs_mount pick dev st s;
     mount_run pick ops st s
   }"
| "mount_run pick (Umount dev # ops) st s =
     (case umount dev st s of (st, s) \<Rightarrow> mount_run pick ops st s)"

subsection \<open>Names in the directory\<close>

text \<open>
  \<open>iget_locked\<close> gives an inode, new or known; the code fills it in either way and hands it to the
  directory entry. In \<open>fs/min_read\<close> every name is found.
\<close>

definition example_lookup :: "kworld \<Rightarrow> (linode \<times> kworld) option" where
  "example_lookup s =
     (let (p, s) = obtain_obj ''iget_locked'' ''inode'' s in
      if p = 0 then None
      else Some (\<lparr>l_addr = p, l_ino = 123, l_mode = 0x6660, l_uid = 0xde, l_gid = 0xad, l_size = 3\<rparr>,
        call (Plain ''unlock_new_inode'' p) s))"

text \<open>\<open>fs/write_page\<close>: the mode is \<open>0666 | (DT_REG << 12)\<close>.\<close>

definition write_page_lookup :: "kworld \<Rightarrow> (linode \<times> kworld) option" where
  "write_page_lookup s =
     (let (p, s) = obtain_obj ''iget_locked'' ''inode'' s in
      if p = 0 then None
      else Some (\<lparr>l_addr = p, l_ino = 123, l_mode = 0x1B6 OR push_bit 12 8, l_uid = 0xde, l_gid = 0xad,
        l_size = 5\<rparr>, call (Plain ''unlock_new_inode'' p) s))"

text \<open>\<open>fs/journal\<close>: only the name \<open>UUID\<close> has an inode.\<close>

definition journal_lookup :: "string \<Rightarrow> kworld \<Rightarrow> (linode option \<times> kworld) option" where
  "journal_lookup name s =
     (if name = ''UUID'' then
        let (p, s) = obtain_obj ''iget_locked'' ''inode'' s in
        if p = 0 then None
        else Some (Some \<lparr>l_addr = p, l_ino = 2, l_mode = 0x124 OR push_bit 12 8, l_uid = 0, l_gid = 0,
          l_size = 16\<rparr>, call (Plain ''unlock_new_inode'' p) s)
      else Some (None, s))"

text \<open>
  \<open>fs/page_cache_read\<close> keeps the inode of its first lookup in a global and uses it again for every
  later one, whatever the superblock; the inode carries the lesson's address space operations.
\<close>

definition cached_lookup :: "linode option \<Rightarrow> kworld \<Rightarrow> (linode \<times> linode option \<times> kworld) option" where
  "cached_lookup private_inode s =
     (case private_inode of
        Some inode \<Rightarrow> Some (inode, private_inode, s)
      | None \<Rightarrow> do {
          (inode, s) \<leftarrow> example_lookup s;
          Some (inode, Some inode, s)
        })"

text \<open>The listing: the return value, the new position and the entry that is passed on.\<close>

definition example_readdir :: "int \<Rightarrow> int \<times> int \<times> (string \<times> nat) option" where
  "example_readdir pos =
     (if pos \<noteq> 0 then (0, pos, None) else (1, pos + 1, Some (''test1'', 233)))"

definition write_page_readdir :: "int \<Rightarrow> int \<times> int \<times> (string \<times> nat) option" where
  "write_page_readdir pos =
     (if pos \<noteq> 0 then (0, pos, None) else (0, pos + 1, Some (''test1'', 233)))"

definition journal_readdir :: "int \<Rightarrow> int \<times> int \<times> (string \<times> nat) option" where
  "journal_readdir pos =
     (if pos \<noteq> 0 then (0, pos, None) else (0, pos + 1, Some (''UUID'', 233)))"

subsection \<open>Loading the module\<close>

interpretation lesson_mod: module_lifecycle init_example_fs exit_example_fs
  "\<lambda>registered. if registered then {#Obj ''filesystem'' 1#} else {#}"
  by unfold_locales
    (auto simp: init_example_fs_def exit_example_fs_def unregister_filesystem_def kernel_simps
      bind_kstep_Plain Let_def split: if_splits)

subsection \<open>References on the module\<close>

definition root_inodes :: "lfs \<Rightarrow> res multiset" where
  "root_inodes st = mset (map (\<lambda>m. Obj ''inode'' (m_inode m)) (sbs st))"

definition refs :: "lfs \<Rightarrow> nat" where
  "refs st = length (sbs st) + early st + reused st"

definition holds :: "res multiset \<Rightarrow> lfs \<Rightarrow> kworld \<Rightarrow> bool" where
  "holds H st s \<longleftrightarrow> resources s = Some (H + root_inodes st + replicate_mset (refs st) module_ref)"

text \<open>Counting a mount up or down does not change the roots.\<close>

lemma root_inodes_active [simp]:
  "{#Obj ''inode'' (m_inode m). m \<in># {#if m_dev m = dev then m\<lparr>m_active := f m\<rparr> else m. m \<in># mset xs#}#} =
   {#Obj ''inode'' (m_inode m). m \<in># mset xs#}"
  by (induction xs) auto

lemma fill_super_holds:
  assumes "resources s = Some H" "example_fill_super s = Some (r, sb, inode, s')"
  shows "resources s' = Some (if r = 0 then add_mset (Obj ''inode'' inode) H else H)"
  using assms by (auto simp: example_fill_super_def get_example_fs_root_inode_def d_make_root_def
      kernel_simps objs_nonzero Let_def split: Option.bind_splits if_splits)

lemma mount_holds:
  assumes "holds H st s" "example_fs_mount pick dev st s = Some (r, st', s')"
  shows "holds H st' s'"
proof (cases "ask s = 0")
  case True
  with assms show ?thesis by (auto simp: example_fs_mount_def try_module_get_def holds_def kernel_simps)
next
  case False
  define s1 where "s1 = answered (Obtain ''try_module_get'' [module_ref]) s"
  have s1: "resources s1 = Some (H + root_inodes st + replicate_mset (Suc (refs st)) module_ref)"
    using assms(1) by (simp add: s1_def holds_def kernel_simps)
  have m: "mount_bdev (pick dev st) dev st s1 = Some (r, st', s')"
    using assms(2) False by (simp add: example_fs_mount_def try_module_get_def s1_def)
  show ?thesis
  proof (cases "pick dev st")
    case Fresh
    with m obtain e sb inode s2 where f: "example_fill_super s1 = Some (e, sb, inode, s2)"
      "(if e = 0 then Some (Root, st\<lparr>sbs := \<lparr>m_dev = dev, m_active = 1, m_inode = inode\<rparr> # sbs st\<rparr>, s2)
        else Some (Err e, st, example_kill_block_super [] s2)) = Some (r, st', s')"
      by (auto simp: mount_bdev_def split: Option.bind_splits)
    from fill_super_holds [OF s1 f(1)] f(2) show ?thesis
      by (auto simp: holds_def root_inodes_def refs_def example_kill_block_super_def module_put_def
          kernel_simps split: if_splits)
  qed (use m s1 in \<open>auto simp: mount_bdev_def holds_def root_inodes_def refs_def\<close>)
qed

lemma umount_holds:
  assumes "holds H st s" "umount dev st s = (st', s')"
  shows "holds H st' s'"
proof (cases "find (\<lambda>m. m_dev m = dev) (sbs st)")
  case None
  with assms show ?thesis by (simp add: umount_def)
next
  case (Some m)
  then have m: "m \<in> set (sbs st)" by (auto simp: find_Some_iff)
  show ?thesis
  proof (cases "m_active m = 1")
    case True
    have "mset (map (\<lambda>m. Obj ''inode'' (m_inode m)) (sbs st)) =
        add_mset (Obj ''inode'' (m_inode m)) (mset (map (\<lambda>m. Obj ''inode'' (m_inode m)) (remove1 m (sbs st))))"
      using m by (simp add: image_mset_Diff)
    moreover have "length (sbs st) = Suc (length (remove1 m (sbs st)))"
      using m length_pos_if_in_set [OF m] by (simp add: length_remove1)
    ultimately show ?thesis
      using assms Some True
      by (auto simp: umount_def holds_def root_inodes_def refs_def example_kill_block_super_def
          module_put_def kernel_simps simp del: mset_map mset_remove1 length_remove1)
  next
    case False
    with assms Some show ?thesis
      by (auto simp: umount_def holds_def root_inodes_def refs_def)
  qed
qed

lemma mount_run_holds:
  "holds H st s \<Longrightarrow> mount_run pick ops st s = Some (st', s') \<Longrightarrow> holds H st' s'"
proof (induction pick ops st s rule: mount_run.induct)
  case (3 pick dev ops st s)
  obtain st1 s1 where "umount dev st s = (st1, s1)" by (rule prod.exhaust)
  with 3 umount_holds [OF 3(2) this] show ?case by simp
qed (auto split: Option.bind_splits dest: mount_holds)

text \<open>
  C35: After any sequence of mounts and unmounts, whatever the kernel answers, the module holds the
  root inode of every live superblock and one module reference per live superblock, one per mount
  that failed before it had a superblock and one per mount of a device that was mounted already.
  The last two are never given back: once they occurred, the module cannot be unloaded even when
  nothing is mounted.
\<close>

theorem lesson_module_refs:
  assumes "resources s = Some H" "mount_run pick ops \<lparr>sbs = [], early = 0, reused = 0\<rparr> s = Some (st, s')"
  shows "resources s' = Some (H + root_inodes st +
    replicate_mset (length (sbs st) + early st + reused st) module_ref)"
proof -
  have "holds H \<lparr>sbs = [], early = 0, reused = 0\<rparr> s"
    using assms(1) by (simp add: holds_def root_inodes_def refs_def)
  from mount_run_holds [OF this assms(2)] show ?thesis by (simp add: holds_def refs_def)
qed

text \<open>A device that is mounted twice and unmounted twice.\<close>

definition sample_pick :: "nat \<Rightarrow> lfs \<Rightarrow> outcome" where
  "sample_pick dev st = (if dev \<in> m_dev ` set (sbs st) then Reuse else Fresh)"

definition sample_kw :: kworld where
  "sample_kw = \<lparr>answers = (\<lambda>n. 5), ncalls = 0, klog = []\<rparr>"

theorem lesson_module_refs_witness:
  "\<exists>s'. mount_run sample_pick [Mount 8, Mount 8, Umount 8, Umount 8]
      \<lparr>sbs = [], early = 0, reused = 0\<rparr> sample_kw = Some (\<lparr>sbs = [], early = 0, reused = 1\<rparr>, s') \<and>
    resources s' = Some {#module_ref#}"
proof -
  obtain s' where r: "mount_run sample_pick [Mount 8, Mount 8, Umount 8, Umount 8]
      \<lparr>sbs = [], early = 0, reused = 0\<rparr> sample_kw = Some (\<lparr>sbs = [], early = 0, reused = 1\<rparr>, s')"
    by (simp add: example_fs_mount_def try_module_get_def mount_bdev_def sample_pick_def sample_kw_def
        example_fill_super_def get_example_fs_root_inode_def d_make_root_def obtain_obj_def umount_def
        ask_def answered_def Let_def)
  have "resources sample_kw = Some {#}" by (simp add: sample_kw_def resources_def)
  from lesson_module_refs [OF this r] r show ?thesis by (simp add: root_inodes_def)
qed

subsection \<open>What users see\<close>

text \<open>
  In the first lessons the mode is written in hexadecimal: the file is a block device, not a
  regular file. From \<open>fs/write_page\<close> on it is regular.
\<close>

lemma lookup_file_type:
  "example_lookup s = Some (inode, s') \<Longrightarrow> l_mode inode AND S_IFMT = S_IFBLK"
  "write_page_lookup s = Some (inode, s') \<Longrightarrow> l_mode inode AND S_IFMT = S_IFREG"
  "journal_lookup name s = Some (Some inode, s') \<Longrightarrow> l_mode inode AND S_IFMT = S_IFREG"
  by (auto simp: example_lookup_def write_page_lookup_def journal_lookup_def Let_def
      split: if_splits prod.splits)

text \<open>The listing passes the one name on once, with an inode number that no lookup returns.\<close>

lemma readdir_once:
  "example_readdir 0 = (1, 1, Some (''test1'', 233)) \<and> example_readdir 1 = (0, 1, None)"
  by (simp add: example_readdir_def)

lemma readdir_number_differs:
  assumes "example_lookup s = Some (inode, s')" "example_readdir pos = (r, pos', Some (name, ino))"
  shows "l_ino inode \<noteq> ino"
  using assms by (auto simp: example_lookup_def example_readdir_def Let_def split: if_splits prod.splits)

text \<open>A lookup after the first one does not ask the kernel: the inode of another superblock is returned.\<close>

lemma cached_lookup_again:
  assumes "cached_lookup None s = Some (inode, private_inode, s')"
  shows "cached_lookup private_inode s'' = Some (inode, private_inode, s'')"
  using assms by (auto simp: cached_lookup_def split: Option.bind_splits)

end
