(* ===== verification/Lesson_Read.thy ===== *)
theory Lesson_Read
  imports Lesson_Fs
begin

text \<open>
  How the lesson file systems read a file: their own \<open>read\<close> methods (\<open>fs/min_read/file.c\<close>,
  \<open>fs/sb_bread/read.c\<close>, \<open>fs/block_page_read/read.c\<close>) and their \<open>readpage\<close> methods
  (\<open>address_mapping.c\<close> of \<open>fs/bread\<close>, \<open>fs/buffer_read\<close>, \<open>fs/submit_bh_readpage\<close>,
  \<open>fs/page_cache_read\<close>, \<open>fs/get_block\<close>).

  The block device is the parameter \<open>block0\<close>, the 4096 bytes that start with its first block. Pages,
  buffer heads and bios that the code allocates are objects of the log. An access through \<open>NULL\<close> is
  \<open>None\<close>.
\<close>

subsection \<open>Methods for read\<close>

definition text123 :: "byte list" where
  "text123 = [0x31, 0x32, 0x33]"

text \<open>The part before the copy is the same in all three methods: what remains of three bytes.\<close>

definition clip_len :: "int \<Rightarrow> int \<Rightarrow> int" where
  "clip_len len pos = (let real_len = size_t (3 - pos) in if len > real_len then real_len else len)"

text \<open>\<open>fs/min_read\<close>: a constant text. The result of \<open>copy_to_user\<close> is not looked at.\<close>

definition min_read :: "int \<Rightarrow> int \<Rightarrow> kworld \<Rightarrow> int \<times> int \<times> byte list \<times> kworld" where
  "min_read len pos s =
     (if pos > 3 then (0, pos, [], s)
      else
        let len = clip_len len pos in
        if pos \<in> {0, 1, 2} then
          let (r, out, s) = copy_to_user (take (nat len) (drop (nat pos) text123)) s
          in (len, pos + len, out, s)
        else (len, pos + len, [], s))"

text \<open>\<open>fs/sb_bread\<close>: the first block of the device; the buffer head is not released.\<close>

definition sb_bread_read :: "byte list \<Rightarrow> int \<Rightarrow> int \<Rightarrow> kworld \<Rightarrow> (int \<times> int \<times> byte list \<times> kworld) option" where
  "sb_bread_read block0 len pos s =
     (let (bh, s) = obtain_obj ''sb_bread'' ''buffer_head'' s in
      if bh = 0 then None
      else
        let buffer = take 4096 block0 in
        if pos > 3 then Some (0, pos, [], s)
        else
          let len = clip_len len pos in
          if pos \<in> {0, 1, 2} then
            let (r, out, s) = copy_to_user (take (nat len) buffer) s
            in Some (len, pos + len, out, s)
          else Some (len, pos + len, [], s))"

text \<open>
  \<open>fs/block_page_read\<close>: a bio of its own into a page of its own. The globals are the page, the bio
  and the text buffer that \<open>example_end_io\<close> fills. The completion may come before the reader has put
  itself on the wait queue, after it, or not at all.
\<close>

record bpr =
  private_page :: addr
  private_bio :: addr
  pbuffer :: "byte list"

datatype completion = Before_wait bool | After_wait bool | Never

definition show_content :: "byte list \<Rightarrow> bpr \<Rightarrow> bpr" where
  "show_content block0 g = g\<lparr>pbuffer := take 4096 block0\<rparr>"

definition end_io :: "byte list \<Rightarrow> bool \<Rightarrow> bpr \<Rightarrow> kworld \<Rightarrow> bpr \<times> kworld" where
  "end_io block0 uptodate g s =
     (if \<not> uptodate then (g, s)
      else ((show_content block0 g)\<lparr>private_bio := 0\<rparr>, giveback_obj ''bio_put'' ''bio'' (private_bio g) s))"

text \<open>
  The reader sleeps without a condition and without signals: only a completion that is up to date
  and comes after it went to the queue wakes it. Otherwise the call never returns, \<open>Inl\<close>.
\<close>

definition block_page_read :: "byte list \<Rightarrow> completion \<Rightarrow> int \<Rightarrow> int \<Rightarrow> bpr \<Rightarrow> kworld \<Rightarrow>
    (unit + (int \<times> int \<times> byte list \<times> bpr \<times> kworld)) option" where
  "block_page_read block0 compl len pos g s =
     (let (page, s) = obtain_obj ''alloc_page'' ''page'' s; g = g\<lparr>private_page := page\<rparr> in do {
        let finish = (\<lambda>g s.
          (if pos > 3 then Inr (0, pos, [], g, s)
           else
             let len = clip_len len pos in
             if pos \<in> {0, 1, 2} then
               let (r, out, s) = copy_to_user (take (nat len) (pbuffer g)) s
               in Inr (len, pos + len, out, g, s)
             else Inr (len, pos + len, [], g, s)));
        if private_bio g = 0 then
          let (bio, s) = obtain_obj ''bio_alloc'' ''bio'' s in
          if bio = 0 then None
          else
            let g = g\<lparr>private_bio := bio\<rparr> in
            Some (case compl of
              After_wait True \<Rightarrow> (let (g, s) = end_io block0 True g s in finish g s)
            | _ \<Rightarrow> Inl ())
        else Some (finish g s)
      })"

subsection \<open>Methods for readpage that wait\<close>

record lpage =
  lp_addr :: addr
  lp_locked :: bool
  lp_uptodate :: bool
  lp_data :: "byte list"

text \<open>\<open>fs/bread\<close>\<close>

definition bread_readpage :: "byte list \<Rightarrow> lpage \<Rightarrow> kworld \<Rightarrow> (int \<times> lpage \<times> kworld) option" where
  "bread_readpage block0 page s =
     (let s = call (Obtain ''kmap'' [Obj ''kmap'' (lp_addr page)]) s;
          (bh, s) = obtain_obj ''sb_bread'' ''buffer_head'' s in
      if bh = 0 then None
      else
        let page = page\<lparr>lp_data := take 4096 block0\<rparr>;
            s = call (Giveback ''kunmap'' [Obj ''kmap'' (lp_addr page)]) s
        in Some (0, page\<lparr>lp_uptodate := True, lp_locked := False\<rparr>, s))"

text \<open>
  \<open>fs/buffer_read\<close> and \<open>fs/submit_bh_readpage\<close>: one buffer head over the page, submitted and waited
  for. \<open>io_ok\<close> tells whether the transfer worked; the code does not ask.
\<close>

definition submit_bh_readpage :: "byte list \<Rightarrow> bool \<Rightarrow> lpage \<Rightarrow> kworld \<Rightarrow> int \<times> lpage \<times> kworld" where
  "submit_bh_readpage block0 io_ok page s =
     (let (bh, s) = obtain_obj ''alloc_page_buffers'' ''buffer_head'' s in
      if bh = 0 then (0, page, s)
      else
        let s = call (Plain ''submit_bh'' bh) (call (Plain ''lock_buffer'' bh) s);
            page = (if io_ok then page\<lparr>lp_data := take 4096 block0\<rparr> else page);
            page = page\<lparr>lp_uptodate := True, lp_locked := False\<rparr>
        in (0, page, s))"

definition buffer_readpage :: "byte list \<Rightarrow> bool \<Rightarrow> lpage \<Rightarrow> kworld \<Rightarrow> int \<times> lpage \<times> kworld" where
  "buffer_readpage block0 io_ok page s =
     (let (bh, s) = obtain_obj ''alloc_page_buffers'' ''buffer_head'' s in
      if bh = 0 then (0, page, s)
      else
        let s = call (Plain ''lock_buffer'' bh) s;
            s = call (Plain ''submit_bh'' bh) s;
            page = (if io_ok then page\<lparr>lp_data := take 4096 block0\<rparr> else page)
        in (0, page\<lparr>lp_uptodate := True, lp_locked := False\<rparr>, s))"

text \<open>
  \<open>fs/get_block\<close> and \<open>fs/write_page\<close>: every block is mapped to block 0, and said to be two blocks
  long; the rest is done by the kernel.
\<close>

definition lesson_get_block :: "nat \<Rightarrow> int \<Rightarrow> int \<times> nat" where
  "lesson_get_block blocksize iblock = (0, 2 * blocksize)"

definition lesson_writepage :: "addr \<Rightarrow> kworld \<Rightarrow> int \<times> kworld" where
  "lesson_writepage page s =
     (ask s, answered (Giveback ''block_write_full_page'' [Obj ''page_lock'' page]) s)"

subsection \<open>A readpage that returns before the data is there\<close>

text \<open>
  \<open>fs/page_cache_read\<close>: one global bio. The kernel calls \<open>readpage\<close> with the page locked and waits for
  the lock; \<open>example_end_io\<close> unlocks it. \<open>in_flight\<close> tells whether the device still works on the bio.
\<close>

record pcr =
  p_bio :: addr
  bio_page :: addr
  in_flight :: bool
  plocked :: "addr \<Rightarrow> bool"
  puptodate :: "addr \<Rightarrow> bool"

definition page_cache_readpage :: "addr \<Rightarrow> pcr \<Rightarrow> kworld \<Rightarrow> (int \<times> pcr \<times> kworld) option" where
  "page_cache_readpage page g s =
     (if p_bio g = 0 then
        let (bio, s) = obtain_obj ''bio_alloc'' ''bio'' s in
        if bio = 0 then None
        else Some (0, g\<lparr>p_bio := bio, bio_page := page, in_flight := True\<rparr>,
          call (Plain ''submit_bio'' bio) s)
      else Some (0, g, s))"

definition example_end_io :: "bool \<Rightarrow> pcr \<Rightarrow> kworld \<Rightarrow> pcr \<times> kworld" where
  "example_end_io uptodate g s =
     (let page = bio_page g in
      if \<not> uptodate then (g, s)
      else (g\<lparr>puptodate := (puptodate g)(page := True), plocked := (plocked g)(page := False), p_bio := 0\<rparr>,
        giveback_obj ''bio_put'' ''bio'' (p_bio g) s))"

inductive pcr_step :: "pcr \<times> kworld \<Rightarrow> pcr \<times> kworld \<Rightarrow> bool" where
  read: "\<not> plocked g page \<Longrightarrow> \<not> puptodate g page \<Longrightarrow>
     page_cache_readpage page (g\<lparr>plocked := (plocked g)(page := True)\<rparr>) s = Some (r, g', s') \<Longrightarrow>
     pcr_step (g, s) (g', s')"
| complete: "in_flight g \<Longrightarrow> example_end_io ok (g\<lparr>in_flight := False\<rparr>) s = (g', s') \<Longrightarrow>
     pcr_step (g, s) (g', s')"

inductive_cases pcr_stepE: "pcr_step x y"

subsection \<open>The read methods\<close>

lemma clip_len_range:
  "0 \<le> len \<Longrightarrow> 0 \<le> pos \<Longrightarrow> pos \<le> 3 \<Longrightarrow> clip_len len pos = min len (3 - pos)"
  by (simp add: clip_len_def Let_def)

text \<open>\<open>min_read\<close> delivers the text from the position on when the copy succeeds.\<close>

lemma min_read_delivers:
  assumes "0 \<le> len" "0 \<le> pos" "pos \<le> 3" "ask s = 0"
  shows "\<exists>s'. min_read len pos s = (min len (3 - pos), pos + min len (3 - pos),
    take (nat (min len (3 - pos))) (drop (nat pos) text123), s')"
proof (cases "pos = 3")
  case True
  with assms(1) show ?thesis by (simp add: min_read_def clip_len_range text123_def)
next
  case False
  then have "pos \<in> {0, 1, 2}" "\<not> pos > 3" using assms(2,3) by auto
  with assms show ?thesis
    by (simp only: min_read_def clip_len_range copy_to_user_def Let_def if_True if_False prod.case)
      (simp add: text123_def)
qed

text \<open>When it fails, the caller is told that the bytes arrived.\<close>

lemma min_read_hides_fault:
  assumes "0 < len" "ask s = 1"
  shows "\<exists>out s'. min_read len 2 s = (1, 3, out, s') \<and> out = []"
  using assms by (simp add: min_read_def clip_len_range copy_to_user_def text123_def Let_def)

text \<open>The method of \<open>fs/sb_bread\<close> always starts at the first byte: the position only shortens the text.\<close>

lemma sb_bread_read_from_start:
  assumes "0 \<le> len" "pos \<in> {0, 1, 2}" "ask s \<noteq> 0" "answers s (Suc (ncalls s)) = 0" "3 \<le> length block0"
  shows "\<exists>s'. sb_bread_read block0 len pos s =
    Some (min len (3 - pos), pos + min len (3 - pos), take (nat (min len (3 - pos))) block0, s')"
  using assms by (auto simp: sb_bread_read_def clip_len_range obtain_obj_def copy_to_user_def
      answer_simps Let_def)

text \<open>Each call of it keeps a buffer head.\<close>

lemma sb_bread_read_leaks:
  assumes "resources s = Some H" "sb_bread_read block0 len pos s = Some (r, pos', out, s')"
  shows "resources s' = Some (add_mset (Obj ''buffer_head'' (ask s)) H)"
  using assms by (auto simp: sb_bread_read_def obtain_obj_def copy_to_user_def objs_nonzero Let_def ksimps
      split: if_splits)

text \<open>The method of \<open>fs/block_page_read\<close> sleeps forever when the transfer completes before it waits.\<close>

lemma block_page_read_lost_wakeup:
  assumes "private_bio g = 0" "answers s (Suc (ncalls s)) \<noteq> 0"
  shows "block_page_read block0 (Before_wait ok) len pos g s = Some (Inl ())"
  using assms by (simp add: block_page_read_def obtain_obj_def answer_simps Let_def)

subsection \<open>The readpage methods that wait\<close>

text \<open>\<open>fs/bread\<close> fills the page, but keeps the buffer head.\<close>

lemma bread_readpage_fills:
  assumes "ask s \<noteq> 0" "resources s = Some H"
  shows "\<exists>s'. bread_readpage block0 page s =
      Some (0, page\<lparr>lp_data := take 4096 block0, lp_uptodate := True, lp_locked := False\<rparr>, s') \<and>
    resources s' = Some (add_mset (Obj ''buffer_head'' (ask s)) H)"
  using assms by (simp add: bread_readpage_def obtain_obj_def objs_nonzero answer_simps Let_def ksimps)

text \<open>The two versions with a buffer head of their own are the same; neither looks at the result.\<close>

lemma buffer_readpage_same: "buffer_readpage = submit_bh_readpage"
  by (simp add: fun_eq_iff buffer_readpage_def submit_bh_readpage_def obtain_obj_def Let_def)

lemma submit_bh_readpage_blind:
  assumes "ask s \<noteq> 0" "submit_bh_readpage block0 False page s = (r, page', s')"
  shows "r = 0 \<and> lp_uptodate page' \<and> lp_data page' = lp_data page"
  using assms by (auto simp: submit_bh_readpage_def obtain_obj_def Let_def)

lemma submit_bh_readpage_stays_locked:
  assumes "ask s = 0"
  shows "\<exists>s'. submit_bh_readpage block0 io_ok page s = (0, page, s')"
  using assms by (simp add: submit_bh_readpage_def obtain_obj_def)

subsection \<open>The readpage method with one bio\<close>

definition pcr_init :: pcr where
  "pcr_init = \<lparr>p_bio = 0, bio_page = 0, in_flight = False, plocked = (\<lambda>_. False), puptodate = (\<lambda>_. False)\<rparr>"

text \<open>While the device works on the bio, the bio is set and its page is locked.\<close>

definition pcr_inv :: "pcr \<Rightarrow> bool" where
  "pcr_inv g \<longleftrightarrow> (in_flight g \<longrightarrow> p_bio g \<noteq> 0 \<and> plocked g (bio_page g))"

lemmas pcr_defs = page_cache_readpage_def example_end_io_def obtain_obj_def Let_def

lemma pcr_step_inv: "pcr_step (g, s) (g', s') \<Longrightarrow> pcr_inv g \<Longrightarrow> pcr_inv g'"
  by (erule pcr_stepE) (auto simp: pcr_inv_def pcr_defs split: if_splits)

text \<open>A locked page that nobody works on.\<close>

definition stranded :: "pcr \<Rightarrow> addr \<Rightarrow> bool" where
  "stranded g q \<longleftrightarrow> plocked g q \<and> \<not> puptodate g q \<and> \<not> (in_flight g \<and> bio_page g = q)"

lemma pcr_step_stranded: "pcr_step (g, s) (g', s') \<Longrightarrow> stranded g q \<Longrightarrow> stranded g' q"
  by (erule pcr_stepE) (auto simp: stranded_def pcr_defs split: if_splits)

text \<open>A bio that is set but not worked on: nothing is ever submitted again.\<close>

definition dead :: "(addr \<Rightarrow> bool) \<Rightarrow> pcr \<Rightarrow> bool" where
  "dead u g \<longleftrightarrow> p_bio g \<noteq> 0 \<and> \<not> in_flight g \<and> puptodate g = u"

lemma pcr_step_dead: "pcr_step (g, s) (g', s') \<Longrightarrow> dead u g \<Longrightarrow> dead u g'"
  by (erule pcr_stepE) (auto simp: dead_def pcr_defs split: if_splits)

lemma pcr_steps:
  assumes "\<And>g s g' s'. pcr_step (g, s) (g', s') \<Longrightarrow> P g \<Longrightarrow> P g'"
  shows "pcr_step\<^sup>*\<^sup>* (g, s) (g', s') \<Longrightarrow> P g \<Longrightarrow> P g'"
proof (induction "(g', s')" arbitrary: g' s' rule: rtranclp_induct)
  case (step y)
  then show ?case using assms by (cases y) auto
qed simp

text \<open>
  C36: A page that the kernel asks for while the only bio is in use is lost: \<open>readpage\<close> reports
  success without starting a transfer, and however the system continues, the page stays locked and
  is never brought up to date, so that every process waiting for it hangs.
\<close>

theorem page_cache_strands_page:
  assumes "pcr_step\<^sup>*\<^sup>* (pcr_init, s0) (g, s)" "p_bio g \<noteq> 0" "\<not> plocked g q" "\<not> puptodate g q"
    and "page_cache_readpage q (g\<lparr>plocked := (plocked g)(q := True)\<rparr>) s = Some (r, g1, s1)"
    and "pcr_step\<^sup>*\<^sup>* (g1, s1) (g2, s2)"
  shows "r = 0 \<and> plocked g2 q \<and> \<not> puptodate g2 q"
proof -
  have "pcr_inv g" by (rule pcr_steps [OF pcr_step_inv assms(1)]) (auto simp: pcr_inv_def pcr_init_def)
  with assms(2-5) have "r = 0" "stranded g1 q"
    by (auto simp: stranded_def pcr_inv_def pcr_defs)
  with pcr_steps [where P = "\<lambda>g. stranded g q", OF pcr_step_stranded assms(6)] show ?thesis
    by (simp add: stranded_def)
qed

definition sample_busy :: pcr where
  "sample_busy = pcr_init\<lparr>p_bio := 7, bio_page := 1, in_flight := True, plocked := (\<lambda>_. False)(1 := True)\<rparr>"

lemma sample_busy_reachable:
  "\<exists>s. pcr_step\<^sup>*\<^sup>* (pcr_init, \<lparr>answers = (\<lambda>_. 7), ncalls = 0, klog = []\<rparr>) (sample_busy, s)"
proof -
  have "\<exists>s. pcr_step (pcr_init, \<lparr>answers = (\<lambda>_. 7), ncalls = 0, klog = []\<rparr>) (sample_busy, s)"
    by (rule exI, rule read [where page = 1])
      (auto simp: pcr_init_def sample_busy_def pcr_defs ask_def)
  then show ?thesis by blast
qed

theorem page_cache_strands_page_witness:
  "\<exists>s1 r g1. page_cache_readpage 2 (sample_busy\<lparr>plocked := (plocked sample_busy)(2 := True)\<rparr>) s1 =
      Some (r, g1, s1) \<and> r = 0 \<and> plocked g1 2 \<and> \<not> puptodate g1 2"
proof -
  obtain s where s: "pcr_step\<^sup>*\<^sup>* (pcr_init, \<lparr>answers = (\<lambda>_. 7), ncalls = 0, klog = []\<rparr>) (sample_busy, s)"
    using sample_busy_reachable by blast
  define g1 where "g1 = sample_busy\<lparr>plocked := (plocked sample_busy)(2 := True)\<rparr>"
  have "page_cache_readpage 2 (sample_busy\<lparr>plocked := (plocked sample_busy)(2 := True)\<rparr>) s = Some (0, g1, s)"
    by (simp add: g1_def pcr_defs sample_busy_def)
  with page_cache_strands_page [OF s _ _ _ this] show ?thesis
    by (auto simp: sample_busy_def pcr_init_def)
qed

text \<open>
  One failed transfer disables the file system: the completion returns early with the bio still
  set, and in every later state no transfer is under way and no page has been brought up to date.
\<close>

lemma page_cache_failure_final:
  assumes "pcr_step\<^sup>*\<^sup>* (pcr_init, s0) (g, s)" "in_flight g"
    and "example_end_io False (g\<lparr>in_flight := False\<rparr>) s = (g1, s1)"
    and "pcr_step\<^sup>*\<^sup>* (g1, s1) (g2, s2)"
  shows "\<not> in_flight g2 \<and> puptodate g2 = puptodate g"
proof -
  have "pcr_inv g" by (rule pcr_steps [OF pcr_step_inv assms(1)]) (auto simp: pcr_inv_def pcr_init_def)
  with assms(2,3) have "dead (puptodate g) g1" by (auto simp: dead_def pcr_inv_def pcr_defs)
  with pcr_steps [where P = "dead (puptodate g)", OF pcr_step_dead assms(4)] show ?thesis
    by (simp add: dead_def)
qed

end
