(* ===== verification/Lesson_Write.thy ===== *)
theory Lesson_Write
  imports Lesson_Read Kernel_Text
begin

text \<open>
  The write path of the lessons \<open>fs/get_block\<close> and \<open>fs/write_page\<close> (\<open>address_mapping.c\<close>, the same file twice): the methods hand
  their own \<open>get_block\<close> to the generic functions of the kernel, which are arguments, and report results they do not
  like. A method's result has the lines it prints.
\<close>

subsection \<open>The methods\<close>

type_synonym get_block = "nat \<Rightarrow> int \<Rightarrow> int \<times> nat"

definition example_readpage :: "(get_block \<Rightarrow> addr \<Rightarrow> 's \<Rightarrow> int \<times> 's) \<Rightarrow> addr \<Rightarrow> 's \<Rightarrow> int \<times> 's" where
  "example_readpage mpage_readpage page s = mpage_readpage lesson_get_block page s"

definition example_write_begin :: "(get_block \<Rightarrow> int \<Rightarrow> 32 word \<Rightarrow> 's \<Rightarrow> int \<times> 's) \<Rightarrow> int \<Rightarrow> 32 word \<Rightarrow> 's \<Rightarrow>
    int \<times> string list \<times> 's" where
  "example_write_begin block_write_begin pos len s =
     (let (ret, s) = block_write_begin lesson_get_block pos len s
      in (ret, if ret < 0 then [''block_write_begin ret['' @ fmt_d ret @ '']'' @ [CHR 0x0A]] else [], s))"

text \<open>\<open>ret\<close> is an \<open>int\<close> and \<open>len\<close> an \<open>unsigned\<close>: the comparison converts \<open>ret\<close>.\<close>

definition example_write_end :: "(int \<Rightarrow> 32 word \<Rightarrow> 32 word \<Rightarrow> 's \<Rightarrow> int \<times> 's) \<Rightarrow> int \<Rightarrow> 32 word \<Rightarrow> 32 word \<Rightarrow> 's \<Rightarrow>
    int \<times> string list \<times> 's" where
  "example_write_end generic_write_end pos len copied s =
     (let (ret, s) = generic_write_end pos len copied s
      in (ret, if word_of_int ret < len
               then [''generic_write_end ret['' @ fmt_d ret @ ''] wanted len ['' @ fmt_d (sint len) @ '']'' @ [CHR 0x0A]] else [], s))"

subsection \<open>What is reported\<close>

lemma word_of_int_int: "- (2 ^ 31) \<le> r \<Longrightarrow> r < 2 ^ 31 \<Longrightarrow>
    uint (word_of_int r :: 32 word) = (if r < 0 then r + 2 ^ 32 else r)" for r :: int
proof -
  assume r: "- (2 ^ 31) \<le> r" "r < 2 ^ 31"
  show ?thesis
  proof (cases "r < 0")
    case True
    have "r mod 2 ^ 32 = (r + 2 ^ 32) mod 2 ^ 32" by simp
    also have "\<dots> = r + 2 ^ 32" using r True by (intro mod_pos_pos_trivial) simp_all
    finally show ?thesis using True by (simp add: uint_word_of_int)
  next
    case False
    then show ?thesis using r by (simp add: uint_word_of_int)
  qed
qed

text \<open>
  A short write is reported. A failed one is not: for a length below \<open>2 ^ 31\<close> the negative result is
  converted to a number that is larger than any such length.
\<close>

lemma write_end_reports:
  assumes "generic_write_end pos len copied s = (ret, s')" "- (2 ^ 31) \<le> ret" "ret < 2 ^ 31" "uint len < 2 ^ 31"
  shows "\<exists>msgs. example_write_end generic_write_end pos len copied s = (ret, msgs, s') \<and>
    (msgs \<noteq> [] \<longleftrightarrow> 0 \<le> ret \<and> ret < uint len)"
  using assms word_of_int_int [OF assms(2,3)] by (auto simp: example_write_end_def word_less_def)

lemma write_begin_reports:
  "\<exists>ret msgs s'. example_write_begin bwb pos len s = (ret, msgs, s') \<and> (ret, s') = bwb lesson_get_block pos len s \<and>
    (msgs \<noteq> [] \<longleftrightarrow> ret < 0)"
  by (auto simp: example_write_begin_def split: prod.splits)

subsection \<open>Where the data goes\<close>

text \<open>
  A disk as its blocks, written and read through a \<open>get_block\<close> method: block \<open>i\<close> of the file goes to the
  disk block the method names. In these lessons that is one block for the whole file.
\<close>

definition write_block :: "get_block \<Rightarrow> nat \<Rightarrow> int \<times> byte list \<Rightarrow> (int \<Rightarrow> byte list) \<Rightarrow> int \<Rightarrow> byte list" where
  "write_block gb bs = (\<lambda>(i, bytes) disk. disk(fst (gb bs i) := bytes))"

definition read_block :: "get_block \<Rightarrow> nat \<Rightarrow> (int \<Rightarrow> byte list) \<Rightarrow> int \<Rightarrow> byte list" where
  "read_block gb bs disk i = disk (fst (gb bs i))"

lemma one_block_file:
  "read_block lesson_get_block bs (fold (write_block lesson_get_block bs) ws disk) i =
    (if ws = [] then disk 0 else snd (last ws))"
proof (induction ws arbitrary: disk)
  case (Cons w ws)
  then show ?case by (cases w) (auto simp: read_block_def write_block_def lesson_get_block_def)
qed (simp add: read_block_def lesson_get_block_def)

end
