(* ===== verification/Lesson_Min.thy ===== *)
theory Lesson_Min
  imports Lesson_Fs
begin

text \<open>
  The first lessons under \<open>fs\<close>: \<open>min_mountable\<close>, a file system without a device whose superblock has a
  private structure, and the lessons up to \<open>min_read\<close> that mount a device without holding a reference on
  the module (\<open>min_device\<close>, \<open>min_root\<close>, \<open>min_read\<close> and the later lessons that copy its \<open>file_system.c\<close>). Before them come the
  types of \<open>never_mount\<close> and \<open>nodev_no_fill_sb\<close>, which can be registered but not mounted.
\<close>

subsection \<open>Types that cannot be mounted\<close>

text \<open>A missing pointer is \<open>None\<close>, and calling through it is the result \<open>None\<close>.\<close>

record fs_type =
  t_get_sb :: "(kworld \<Rightarrow> (int \<times> kworld) option) option"

definition vfs_get_sb :: "fs_type \<Rightarrow> kworld \<Rightarrow> (int \<times> kworld) option" where
  "vfs_get_sb t s = (case t_get_sb t of None \<Rightarrow> None | Some get_sb \<Rightarrow> get_sb s)"

definition never_mount_type :: fs_type where
  "never_mount_type = \<lparr>t_get_sb = None\<rparr>"

text \<open>\<open>get_sb_nodev\<close> fails early or calls back on a new superblock.\<close>

definition get_sb_nodev :: "(kworld \<Rightarrow> int \<times> kworld) option \<Rightarrow> kworld \<Rightarrow> (int \<times> kworld) option" where
  "get_sb_nodev fill_super s =
     (let (e, s) = status_call ''sget'' s in
      if e \<noteq> 0 then Some (e, s) else map_option (\<lambda>fill. fill s) fill_super)"

definition example_get_sb :: "kworld \<Rightarrow> (int \<times> kworld) option" where
  "example_get_sb s = get_sb_nodev None s"

definition no_fill_type :: fs_type where
  "no_fill_type = \<lparr>t_get_sb = Some example_get_sb\<rparr>"

text \<open>
  Mounting the first kind never returns; the second returns only when no superblock could be had, and
  then nothing is held.
\<close>

lemma unmountable_types:
  "vfs_get_sb never_mount_type s = None"
  "vfs_get_sb no_fill_type s = Some (r, s') \<Longrightarrow> r \<noteq> 0 \<and> resources s' = resources s"
  "ask s = 0 \<longleftrightarrow> vfs_get_sb no_fill_type s = None"
  by (auto simp: vfs_get_sb_def never_mount_type_def no_fill_type_def example_get_sb_def get_sb_nodev_def
      kernel_simps split: if_splits)

subsection \<open>A superblock without a device\<close>

definition new_example_fs_info :: "kworld \<Rightarrow> addr \<times> kworld" where
  "new_example_fs_info s =
     (let (fsi, s) = kzalloc (Sizeof ''example_fs_info'') s
      in if fsi = 0 then (0, s) else (fsi, s))"

text \<open>The result: the status, the private structure, the root inode.\<close>

definition nodev_fill_super :: "kworld \<Rightarrow> int \<times> addr \<times> addr \<times> kworld" where
  "nodev_fill_super s =
     (let (fsi, s) = new_example_fs_info s in
      if fsi = 0 then (- ENOMEM, 0, 0, s)
      else
        let (inode, s) = obtain_obj ''new_inode'' ''inode'' s in
        if inode = 0 then (- ENOMEM, fsi, 0, s)
        else
          let (root, s) = d_make_root inode s
          in (if root \<noteq> 0 then 0 else - ENOMEM, fsi, inode, s))"

text \<open>\<open>kill_litter_super\<close> drops the root; nobody frees the private structure.\<close>

definition example_kill_sb :: "res list \<Rightarrow> kworld \<Rightarrow> kworld" where
  "example_kill_sb root s = call (Giveback ''kill_litter_super'' root) s"

text \<open>The live superblocks, by their root inode, and every private structure that was allocated.\<close>

record nodev_fs =
  n_live :: "addr list"
  n_infos :: "addr list"

text \<open>
  \<open>mount_nodev\<close> fails early or calls back on a new superblock, and kills it when that fails. Which it does
  is the first answer.
\<close>

definition nodev_mount :: "nodev_fs \<Rightarrow> kworld \<Rightarrow> mroot \<times> nodev_fs \<times> kworld" where
  "nodev_mount st s =
     (let (e, s) = status_call ''sget'' s in
      if e \<noteq> 0 then (Err e, st, s)
      else
        let (r, fsi, inode, s) = nodev_fill_super s;
            st = (if fsi = 0 then st else st\<lparr>n_infos := fsi # n_infos st\<rparr>)
        in if r \<noteq> 0 then (Err r, st, example_kill_sb [] s)
           else (Root, st\<lparr>n_live := inode # n_live st\<rparr>, s))"

definition nodev_umount :: "addr \<Rightarrow> nodev_fs \<Rightarrow> kworld \<Rightarrow> nodev_fs \<times> kworld" where
  "nodev_umount inode st s =
     (if inode \<in> set (n_live st)
      then (st\<lparr>n_live := remove1 inode (n_live st)\<rparr>, example_kill_sb [Obj ''inode'' inode] s) else (st, s))"

datatype nop = NMount | NUmount addr

fun nodev_run :: "nop list \<Rightarrow> nodev_fs \<Rightarrow> kworld \<Rightarrow> nodev_fs \<times> kworld" where
  "nodev_run [] st s = (st, s)"
| "nodev_run (NMount # ops) st s = (case nodev_mount st s of (_, st, s) \<Rightarrow> nodev_run ops st s)"
| "nodev_run (NUmount i # ops) st s = (case nodev_umount i st s of (st, s) \<Rightarrow> nodev_run ops st s)"

definition nodev_held :: "nodev_fs \<Rightarrow> res multiset" where
  "nodev_held st = mset (map (Obj ''inode'') (n_live st)) + mset (map Mem (n_infos st))"

lemma nodev_mount_held:
  assumes "resources s = Some (H + nodev_held st)" "nodev_mount st s = (r, st', s')"
  shows "resources s' = Some (H + nodev_held st')"
  using assms
  by (auto simp: nodev_mount_def nodev_fill_super_def new_example_fs_info_def example_kill_sb_def d_make_root_def
      nodev_held_def kernel_simps mem_res_def objs_def Let_def split: if_splits)

lemma nodev_umount_held:
  assumes "resources s = Some (H + nodev_held st)" "nodev_umount i st s = (st', s')"
  shows "resources s' = Some (H + nodev_held st')"
proof (cases "i \<in> set (n_live st)")
  case True
  then have "mset (map (Obj ''inode'') (n_live st)) =
      add_mset (Obj ''inode'' i) (mset (map (Obj ''inode'') (remove1 i (n_live st))))"
    by (simp add: image_mset_Diff)
  with assms True show ?thesis
    by (auto simp: nodev_umount_def nodev_held_def example_kill_sb_def kernel_simps
        simp del: mset_map mset_remove1)
qed (use assms in \<open>simp add: nodev_umount_def\<close>)

text \<open>
  Whatever is mounted and unmounted, the module holds the roots of what is mounted and every private
  structure that it ever allocated: each mount leaks one, whether it succeeds or not.
\<close>

lemma nodev_run_held:
  "resources s = Some (H + nodev_held st) \<Longrightarrow> nodev_run ops st s = (st', s') \<Longrightarrow>
   resources s' = Some (H + nodev_held st')"
proof (induction ops st s rule: nodev_run.induct)
  case (2 ops st s)
  obtain r st1 s1 where "nodev_mount st s = (r, st1, s1)" by (cases "nodev_mount st s") auto
  with 2 nodev_mount_held [OF 2(2) this] show ?case by simp
next
  case (3 i ops st s)
  obtain st1 s1 where "nodev_umount i st s = (st1, s1)" by (cases "nodev_umount i st s") auto
  with 3 nodev_umount_held [OF 3(2) this] show ?case by simp
qed simp

lemma nodev_infos_grow: "nodev_run ops st s = (st', s') \<Longrightarrow> \<exists>xs. n_infos st' = xs @ n_infos st"
proof (induction ops st s rule: nodev_run.induct)
  case (2 ops st s)
  obtain r st1 s1 where m: "nodev_mount st s = (r, st1, s1)" by (cases "nodev_mount st s") auto
  then have "\<exists>xs. n_infos st1 = xs @ n_infos st"
    by (auto simp: nodev_mount_def Let_def split: if_splits prod.splits)
  with 2 m show ?case by fastforce
next
  case (3 i ops st s)
  obtain st1 s1 where m: "nodev_umount i st s = (st1, s1)" by (cases "nodev_umount i st s") auto
  then have "n_infos st1 = n_infos st" by (auto simp: nodev_umount_def split: if_splits)
  with 3 m show ?case by simp
qed simp

subsection \<open>A device without a module reference\<close>

text \<open>\<open>fs/min_read/file_system.c\<close>: the mount function is \<open>mount_bdev\<close> itself, \<open>kill_sb\<close> the kernel's.\<close>

definition plain_fs_mount :: "(nat \<Rightarrow> lfs \<Rightarrow> outcome) \<Rightarrow> nat \<Rightarrow> lfs \<Rightarrow> kworld \<Rightarrow> (mroot \<times> lfs \<times> kworld) option" where
  "plain_fs_mount pick dev st s =
     (case pick dev st of
        Early e \<Rightarrow> Some (Err e, st, s)
      | Reuse \<Rightarrow> Some (Root, st\<lparr>sbs := map (\<lambda>m. if m_dev m = dev then m\<lparr>m_active := m_active m + 1\<rparr> else m) (sbs st)\<rparr>, s)
      | Fresh \<Rightarrow> do {
          (r, sb, inode, s) \<leftarrow> example_fill_super s;
          if r = 0 then
            Some (Root, st\<lparr>sbs := \<lparr>m_dev = dev, m_active = 1, m_inode = inode\<rparr> # sbs st\<rparr>, s)
          else Some (Err r, st, call (Giveback ''kill_block_super'' []) s)
        })"

definition plain_init :: "bool \<Rightarrow> kworld \<Rightarrow> int \<times> bool \<times> kworld" where
  "plain_init registered s =
     (let (err, s) = obtain_if_ok ''register_filesystem'' ''filesystem'' 1 s;
          s = (if err \<noteq> 0 then unregister_filesystem False s else s)
      in (err, err = 0, s))"

definition plain_exit :: "bool \<Rightarrow> kworld \<Rightarrow> kworld" where
  "plain_exit registered s = unregister_filesystem registered s"

interpretation plain_mod: module_lifecycle plain_init plain_exit
  "\<lambda>registered. if registered then {#Obj ''filesystem'' 1#} else {#}"
proof -
  have "plain_init = init_example_fs" "plain_exit = exit_example_fs"
    by (simp_all add: fun_eq_iff plain_init_def init_example_fs_def plain_exit_def exit_example_fs_def)
  then show "module_lifecycle plain_init plain_exit (\<lambda>registered. if registered then {#Obj ''filesystem'' 1#} else {#})"
    using lesson_mod.module_lifecycle_axioms by simp
qed

text \<open>
  A mount changes nothing but the root inode it adds; in particular it leaks nothing when it fails. But
  it takes no reference either, so the module can be unloaded under a mounted superblock.
\<close>

lemma plain_mount_held:
  assumes "resources s = Some (H + root_inodes st)" "plain_fs_mount pick dev st s = Some (r, st', s')"
  shows "resources s' = Some (H + root_inodes st')"
proof (cases "pick dev st")
  case Fresh
  with assms(2) obtain e sb inode s1 where f: "example_fill_super s = Some (e, sb, inode, s1)"
    "(if e = 0 then Some (Root, st\<lparr>sbs := \<lparr>m_dev = dev, m_active = 1, m_inode = inode\<rparr> # sbs st\<rparr>, s1)
      else Some (Err e, st, call (Giveback ''kill_block_super'' []) s1)) = Some (r, st', s')"
    by (auto simp: plain_fs_mount_def split: Option.bind_splits)
  from fill_super_holds [OF assms(1) f(1)] f(2) show ?thesis
    by (auto simp: root_inodes_def kernel_simps split: if_splits)
qed (use assms in \<open>auto simp: plain_fs_mount_def root_inodes_def\<close>)

lemma plain_unload_mounted:
  assumes "plain_fs_mount pick dev st s = Some (Root, st', s')" "resources s = Some (H + {#Obj ''filesystem'' 1#} + root_inodes st)"
  shows "resources (plain_exit True s') = Some (H + root_inodes st')"
  using plain_mount_held [OF assms(2,1)] by (simp add: plain_exit_def unregister_filesystem_def kernel_simps)

subsection \<open>The first directory\<close>

text \<open>In \<open>fs/min_root\<close> the mode of the file has no type at all.\<close>

definition min_root_lookup :: "kworld \<Rightarrow> (linode \<times> kworld) option" where
  "min_root_lookup s =
     (let (p, s) = obtain_obj ''iget_locked'' ''inode'' s in
      if p = 0 then None
      else Some (\<lparr>l_addr = p, l_ino = 123, l_mode = 0x666, l_uid = 0xde, l_gid = 0xad, l_size = 3\<rparr>,
        call (Plain ''unlock_new_inode'' p) s))"

lemma min_root_no_type: "min_root_lookup s = Some (inode, s') \<Longrightarrow> l_mode inode AND S_IFMT = 0"
  by (auto simp: min_root_lookup_def Let_def split: if_splits prod.splits)

end
