(* ===== verification/Journal_Super.thy ===== *)
theory Journal_Super
  imports Lesson_Fs
begin

text \<open>
  The superblock of the journalling lesson file systems, \<open>fs/journal/super_with_journal.c\<close> (the copy
  in \<open>fs/jbd2\<close> lacks \<open>example_sync_fs\<close>): finding the journal on the device, loading it, and undoing
  that when something fails. A journal and a buffer head are objects of the log; the addresses of
  the data of a buffer head and the content of the device are parameters.
\<close>

subsection \<open>Opening the journal\<close>

text \<open>
  The parameters are the address of \<open>b_data\<close> of a buffer head and the number of users in the
  superblock of a journal. The conversion \<open>le32_to_cpu\<close> is applied to an address: its low 32 bits.
\<close>

definition journal_len :: "(addr \<Rightarrow> addr) \<Rightarrow> addr \<Rightarrow> nat" where
  "journal_len b_data bh = u32 (b_data bh + 4)"

definition example_init_journal :: "(addr \<Rightarrow> addr) \<Rightarrow> (addr \<Rightarrow> nat) \<Rightarrow> int \<Rightarrow> kworld \<Rightarrow> (addr \<times> nat) option \<times> kworld" where
  "example_init_journal b_data s_nr_users blocksize s =
     (let (hblock, s) = status_call ''bdev_logical_block_size'' s in
      if blocksize < hblock then (None, s)
      else
        let s = call (Plain ''set_blocksize'' blocksize) s;
            (bh, s) = obtain_obj ''__bread'' ''buffer_head'' s in
        if bh = 0 then (None, s)
        else
          let len = journal_len b_data bh;
              s = giveback_obj ''brelse'' ''buffer_head'' bh s;
              (journal, s) = obtain_obj ''journal_init_dev'' ''journal'' s in
          if journal = 0 then (None, s)
          else
            let (uptodate, s) = status_call ''bh_uptodate_or_lock'' s;
                (failed, s) = (if uptodate = 0 then status_call ''bh_submit_read'' s else (0, s)) in
            if failed \<noteq> 0 then (None, giveback_obj ''journal_destroy'' ''journal'' journal s)
            else if s_nr_users journal \<noteq> 1 then (None, giveback_obj ''journal_destroy'' ''journal'' journal s)
            else (Some (journal, len), s))"

text \<open>
  \<open>journal_load\<close> and \<open>journal_destroy\<close> look into the journal they are given. The global
  \<open>example_journal\<close> is returned, \<open>None\<close> for \<open>NULL\<close>.
\<close>

definition journal_fill_super :: "(addr \<Rightarrow> addr) \<Rightarrow> (addr \<Rightarrow> nat) \<Rightarrow> kworld \<Rightarrow>
    (int \<times> super \<times> addr option \<times> addr \<times> kworld) option" where
  "journal_fill_super b_data s_nr_users s = do {
     let sb = \<lparr>s_blocksize = 1024, s_blocksize_bits = 10, s_root = 0\<rparr>;
     (inode, s) \<leftarrow> get_example_fs_root_inode s;
     let (j, s) = example_init_journal b_data s_nr_users (int (s_blocksize sb)) s;
     case j of
       None \<Rightarrow> None
     | Some (journal, len) \<Rightarrow>
         let (err, s) = status_call ''journal_load'' s in
         if err \<noteq> 0 then
           Some (err, sb, None, l_addr inode, giveback_obj ''journal_destroy'' ''journal'' journal s)
         else
           let (root, s) = d_make_root (l_addr inode) s
           in Some (if root \<noteq> 0 then 0 else - ENOMEM, sb\<lparr>s_root := root\<rparr>, Some journal, l_addr inode, s)
   }"

definition example_sync_fs :: "bool \<Rightarrow> kworld \<Rightarrow> int \<times> kworld" where
  "example_sync_fs wait s =
     (let (started, s) = status_call ''journal_start_commit'' s;
          s = (if started \<noteq> 0 then if wait then call (Plain ''log_wait_commit'' 0) s else s else s)
      in (0, s))"

subsection \<open>What is kept\<close>

text \<open>Opening keeps nothing but the journal it returns, and that has one user.\<close>

lemma init_journal_holds:
  assumes "example_init_journal b_data s_nr_users blocksize s = (j, s')" "resources s = Some H"
  shows "resources s' = Some (case j of None \<Rightarrow> H | Some (journal, len) \<Rightarrow> add_mset (Obj ''journal'' journal) H)"
    and "j = Some (journal, len) \<Longrightarrow> s_nr_users journal = 1 \<and> journal \<noteq> 0"
  using assms
  by (auto simp: example_init_journal_def kernel_simps bind_kstep_Plain objs_def Let_def
      split: if_splits prod.splits)

text \<open>
  The length that is passed to the journal depends on where the buffer lies in memory, not on what
  the disk says.
\<close>

lemma init_journal_len:
  assumes "example_init_journal b_data s_nr_users blocksize s = (Some (journal, len), s')"
  shows "\<exists>bh. len = u32 (b_data bh + 4)"
  using assms by (auto simp: example_init_journal_def journal_len_def Let_def split: if_splits prod.splits)

text \<open>
  A mount that fails in \<open>journal_load\<close> keeps the root inode; one that fails in \<open>d_make_root\<close> keeps the
  journal; the mount does not return when no journal is found.
\<close>

lemma journal_fill_super_holds:
  assumes "journal_fill_super b_data s_nr_users s = Some (r, sb, j, inode, s')" "resources s = Some H"
  shows "resources s' = Some (H + (if j = None \<or> r = 0 then {#Obj ''inode'' inode#} else {#}) +
    (case j of None \<Rightarrow> {#} | Some journal \<Rightarrow> {#Obj ''journal'' journal#}))"
proof -
  obtain ino s1 where ino: "get_example_fs_root_inode s = Some (ino, s1)"
    using assms(1) by (auto simp: journal_fill_super_def Let_def split: Option.bind_splits)
  then have s1: "resources s1 = Some (add_mset (Obj ''inode'' (l_addr ino)) H)" "l_addr ino \<noteq> 0"
    using assms(2) by (auto simp: get_example_fs_root_inode_def kernel_simps objs_nonzero split: if_splits)
  obtain jr s2 where jr: "example_init_journal b_data s_nr_users 1024 s1 = (jr, s2)" by (rule prod.exhaust)
  note s2 = init_journal_holds(1) [OF jr s1(1)]
  show ?thesis
    using assms(1) ino jr s2 s1(2) init_journal_holds(2) [OF jr s1(1)]
    by (auto simp: journal_fill_super_def d_make_root_def kernel_simps bind_kstep_Plain objs_def
        Let_def add_mset_commute split: option.splits prod.splits if_splits)
qed

end
