(* ===== verification/Spec2Isabelle.thy ===== *)
theory Spec2Isabelle
  imports User_Progs Pipe_Users Wait_Char Usb_Life Devpts_Life Devpts_Single Pci_Regs Pci_Any Disk_Host Disk_Race Plat_Ide
    Key_Queue Irq_Keys Deferred_Work Small_Mods Odd_Mods Io_Port Proc_Buf Proc_Text Slab_Items
    List_Cache Jbd2_Map Lesson_Write Lesson_Min Journal_Super
begin

text \<open>
  A verification library for QuickDevSkeleton, a collection of Linux kernel modules that introduce
  driver writing: character devices, a pipe, a USB driver, PCI and platform drivers, interrupt and
  memory demonstrations, and a series of file systems that grow from an empty type to journalled
  writing. Each module is small and stands alone; what they share is the kernel. The library models
  each of them from its source under \<open>src\<close> and proves what it does in every branch, errors included.

  \<^bold>\<open>The kernel.\<close> None of its code is in the repository, so its answers are a parameter.
  \<open>Kernel_Prelude\<close> has the C types (pointers as integers with \<open>0\<close> as \<open>NULL\<close>, objects as byte lists with
  bounds-checked access, \<open>size_t\<close> and \<open>loff_t\<close> with their wrap-around, device numbers as 32-bit words,
  rings of buffer heads). \<open>Kernel_Log\<close> has the world: an arbitrary function that gives the answer of the
  \<open>n\<close>-th fallible call and the log of all calls. What a call acquires and gives back, by its
  documentation, is read off the log (\<open>acq\<close>, \<open>rel\<close>); \<open>resources\<close> is what is held after it, or \<open>None\<close> after
  a double free or the release of something never acquired. \<open>Kernel_Text\<close> has \<open>sprintf\<close> into a page.
  A \<open>NULL\<close> dereference, an access outside an object or a loop that does not end is the value \<open>None\<close>.
  A theorem that does not restrict the answers holds for every behaviour of the kernel. Two calls can fail
  and have their result ignored almost everywhere: \<open>cdev_add\<close> and \<open>create_proc_read_entry\<close>. Where the result is
  ignored they are taken to succeed, except in \<open>Pipe\<close>, which shows what comes of a failure. So is \<open>device_create\<close> in \<open>Pci_Any\<close>.

  \<^bold>\<open>The contracts.\<close> \<open>Interfaces\<close> states as locales what modules and devices promise:
  \<open>module_lifecycle\<close> and \<open>partial_lifecycle\<close> (a failed load undoes itself, a removal gives back exactly what
  the load acquired; also used for probe and remove), \<open>seek_reader\<close> and \<open>total_reader\<close> (a read method
  delivers the content from a position), \<open>byte_fifo\<close> (readers get the bytes of the writers in order). What
  follows for sequences of loads, reads and transfers is proved there once; each driver interprets
  the contract on its own operations, or has lemmas that say exactly how it breaks it.

  \<^bold>\<open>Character devices.\<close> \<open>Mychar\<close> (\<open>char/mychar.c\<close>), \<open>Multi_Mem\<close> (\<open>char/multi_mem.c\<close>) and \<open>Wait_Char\<close>
  (\<open>time/my_wait.c\<close>, with blocking readers): open, read, write, seek, module. Reads deliver a gap-free
  prefix of what was written; a read behind the write pointer leaves it; no wake-up is lost.
  \<open>Ring\<close>, \<open>Pipe\<close> and \<open>Pipe_Sched\<close> (\<open>protect/pipe.c\<close>): the ring buffer, its refinement of a byte queue, the
  operations, and their interleaving by any number of processes as a step relation with semaphore
  and wait queues: mutual exclusion, the stream invariant, wake-ups, and the stranded writer after a
  reset. \<open>Key_Queue\<close> (\<open>protect/my_spin.c\<close>): the keyboard queue filled by interrupts. \<open>Io_Port\<close>
  (\<open>io/my_ioport.c\<close>, \<open>my_ioport2.c\<close>): register readers, correct where a long has four bytes, overflowing
  their buffer where it has eight.

  \<^bold>\<open>Buses.\<close> \<open>Usb_Skel\<close> and \<open>Usb_Life\<close> (\<open>usb/usb-skeleton.c\<close>): all operations of the driver, then its life
  as a transition system with reference counts, slots and resources. \<open>Pci_Regs\<close> (\<open>pci/my_pci2.c\<close>) and
  \<open>Pci_Any\<close> (\<open>pci/any.c\<close>): register windows, probe and remove. \<open>Pata\<close> (\<open>platform/pata_platform.c\<close>,
  \<open>fake_pata_driver.c\<close>, their equivalence), \<open>Fake_Pata\<close> (\<open>platform/fake_pata.c\<close>, the emulated disk and its
  thread), \<open>Plat_Ide\<close> (\<open>platform/ide_platform.c\<close>, the same registers as \<open>Pata\<close>), \<open>Plat_Skel\<close>
  (\<open>platform/skel_drv.c\<close> with the devices of \<open>skel_dev.c\<close> and \<open>plat_dev.c\<close>) and \<open>Plat_Key\<close>
  (\<open>platform/key_char_platform.c\<close>).

  \<^bold>\<open>Components together.\<close> \<open>Disk_Host\<close> puts the emulated disk, its driver and the key driver on one device: the
  addresses a probe computes decode to the registers the disk's thread watches, so that an identify command
  sent through the driver's ports is answered, a reset through them overflows the thread's buffer, and a
  process that writes to the key device stops the answer. \<open>Disk_Race\<close> splits a pass of the disk's thread into steps that
  interleave with stores of the host: type safety in every interleaving, and the command that is overlooked. \<open>User_Progs\<close> runs \<open>char/user_read.c\<close> on the
  memory devices (over the contract \<open>seekable_file\<close>, an extension of \<open>total_reader\<close>) and models the programs of \<open>io\<close>
  and \<open>pci\<close>; \<open>Pipe_Users\<close> runs the programs of \<open>protect\<close> on the pipe, from open to close.

  \<^bold>\<open>Interrupts, time, memory.\<close> \<open>Irq_Keys\<close> (\<open>interrupt/like_irq.c\<close> with interrupts arriving while the
  codes are printed, \<open>irq_disable.c\<close>), \<open>Deferred_Work\<close> (\<open>interrupt/my_workqueue.c\<close>, \<open>time/my_timer.c\<close>,
  \<open>protect/my_atomic.c\<close>), \<open>Small_Mods\<close> (\<open>interrupt/my_tasklet.c\<close>, \<open>memory/my_kmalloc.c\<close>, \<open>my_vmalloc.c\<close>,
  \<open>my_page1.c\<close>, \<open>my_kmap.c\<close>), \<open>Odd_Mods\<close> (\<open>protect/my_mutex.c\<close>, \<open>debug/wrong_stack_sample.c\<close>), \<open>Slab_Items\<close>
  (\<open>memory/my_slab.c\<close>), \<open>Proc_Buf\<close> (\<open>debug/my_proc.c\<close>), \<open>Proc_Text\<close> (\<open>time/my_time.c\<close>, \<open>my_delay.c\<close>, the entry of
  \<open>protect/pipe.c\<close>, \<open>module\<close>, \<open>debug/my_print.c\<close>: texts that end inside their page), \<open>List_Buffer\<close> and
  \<open>List_Cache\<close> (\<open>memory/list_buffer.c\<close>, \<open>list_cache.c\<close>): the radix tree walk against an in-order traversal,
  the loop around a ring of buffers, the unbounded text of the proc entries.

  \<^bold>\<open>File systems.\<close> \<open>Devpts\<close> (\<open>fs/inode_orig.c\<close>): options, mounting, pty numbers. \<open>Devpts_Life\<close>: its
  instances as a transition system, mounted, remounted and unmounted while ptys come and go, with the references that keep
  an instance alive and the resources it holds. \<open>Devpts_Single\<close>: the build without multiple instances, where all mounts
  share one super block. \<open>Lesson_Min\<close>, \<open>Lesson_Fs\<close>,
  \<open>Lesson_Read\<close> and \<open>Lesson_Write\<close> (the lessons under \<open>fs\<close>, from the types that cannot be mounted on): type, mount, superblock, directory, reading, writing. \<open>Journal_Map\<close>,
  \<open>Jbd2_Map\<close> (\<open>fs/journal/address_mapping.c\<close>, \<open>fs/jbd2/address_mapping.c\<close>) and \<open>Journal_Super\<close>
  (\<open>fs/journal/super_with_journal.c\<close>): journalled writing and the journal itself. The lessons copy files
  from one directory to the next; each different version is modelled once.

  \<^bold>\<open>Loops and bounds.\<close> Loops over a known number of steps are structural recursion or have a
  termination measure. Following a chain of buffer heads or retrying a registration may not end: these
  are partial functions into \<open>option\<close>, with a theorem that says when they return; no definition
  runs on fuel. Counters and device numbers are words of their width; numbers of processes, mounts, operations
  and interrupts are not bounded, except where a statement says that a 64-bit count does not wrap.
  Sections under a lock are single steps; without a lock the code is split where others may run,
  except that a write of \<open>Usb_Life\<close>, a scan of the registers in \<open>Disk_Race\<close> and the interrupt handler of \<open>Irq_Keys\<close>
  are one step each. Lengths of printed texts and the counters of \<open>List_Buffer\<close> are unbounded integers.

  \<^bold>\<open>Not modelled.\<close> Messages to the kernel log, time stamps and printed addresses, except where a
  claim is about the text. The exercises left to be filled in that have no body or do not compile
  (\<open>interrupt/my_irq.c\<close>, \<open>debug/my_list.c\<close>, \<open>pci/my_pci.c\<close>, \<open>net/my_8139.c\<close>); the draft \<open>fs/super_orig.c\<close>, which includes a missing header (\<open>mount_single\<close>, which it quotes, is in \<open>Devpts_Single\<close>);
  the modules that only declare a variable
  or a parameter; the assembly of \<open>debug/wrong_stack_sample.c\<close>, which panics on purpose; and the second
  copies of files that are modelled once.
\<close>

end
